(* ===== verification/Vega_Prelude.thy ===== *)
theory Vega_Prelude
  imports Main "HOL-Library.Word"
begin

text \<open>
  Shared ground of the development: the machine types of the Go sources, the result type that
  makes a panic a value, the binary search of Go's package \<^verbatim>\<open>sort\<close>, removal of a
  list element by index, and the generic lemmas on lists and words that the components share.

  \<^item> \<open>uint64\<close> is a 64-bit word: \<open>+\<close> and \<open>-\<close> wrap around as Go's do.
  \<^item> \<open>Uint\<close> is the value of a \<^verbatim>\<open>num.Uint\<close> (libs/num/uint.go), a wrapper of a 256-bit
    unsigned integer.
  \<^item> \<open>int64\<close> values are mathematical integers; the operations that can overflow apply
    \<open>i64\<close>, which wraps to two's complement.
\<close>

named_theorems go_simps \<open>evaluation of the Go result type\<close>
named_theorems inv_intros \<open>introduction rules for component invariants\<close>

section \<open>Machine types\<close>

type_synonym uint64 = "64 word"
type_synonym Uint = "256 word"
type_synonym int64 = int

definition i64 :: "int \<Rightarrow> int64" where
  "i64 x = signed_take_bit 63 x"

definition int64_of :: "uint64 \<Rightarrow> int64" where
  "int64_of w = sint w"

definition uint64_of :: "int64 \<Rightarrow> uint64" where
  "uint64_of x = word_of_int x"

definition MaxInt64 :: int64 where
  "MaxInt64 = 9223372036854775807"

lemma i64_small: "- (2 ^ 63) \<le> x \<Longrightarrow> x < 2 ^ 63 \<Longrightarrow> i64 x = x"
  by (simp add: i64_def signed_take_bit_int_eq_self)

lemma i64_range: "- (2 ^ 63) \<le> i64 x \<and> i64 x < 2 ^ 63"
  unfolding i64_def
  using signed_take_bit_int_greater_eq_minus_exp [of 63 x] signed_take_bit_int_less_exp [of 63 x]
  by simp

lemma int64_of_range: "- (2 ^ 63) \<le> int64_of w \<and> int64_of w < 2 ^ 63"
  using sint_ge [of w] sint_lt [of w] by (simp add: int64_of_def)

lemma int64_of_small: "unat w < 2 ^ 63 \<Longrightarrow> int64_of w = int (unat w)"
proof -
  assume "unat w < 2 ^ 63"
  then have "uint w < 2 ^ 63"
    by (metis of_nat_less_iff of_nat_numeral of_nat_power uint_nat)
  then show ?thesis
    unfolding int64_of_def sint_uint
    using order.trans [of "- (2 ^ 63)" 0 "uint w"]
    by (subst signed_take_bit_int_eq_self) auto
qed

lemma uint64_of_int64_of [simp]: "uint64_of (int64_of w) = w"
  by (simp add: uint64_of_def int64_of_def)

lemma uint_uint64_of: "0 \<le> n \<Longrightarrow> n < 2 ^ 64 \<Longrightarrow> uint (uint64_of n) = n"
  by (simp add: uint64_of_def uint_word_of_int take_bit_int_eq_self)

lemma word_of_i64 [simp]: "uint64_of (i64 x) = uint64_of x"
  by (simp add: uint64_of_def i64_def word_of_int_eq_iff take_bit_signed_take_bit)

lemma unat_uint64_of: "0 \<le> n \<Longrightarrow> n < 2 ^ 64 \<Longrightarrow> unat (uint64_of n) = nat n"
  using uint_uint64_of [of n] nat_uint_eq [of "uint64_of n"] by simp

text \<open>
  A point in time is the number of nanoseconds since the Unix epoch; \<open>zeroTime\<close> is the zero value of
  \<^verbatim>\<open>time.Time\<close>, the first of January of the year 1. \<open>seconds n\<close> is \<^verbatim>\<open>time.Duration(n) * time.Second\<close>, a
  64-bit product.
\<close>

type_synonym time = int

definition zeroTime :: time where
  "zeroTime = - 62135596800000000000"

definition seconds :: "int64 \<Rightarrow> int64" where
  "seconds n = i64 (n * 1000000000)"

lemma seconds_small: "0 \<le> n \<Longrightarrow> n \<le> 9000000000 \<Longrightarrow> seconds n = n * 1000000000"
  unfolding seconds_def by (rule i64_small) simp_all

section \<open>Results: a value or a panic\<close>

text \<open>
  A Go function that can panic returns \<open>Ret v\<close> or \<open>Panic p\<close>. \<open>Diverge\<close> is the answer of a
  fuelled loop that ran out of fuel. Error values that the source returns beside other results
  are ordinary components of \<open>v\<close>.
\<close>

datatype ('p, 'a) go = Ret 'a | Panic 'p | Diverge

fun gbind :: "('p, 'a) go \<Rightarrow> ('a \<Rightarrow> ('p, 'b) go) \<Rightarrow> ('p, 'b) go" where
  "gbind (Ret v) f = f v"
| "gbind (Panic p) f = Panic p"
| "gbind Diverge f = Diverge"

lemma gbind_Ret_iff [go_simps]: "gbind m f = Ret w \<longleftrightarrow> (\<exists>v. m = Ret v \<and> f v = Ret w)"
  by (cases m) auto

lemma gbind_assoc: "gbind (gbind m f) g = gbind m (\<lambda>v. gbind (f v) g)"
  by (cases m) auto

lemma gbind_cong [fundef_cong]:
  "m = n \<Longrightarrow> (\<And>v. n = Ret v \<Longrightarrow> f v = g v) \<Longrightarrow> gbind m f = gbind n g"
  by (cases n) auto

section \<open>Binary search\<close>

text \<open>
  \<^verbatim>\<open>sort.Search(n, f)\<close> of Go's standard library: \<open>i, j := 0, n\<close> and, while \<open>i < j\<close>, the
  midpoint \<open>h\<close> replaces \<open>j\<close> when \<open>f h\<close> holds and \<open>h + 1\<close> replaces \<open>i\<close> otherwise.
\<close>

function search_loop :: "(nat \<Rightarrow> bool) \<Rightarrow> nat \<Rightarrow> nat \<Rightarrow> nat" where
  "search_loop f i j =
     (if i < j then
        (let h = (i + j) div 2 in
         if f h then search_loop f i h else search_loop f (h + 1) j)
      else i)"
  by pat_completeness auto
termination
  by (relation "measure (\<lambda>(f, i, j). j - i)") auto

declare search_loop.simps [simp del]

definition sort_Search :: "nat \<Rightarrow> (nat \<Rightarrow> bool) \<Rightarrow> nat" where
  "sort_Search n f = search_loop f 0 n"

lemma search_loop_spec:
  assumes "i \<le> j" and "\<And>a b. a \<le> b \<Longrightarrow> b < j \<Longrightarrow> f a \<Longrightarrow> f b"
  shows "i \<le> search_loop f i j \<and> search_loop f i j \<le> j
    \<and> (\<forall>k. i \<le> k \<longrightarrow> k < search_loop f i j \<longrightarrow> \<not> f k)
    \<and> (\<forall>k. search_loop f i j \<le> k \<longrightarrow> k < j \<longrightarrow> f k)"
  using assms
proof (induction f i j rule: search_loop.induct)
  case (1 f i j)
  let ?h = "(i + j) div 2"
  show ?case
  proof (cases "i < j")
    case False
    then have "search_loop f i j = i" by (simp add: search_loop.simps [of f i j])
    with False "1.prems"(1) show ?thesis by simp
  next
    case lt: True
    have h: "i \<le> ?h" "?h < j" using lt by auto
    show ?thesis
    proof (cases "f ?h")
      case True
      have IH: "i \<le> search_loop f i ?h \<and> search_loop f i ?h \<le> ?h
        \<and> (\<forall>k. i \<le> k \<longrightarrow> k < search_loop f i ?h \<longrightarrow> \<not> f k)
        \<and> (\<forall>k. search_loop f i ?h \<le> k \<longrightarrow> k < ?h \<longrightarrow> f k)"
        using "1.IH"(1) [OF lt refl True] h "1.prems"(2) by force
      have up: "\<forall>k. ?h \<le> k \<longrightarrow> k < j \<longrightarrow> f k"
        using "1.prems"(2) True by blast
      have eq: "search_loop f i j = search_loop f i ?h"
        using lt True by (simp add: search_loop.simps [of f i j] Let_def)
      have "f k" if "search_loop f i ?h \<le> k" "k < j" for k
        using that IH up by (cases "k < ?h") auto
      with IH h show ?thesis unfolding eq by auto
    next
      case False
      have IH: "?h + 1 \<le> search_loop f (?h + 1) j \<and> search_loop f (?h + 1) j \<le> j
        \<and> (\<forall>k. ?h + 1 \<le> k \<longrightarrow> k < search_loop f (?h + 1) j \<longrightarrow> \<not> f k)
        \<and> (\<forall>k. search_loop f (?h + 1) j \<le> k \<longrightarrow> k < j \<longrightarrow> f k)"
        using "1.IH"(2) [OF lt refl False] h "1.prems"(2) by force
      have eq: "search_loop f i j = search_loop f (?h + 1) j"
        using lt False by (simp add: search_loop.simps [of f i j] Let_def)
      have "\<not> f k" if "k < search_loop f (?h + 1) j" for k
      proof (cases "?h + 1 \<le> k")
        case True
        with IH that show ?thesis by blast
      next
        case small: False
        with False h "1.prems"(2) [of k ?h] show ?thesis by auto
      qed
      with IH h show ?thesis unfolding eq by auto
    qed
  qed
qed

lemma sort_Search_spec:
  assumes "\<And>a b. a \<le> b \<Longrightarrow> b < n \<Longrightarrow> f a \<Longrightarrow> f b"
  shows "sort_Search n f \<le> n"
    and "k < sort_Search n f \<Longrightarrow> \<not> f k"
    and "sort_Search n f \<le> k \<Longrightarrow> k < n \<Longrightarrow> f k"
  using search_loop_spec [of 0 n f] assms by (auto simp: sort_Search_def)

section \<open>Lists\<close>

definition remove_nth :: "nat \<Rightarrow> 'a list \<Rightarrow> 'a list" where
  "remove_nth i xs = take i xs @ drop (Suc i) xs"

definition insert_nth :: "nat \<Rightarrow> 'a \<Rightarrow> 'a list \<Rightarrow> 'a list" where
  "insert_nth i x xs = take i xs @ x # drop i xs"

lemma remove_nth_simps [simp]:
  "remove_nth i [] = []"
  "remove_nth 0 (x # xs) = xs"
  "remove_nth (Suc i) (x # xs) = x # remove_nth i xs"
  by (simp_all add: remove_nth_def)

lemma length_remove_nth [simp]: "i < length xs \<Longrightarrow> length (remove_nth i xs) = length xs - 1"
  by (simp add: remove_nth_def)

lemma set_remove_nth_subset: "set (remove_nth i xs) \<subseteq> set xs"
  by (auto simp: remove_nth_def dest: in_set_takeD in_set_dropD)

lemma length_insert_nth [simp]: "length (insert_nth i x xs) = Suc (length xs)"
  by (simp add: insert_nth_def)

lemma set_insert_nth [simp]: "set (insert_nth i x xs) = insert x (set xs)"
  by (metis append_take_drop_id insert_nth_def list.simps(15) set_append Un_insert_right)

lemma sum_list_remove_nth:
  fixes f :: "'a \<Rightarrow> 'b::ab_group_add"
  shows "i < length xs \<Longrightarrow>
    sum_list (map f (remove_nth i xs)) = sum_list (map f xs) - f (xs ! i)"
proof (induction xs arbitrary: i)
  case Nil
  then show ?case by simp
next
  case (Cons x xs)
  then show ?case by (cases i) (auto simp: algebra_simps)
qed

lemma sum_list_update_group:
  fixes f :: "'a \<Rightarrow> 'b::ab_group_add"
  shows "i < length xs \<Longrightarrow>
    sum_list (map f (xs[i := y])) = sum_list (map f xs) - f (xs ! i) + f y"
proof (induction xs arbitrary: i)
  case Nil
  then show ?case by simp
next
  case (Cons x xs)
  then show ?case by (cases i) (auto simp: algebra_simps)
qed

fun find_index :: "('a \<Rightarrow> bool) \<Rightarrow> 'a list \<Rightarrow> nat option" where
  "find_index P [] = None"
| "find_index P (x # xs) = (if P x then Some 0 else map_option Suc (find_index P xs))"

lemma find_index_Some:
  "find_index P xs = Some i \<Longrightarrow> i < length xs \<and> P (xs ! i) \<and> (\<forall>j < i. \<not> P (xs ! j))"
proof (induction xs arbitrary: i)
  case Nil
  then show ?case by simp
next
  case (Cons x xs)
  then show ?case
    by (auto split: if_splits simp: less_Suc_eq_0_disj)
qed

lemma find_index_None: "find_index P xs = None \<longleftrightarrow> (\<forall>x \<in> set xs. \<not> P x)"
  by (induction xs) auto

section \<open>Words\<close>

lemma unat64_less: "unat (w :: uint64) < 2 ^ 64"
  using unsigned_less [of w] by simp

definition min64 :: "uint64 \<Rightarrow> uint64 \<Rightarrow> uint64" where
  "min64 x y = (if y < x then y else x)"

definition max64 :: "uint64 \<Rightarrow> uint64 \<Rightarrow> uint64" where
  "max64 x y = (if x > y then x else y)"

lemma min64_le [simp]: "min64 x y \<le> x" "min64 x y \<le> y"
  by (auto simp: min64_def)

lemma unat_min64: "unat (min64 x y) = min (unat x) (unat y)"
  by (auto simp: min64_def word_less_nat_alt)

lemma unat_max64: "unat (max64 x y) = max (unat x) (unat y)"
  by (auto simp: max64_def word_less_nat_alt)

lemma min64_eq_0 [simp]: "min64 x y = 0 \<longleftrightarrow> x = 0 \<or> y = 0"
  by (simp add: unat_min64 flip: unat_eq_zero) auto

lemma unat_sum_list:
  fixes ws :: "'a::len word list"
  shows "sum_list (map unat ws) < 2 ^ LENGTH('a) \<Longrightarrow>
    unat (sum_list ws) = sum_list (map unat ws)"
proof (induction ws)
  case Nil
  then show ?case by simp
next
  case (Cons w ws)
  then have "unat (sum_list ws) = sum_list (map unat ws)" by simp
  with Cons.prems show ?case by (simp add: unat_word_ariths)
qed

section \<open>Go maps\<close>

text \<open>A Go map is an association list with distinct keys; a new key goes to the end.\<close>

fun assoc_put :: "'k \<Rightarrow> 'v \<Rightarrow> ('k \<times> 'v) list \<Rightarrow> ('k \<times> 'v) list" where
  "assoc_put k v [] = [(k, v)]"
| "assoc_put k v ((k', v') # kvs) = (if k' = k then (k, v) # kvs else (k', v') # assoc_put k v kvs)"

definition assoc_del :: "'k \<Rightarrow> ('k \<times> 'v) list \<Rightarrow> ('k \<times> 'v) list" where
  "assoc_del k kvs = filter (\<lambda>(k', _). k' \<noteq> k) kvs"

lemma map_of_assoc_put [simp]: "map_of (assoc_put k v kvs) = (map_of kvs)(k \<mapsto> v)"
  by (induction kvs) auto

lemma set_fst_assoc_put [simp]: "fst ` set (assoc_put k v kvs) = insert k (fst ` set kvs)"
  by (induction k v kvs rule: assoc_put.induct) (simp_all add: insert_commute)

lemma set_assoc_put: "set (assoc_put k v kvs) \<subseteq> insert (k, v) (set kvs)"
  by (induction k v kvs rule: assoc_put.induct) auto

lemma distinct_assoc_put: "distinct (map fst kvs) \<Longrightarrow> distinct (map fst (assoc_put k v kvs))"
  by (induction kvs) (use set_fst_assoc_put in \<open>fastforce+\<close>)

lemma map_of_assoc_del [simp]: "map_of (assoc_del k kvs) = (map_of kvs)(k := None)"
  unfolding assoc_del_def by (induction kvs) (auto split: if_splits)

lemma map_fst_assoc_del: "map fst (assoc_del k kvs) = filter (\<lambda>k'. k' \<noteq> k) (map fst kvs)"
  by (induction kvs) (auto simp: assoc_del_def)

lemma distinct_assoc_del: "distinct (map fst kvs) \<Longrightarrow> distinct (map fst (assoc_del k kvs))"
  by (simp add: map_fst_assoc_del)

lemma set_fst_assoc_del [simp]: "fst ` set (assoc_del k kvs) = fst ` set kvs - {k}"
  by (auto simp: assoc_del_def image_iff)

text \<open>A sum over the values of a map, when one of them is written or deleted.\<close>

lemma sum_assoc_put_Some:
  fixes f :: "'v \<Rightarrow> 'b::ab_group_add"
  assumes "distinct (map fst kvs)" and "map_of kvs k = Some old"
  shows "sum_list (map (f \<circ> snd) (assoc_put k v kvs)) = sum_list (map (f \<circ> snd) kvs) - f old + f v"
  using assms by (induction kvs) (auto simp: algebra_simps split: if_splits)

lemma sum_assoc_put_None:
  fixes f :: "'v \<Rightarrow> 'b::ab_group_add"
  shows "map_of kvs k = None \<Longrightarrow>
    sum_list (map (f \<circ> snd) (assoc_put k v kvs)) = sum_list (map (f \<circ> snd) kvs) + f v"
  by (induction kvs) (auto simp: algebra_simps split: if_splits)

lemma sum_assoc_del:
  fixes f :: "'v \<Rightarrow> 'b::ab_group_add"
  assumes "distinct (map fst kvs)" and "map_of kvs k = Some old"
  shows "sum_list (map (f \<circ> snd) (assoc_del k kvs)) = sum_list (map (f \<circ> snd) kvs) - f old"
  using assms
proof (induction kvs)
  case (Cons kv kvs)
  show ?case
  proof (cases "fst kv = k")
    case True
    then have "filter (\<lambda>(k', _). k' \<noteq> k) kvs = kvs"
      using Cons.prems(1) by (intro filter_True) (auto simp: rev_image_eqI)
    then show ?thesis using True Cons.prems by (cases kv) (simp add: assoc_del_def)
  next
    case False
    then show ?thesis using Cons by (cases kv) (simp add: assoc_del_def)
  qed
qed simp

end
