(* ===== verification/Vega_Num.thy ===== *)
theory Vega_Num
  imports Vega_Prelude "HOL-Library.Multiset"
begin

text \<open>
  The number types of \<^verbatim>\<open>libs/num\<close>: \<open>Uint\<close> (uint.go), a 256-bit unsigned integer whose
  arithmetic wraps around, and \<open>Int\<close> (int.go), a sign and a \<open>Uint\<close> magnitude. The value
  of a \<open>Uint\<close> is the 256-bit word itself; the pointer-receiver methods
  \<^verbatim>\<open>u.Op(x, y)\<close>, which store the result in \<open>u\<close> and return it, are functions of \<open>x\<close>
  and \<open>y\<close>. The lemmas show that \<open>Int\<close> computes on the integers its pairs denote as long as
  the magnitude fits 256 bits, and where its two zeros make it differ.
\<close>

section \<open>Uint\<close>

definition NewUint :: "uint64 \<Rightarrow> Uint" where
  "NewUint v = ucast v"

definition Uint_Min :: "Uint \<Rightarrow> Uint \<Rightarrow> Uint" where
  "Uint_Min a b = (if a < b then a else b)"

definition Uint_Max :: "Uint \<Rightarrow> Uint \<Rightarrow> Uint" where
  "Uint_Max a b = (if a > b then a else b)"

fun Uint_AddSum :: "Uint \<Rightarrow> Uint list \<Rightarrow> Uint" where
  "Uint_AddSum u [] = u"
| "Uint_AddSum u (x # vals) = Uint_AddSum (u + x) vals"

definition Uint_Sum :: "Uint list \<Rightarrow> Uint" where
  "Uint_Sum vals = Uint_AddSum (NewUint 0) vals"

text \<open>The boolean of \<^verbatim>\<open>AddOverflow\<close> and \<^verbatim>\<open>SubOverflow\<close> is true when the operation wrapped.\<close>

definition Uint_AddOverflow :: "Uint \<Rightarrow> Uint \<Rightarrow> Uint \<times> bool" where
  "Uint_AddOverflow x y = (x + y, 2 ^ 256 \<le> uint x + uint y)"

definition Uint_SubOverflow :: "Uint \<Rightarrow> Uint \<Rightarrow> Uint \<times> bool" where
  "Uint_SubOverflow x y = (x - y, uint x < uint y)"

definition Uint_Delta :: "Uint \<Rightarrow> Uint \<Rightarrow> Uint \<times> bool" where
  "Uint_Delta x y = (if y > x then (y - x, True) else (x - y, False))"

text \<open>Division by zero yields zero in both; the remainder by zero is zero too, unlike \<open>mod\<close>.\<close>

definition Uint_Div :: "Uint \<Rightarrow> Uint \<Rightarrow> Uint" where
  "Uint_Div x y = (if y = 0 then 0 else x div y)"

definition Uint_Mod :: "Uint \<Rightarrow> Uint \<Rightarrow> Uint" where
  "Uint_Mod x y = (if y = 0 then 0 else x mod y)"

definition UintToUint64 :: "Uint option \<Rightarrow> uint64" where
  "UintToUint64 u = (case u of None \<Rightarrow> 0 | Some v \<Rightarrow> ucast v)"

text \<open>
  \<^verbatim>\<open>Median\<close> drops nil and zero entries, sorts, and averages the two middle values when their
  number is even.
\<close>

definition Median :: "Uint option list \<Rightarrow> Uint option" where
  "Median nums =
     (let numsCopy = sort (filter (\<lambda>u. u \<noteq> 0) (List.map_filter id nums)) in
      if numsCopy = [] then None
      else
        let mid = length numsCopy div 2 in
        if length numsCopy mod 2 = 1 then Some (numsCopy ! mid)
        else Some (Uint_Div (Uint_Sum [numsCopy ! mid, numsCopy ! (mid - 1)]) (NewUint 2)))"

section \<open>Int\<close>

record num_Int =
  intU :: Uint
  intS :: bool \<comment> \<open>true = positive, false = negative\<close>

definition IntFromUint :: "Uint \<Rightarrow> bool \<Rightarrow> num_Int" where
  "IntFromUint u s = \<lparr>intU = u, intS = s\<rparr>"

definition Uint_DeltaI :: "Uint \<Rightarrow> Uint \<Rightarrow> num_Int" where
  "Uint_DeltaI x y = (let (d, s) = Uint_Delta x y in IntFromUint d (\<not> s))"

definition Int_IsNegative :: "num_Int \<Rightarrow> bool" where
  "Int_IsNegative i \<longleftrightarrow> \<not> intS i \<and> intU i \<noteq> 0"

definition Int_IsPositive :: "num_Int \<Rightarrow> bool" where
  "Int_IsPositive i \<longleftrightarrow> intS i \<and> intU i \<noteq> 0"

definition Int_IsZero :: "num_Int \<Rightarrow> bool" where
  "Int_IsZero i \<longleftrightarrow> intU i = 0"

definition Int_FlipSign :: "num_Int \<Rightarrow> num_Int" where
  "Int_FlipSign i = i\<lparr>intS := \<not> intS i\<rparr>"

definition Int_EQ :: "num_Int \<Rightarrow> num_Int \<Rightarrow> bool" where
  "Int_EQ i o' \<longleftrightarrow> intS i = intS o' \<and> intU i = intU o'"

definition Int_GT :: "num_Int \<Rightarrow> num_Int \<Rightarrow> bool" where
  "Int_GT i o' =
     (if Int_IsNegative i then
        (if Int_IsPositive o' \<or> Int_IsZero o' then False else intU i < intU o')
      else if Int_IsPositive i then
        (if Int_IsZero o' \<or> Int_IsNegative o' then True else intU i > intU o')
      else Int_IsNegative o')"

definition Int_GTE :: "num_Int \<Rightarrow> num_Int \<Rightarrow> bool" where
  "Int_GTE i o' \<longleftrightarrow> Int_GT i o' \<or> Int_EQ i o'"

definition Int_LT :: "num_Int \<Rightarrow> num_Int \<Rightarrow> bool" where
  "Int_LT i o' =
     (if Int_IsNegative i then
        (if Int_IsPositive o' \<or> Int_IsZero o' then True else intU i > intU o')
      else if Int_IsPositive i then
        (if Int_IsZero o' \<or> Int_IsNegative o' then False else intU i < intU o')
      else Int_IsPositive o')"

definition Int_LTE :: "num_Int \<Rightarrow> num_Int \<Rightarrow> bool" where
  "Int_LTE i o' \<longleftrightarrow> Int_LT i o' \<or> Int_EQ i o'"

text \<open>\<^verbatim>\<open>Int64\<close> reads the low 64 bits of the magnitude as an \<open>int64\<close> and negates it.\<close>

definition Int_Int64 :: "num_Int \<Rightarrow> int64" where
  "Int_Int64 i =
     (let val = int64_of (ucast (intU i)) in
      if Int_IsNegative i then i64 (- val) else val)"

definition Int_Add :: "num_Int \<Rightarrow> num_Int \<Rightarrow> num_Int" where
  "Int_Add i a =
     (if Int_IsZero a then i
      else if Int_IsZero i then \<lparr>intU = intU a, intS = intS a\<rparr>
      else if Int_IsPositive i \<and> Int_IsPositive a then i\<lparr>intU := intU i + intU a\<rparr>
      else if Int_IsNegative i \<and> Int_IsNegative a then i\<lparr>intU := intU i + intU a\<rparr>
      else if Int_IsNegative i then
        (if intU i \<ge> intU a then i\<lparr>intU := intU i - intU a\<rparr>
         else i\<lparr>intU := intU a - intU i, intS := True\<rparr>)
      else if intU i \<ge> intU a then i\<lparr>intU := intU i - intU a\<rparr>
      else i\<lparr>intU := intU a - intU i, intS := False\<rparr>)"

text \<open>\<^verbatim>\<open>Sub\<close> flips the sign of its argument for the call and flips it back.\<close>

definition Int_Sub :: "num_Int \<Rightarrow> num_Int \<Rightarrow> num_Int" where
  "Int_Sub i a = Int_Add i (Int_FlipSign a)"

fun Int_AddSum :: "num_Int \<Rightarrow> num_Int list \<Rightarrow> num_Int" where
  "Int_AddSum i [] = i"
| "Int_AddSum i (x # vals) = Int_AddSum (Int_Add i x) vals"

fun Int_SubSum :: "num_Int \<Rightarrow> num_Int list \<Rightarrow> num_Int" where
  "Int_SubSum i [] = i"
| "Int_SubSum i (x # vals) = Int_SubSum (Int_Sub i x) vals"

definition Int_Mul :: "num_Int \<Rightarrow> num_Int \<Rightarrow> num_Int" where
  "Int_Mul i m = \<lparr>intU = intU i * intU m, intS = (intS i = intS m)\<rparr>"

definition Int_Div :: "num_Int \<Rightarrow> num_Int \<Rightarrow> num_Int" where
  "Int_Div i m = \<lparr>intU = Uint_Div (intU i) (intU m), intS = (intS i = intS m)\<rparr>"

definition NewInt :: "int64 \<Rightarrow> num_Int" where
  "NewInt val =
     (if val < 0 then \<lparr>intU = NewUint (uint64_of (i64 (- val))), intS = False\<rparr>
      else \<lparr>intU = NewUint (uint64_of val), intS = True\<rparr>)"

definition NewIntFromUint :: "Uint \<Rightarrow> num_Int" where
  "NewIntFromUint v = \<lparr>intU = v, intS = True\<rparr>"

section \<open>What the pairs denote\<close>

definition int_val :: "num_Int \<Rightarrow> int" where
  "int_val i = (if intS i then uint (intU i) else - uint (intU i))"

lemmas Int_sign_defs = Int_IsNegative_def Int_IsPositive_def Int_IsZero_def Int_FlipSign_def
lemmas Int_cmp_defs = Int_GT_def Int_LT_def Int_GTE_def Int_LTE_def Int_EQ_def

lemma uint_pos_iff: "0 < uint (w :: Uint) \<longleftrightarrow> w \<noteq> 0"
  by (auto simp: order.strict_iff_order uint_0_iff)

lemma uint_plus_small: "uint (x :: Uint) + uint y < 2 ^ 256 \<Longrightarrow> uint (x + y) = uint x + uint y"
  by (simp add: uint_word_ariths)

lemma uint_minus_small: "(y :: Uint) \<le> x \<Longrightarrow> uint (x - y) = uint x - uint y"
  by (simp add: uint_minus_simple_alt [THEN iffD1])

lemma int_val_flip: "int_val (Int_FlipSign a) = - int_val a"
  by (simp add: int_val_def Int_FlipSign_def)

lemma int_val_Add:
  assumes "\<bar>int_val i + int_val a\<bar> < 2 ^ 256"
  shows "int_val (Int_Add i a) = int_val i + int_val a"
proof -
  have nn: "0 \<le> uint (intU i)" "0 \<le> uint (intU a)" by simp_all
  show ?thesis
  proof (cases "intS i = intS a")
    case True
    then have "uint (intU i) + uint (intU a) < 2 ^ 256"
      using assms nn by (auto simp: int_val_def split: if_splits)
    then have "uint (intU i + intU a) = uint (intU i) + uint (intU a)"
      by (rule uint_plus_small)
    with True show ?thesis
      by (auto simp: Int_Add_def Int_sign_defs int_val_def)
  next
    case False
    have "intU a \<le> intU i \<Longrightarrow> uint (intU i - intU a) = uint (intU i) - uint (intU a)"
      "intU i \<le> intU a \<Longrightarrow> uint (intU a - intU i) = uint (intU a) - uint (intU i)"
      by (simp_all add: uint_minus_small)
    with False show ?thesis
      by (auto simp: Int_Add_def Int_sign_defs int_val_def not_le)
  qed
qed

lemma int_val_order:
  "Int_LT i o' \<longleftrightarrow> int_val i < int_val o'" "Int_GT i o' \<longleftrightarrow> int_val i > int_val o'"
  using uint_pos_iff [of "intU i"] uint_pos_iff [of "intU o'"]
  by (auto simp: Int_cmp_defs Int_sign_defs int_val_def word_less_def word_le_def)

lemma int_val_Sub:
  "\<bar>int_val i - int_val a\<bar> < 2 ^ 256 \<Longrightarrow> int_val (Int_Sub i a) = int_val i - int_val a"
  using int_val_Add [of i "Int_FlipSign a"] by (simp add: Int_Sub_def int_val_flip)

lemma uint_NewUint_of: "0 \<le> n \<Longrightarrow> n < 2 ^ 64 \<Longrightarrow> uint (NewUint (uint64_of n)) = n"
  by (simp add: NewUint_def uint_uint64_of unsigned_ucast_eq take_bit_int_eq_self)

lemma int_val_NewInt: "- (2 ^ 63) \<le> v \<Longrightarrow> v < 2 ^ 63 \<Longrightarrow> int_val (NewInt v) = v"
  by (auto simp: NewInt_def int_val_def uint_NewUint_of)

section \<open>Properties of Int\<close>

text \<open>
  C15: summing a list into an \<open>Int\<close> adds the denoted integers, as long as every partial sum fits
  the 256-bit magnitude.
\<close>

theorem Int_AddSum_denotes:
  assumes "\<forall>k \<le> length xs. \<bar>int_val i + sum_list (map int_val (take k xs))\<bar> < 2 ^ 256"
  shows "int_val (Int_AddSum i xs) = int_val i + sum_list (map int_val xs)"
  using assms
proof (induction xs arbitrary: i)
  case Nil
  then show ?case by simp
next
  case (Cons x xs)
  have "\<bar>int_val i + int_val x\<bar> < 2 ^ 256"
    using Cons.prems [rule_format, of 1] by simp
  then have step: "int_val (Int_Add i x) = int_val i + int_val x"
    by (rule int_val_Add)
  have "\<forall>k \<le> length xs. \<bar>int_val (Int_Add i x) + sum_list (map int_val (take k xs))\<bar> < 2 ^ 256"
  proof (intro allI impI)
    fix k assume "k \<le> length xs"
    with Cons.prems [rule_format, of "Suc k"] step
    show "\<bar>int_val (Int_Add i x) + sum_list (map int_val (take k xs))\<bar> < 2 ^ 256"
      by (simp add: add.assoc)
  qed
  from Cons.IH [OF this] step show ?case by simp
qed

theorem Int_AddSum_denotes_witness:
  "int_val (Int_AddSum (NewInt 3) [NewInt (- 7), NewInt 2]) = - 2"
proof -
  have "int_val (Int_AddSum (NewInt 3) [NewInt (- 7), NewInt 2])
     = int_val (NewInt 3) + sum_list (map int_val [NewInt (- 7), NewInt 2])"
    by (rule Int_AddSum_denotes) (simp add: int_val_NewInt le_Suc_eq all_conj_distrib numeral_2_eq_2)
  then show ?thesis by (simp add: int_val_NewInt)
qed

text \<open>
  C17: the strict comparisons decide the order of the denoted integers; the weak ones do so too,
  except between a zero with a positive and a zero with a negative sign, which they leave
  unordered.
\<close>

theorem Int_comparisons:
  "(Int_LT i o' \<longleftrightarrow> int_val i < int_val o')
  \<and> (Int_GT i o' \<longleftrightarrow> int_val i > int_val o')
  \<and> (Int_LTE i o' \<longleftrightarrow> int_val i \<le> int_val o' \<and> \<not> (int_val i = 0 \<and> int_val o' = 0 \<and> intS i \<noteq> intS o'))
  \<and> (Int_GTE i o' \<longleftrightarrow> int_val i \<ge> int_val o' \<and> \<not> (int_val i = 0 \<and> int_val o' = 0 \<and> intS i \<noteq> intS o'))"
proof -
  have eq: "Int_EQ i o' \<longleftrightarrow> int_val i = int_val o' \<and> \<not> (int_val i = 0 \<and> int_val o' = 0 \<and> intS i \<noteq> intS o')"
    using uint_pos_iff [of "intU i"] uint_pos_iff [of "intU o'"]
    by (auto simp: Int_EQ_def int_val_def word_uint_eq_iff)
  show ?thesis
    unfolding Int_LTE_def Int_GTE_def eq int_val_order by auto
qed

text \<open>
  C18: adding a positive number to its opposite gives a zero with a negative sign, which
  \<^verbatim>\<open>GTE\<close> and \<^verbatim>\<open>LTE\<close> both deny against \<^verbatim>\<open>NewInt(0)\<close> although the values are equal.
\<close>

theorem Int_negative_zero:
  assumes "0 < n" and "n < 2 ^ 63"
  shows "int_val (Int_Add (NewInt (- n)) (NewInt n)) = int_val (NewInt 0)
    \<and> \<not> Int_GTE (Int_Add (NewInt (- n)) (NewInt n)) (NewInt 0)
    \<and> \<not> Int_LTE (Int_Add (NewInt (- n)) (NewInt n)) (NewInt 0)"
proof -
  have u: "uint (NewUint (uint64_of n)) = n"
    using assms by (simp add: uint_NewUint_of)
  then have nz: "NewUint (uint64_of n) \<noteq> 0" using assms(1) by (auto simp flip: uint_0_iff)
  have eq: "Int_Add (NewInt (- n)) (NewInt n) = \<lparr>intU = 0, intS = False\<rparr>"
    using assms nz by (simp add: NewInt_def i64_small Int_Add_def Int_sign_defs)
  show ?thesis
    unfolding eq by (simp add: int_val_def NewInt_def NewUint_def uint64_of_def Int_cmp_defs Int_sign_defs)
qed

theorem Int_negative_zero_witness:
  "int_val (Int_Add (NewInt (- 5)) (NewInt 5)) = int_val (NewInt 0)
    \<and> \<not> Int_GTE (Int_Add (NewInt (- 5)) (NewInt 5)) (NewInt 0)
    \<and> \<not> Int_LTE (Int_Add (NewInt (- 5)) (NewInt 5)) (NewInt 0)"
  using Int_negative_zero [of 5] by simp

section \<open>Properties of Uint\<close>

text \<open>
  C16: \<^verbatim>\<open>Delta\<close> never wraps: its magnitude is the distance of its arguments, and \<^verbatim>\<open>DeltaI\<close>
  denotes their signed difference.
\<close>

theorem Uint_Delta_exact:
  "uint (fst (Uint_Delta x y)) = \<bar>uint x - uint y\<bar> \<and> int_val (Uint_DeltaI x y) = uint x - uint y"
  by (auto simp: Uint_Delta_def Uint_DeltaI_def IntFromUint_def int_val_def uint_minus_small
      word_less_def word_le_def)

lemma length_filter_le_nth:
  fixes xs :: "'a::linorder list"
  assumes "sorted xs" and "i < length xs" and "xs ! i \<le> m"
  shows "Suc i \<le> length (filter (\<lambda>x. x \<le> m) xs)"
proof -
  have "\<forall>x \<in> set (take (Suc i) xs). x \<le> m"
    using assms sorted_nth_mono [OF assms(1)]
    by (clarsimp simp: in_set_conv_nth less_Suc_eq_le) (meson order_trans)
  then have "filter (\<lambda>x. x \<le> m) (take (Suc i) xs) = take (Suc i) xs"
    by (simp add: filter_id_conv)
  then have "Suc i \<le> length (filter (\<lambda>x. x \<le> m) (take (Suc i) xs @ drop (Suc i) xs))"
    using assms(2) by (simp only: filter_append) simp
  then show ?thesis by simp
qed

lemma length_filter_ge_nth:
  fixes xs :: "'a::linorder list"
  assumes "sorted xs" and "i < length xs" and "m \<le> xs ! i"
  shows "length xs - i \<le> length (filter (\<lambda>x. m \<le> x) xs)"
proof -
  have "\<forall>x \<in> set (drop i xs). m \<le> x"
    using assms sorted_nth_mono [OF assms(1)]
    by (clarsimp simp: in_set_conv_nth less_diff_conv) (metis add.commute le_add1 order_trans)
  then have "filter (\<lambda>x. m \<le> x) (drop i xs) = drop i xs"
    by (simp add: filter_id_conv)
  then have "length xs - i \<le> length (filter (\<lambda>x. m \<le> x) (take i xs @ drop i xs))"
    by (simp only: filter_append) simp
  then show ?thesis by simp
qed

definition median_values :: "Uint option list \<Rightarrow> Uint list" where
  "median_values nums = filter (\<lambda>u. u \<noteq> 0) (List.map_filter id nums)"

lemma length_filter_sort: "length (filter P (sort xs)) = length (filter P xs)"
  by (metis mset_filter mset_sort size_mset)

lemma average_between:
  fixes a b :: Uint
  assumes "b \<le> a" and "uint a < 2 ^ 255"
  shows "b \<le> Uint_Div (Uint_Sum [a, b]) (NewUint 2) \<and> Uint_Div (Uint_Sum [a, b]) (NewUint 2) \<le> a"
proof -
  have "uint b \<le> uint a" using assms(1) by (simp add: word_le_def)
  then have "uint (a + b) = uint a + uint b"
    using assms(2) by (intro uint_plus_small) simp
  then have "uint (Uint_Div (Uint_Sum [a, b]) (NewUint 2)) = (uint a + uint b) div 2"
    by (simp add: Uint_Div_def Uint_Sum_def NewUint_def uint_div)
  moreover have "uint b \<le> (uint a + uint b) div 2 \<and> (uint a + uint b) div 2 \<le> uint a"
    using \<open>uint b \<le> uint a\<close> by linarith
  ultimately show ?thesis unfolding word_le_def by simp
qed

text \<open>
  C16: the median of the non-nil, non-zero entries exists when there is one, and at least half of
  the entries are at most, and at least half at least, the median; the entries stay below half the
  256-bit range so that the two middle ones can be added.
\<close>

theorem Median_splits:
  assumes "median_values nums \<noteq> []" and "\<forall>v \<in> set (median_values nums). uint v < 2 ^ 255"
  shows "\<exists>m. Median nums = Some m
    \<and> length (median_values nums) \<le> 2 * length (filter (\<lambda>v. v \<le> m) (median_values nums))
    \<and> length (median_values nums) \<le> 2 * length (filter (\<lambda>v. m \<le> v) (median_values nums))"
proof -
  let ?L = "median_values nums" and ?S = "sort (median_values nums)"
  let ?n = "length ?L" and ?mid = "length ?L div 2"
  have S: "?S \<noteq> []" "sorted ?S" "length ?S = ?n" using assms(1) 
    by (auto dest: arg_cong [of _ _ length])
  have mid: "?mid < ?n" using assms(1) by (simp add: div_less_dividend)
  obtain m where m: "Median nums = Some m"
    and lo: "?n \<le> 2 * Suc (if ?n mod 2 = 1 then ?mid else ?mid - 1)" "?S ! (if ?n mod 2 = 1 then ?mid else ?mid - 1) \<le> m"
    and hi: "m \<le> ?S ! ?mid"
  proof (cases "?n mod 2 = 1")
    case True
    then show ?thesis
      using S by (intro that [of "?S ! ?mid"]) (auto simp: Median_def Let_def median_values_def)
  next
    case False
    then have "0 < ?mid" using assms(1) by (cases ?n) auto
    then have ord: "?S ! (?mid - 1) \<le> ?S ! ?mid" using S mid by (auto intro: sorted_nth_mono)
    have "?S ! ?mid \<in> set ?L" using mid S(3) nth_mem [of ?mid ?S] by simp
    then have "uint (?S ! ?mid) < 2 ^ 255" using assms(2) by blast
    from average_between [OF ord this] False S \<open>0 < ?mid\<close> show ?thesis
      by (intro that [of "Uint_Div (Uint_Sum [?S ! ?mid, ?S ! (?mid - 1)]) (NewUint 2)"])
        (auto simp: Median_def Let_def median_values_def)
  qed
  have "?n \<le> 2 * length (filter (\<lambda>v. v \<le> m) ?S)"
    using length_filter_le_nth [OF S(2) _ lo(2)] lo(1) mid S(3) by (auto split: if_splits)
  moreover have "?n \<le> 2 * length (filter (\<lambda>v. m \<le> v) ?S)"
    using length_filter_ge_nth [OF S(2) _ hi] mid S(3) by auto
  ultimately show ?thesis using m by (auto simp: length_filter_sort)
qed

theorem Median_splits_witness:
  "\<exists>m. Median [Some 9, None, Some 4, Some 0, Some 7, Some 5] = Some m
    \<and> length [9, 4, 7, 5 :: Uint] \<le> 2 * length (filter (\<lambda>v. v \<le> m) [9, 4, 7, 5])
    \<and> length [9, 4, 7, 5 :: Uint] \<le> 2 * length (filter (\<lambda>v. m \<le> v) [9, 4, 7, 5])"
proof -
  have L: "median_values [Some 9, None, Some 4, Some 0, Some 7, Some 5] = [9, 4, 7, 5]"
    by (simp add: median_values_def List.map_filter_def)
  show ?thesis
    by (rule Median_splits [of "[Some 9, None, Some 4, Some 0, Some 7, Some 5]", unfolded L])
      simp_all
qed

end
