(* ===== verification/Orders.thy ===== *)
theory Orders
  imports Vega_Num
begin

text \<open>
  The order and trade types of \<^verbatim>\<open>core/types/matching.go\<close> and the operations orders carry:
  the visible and hidden volume of iceberg orders, the predicates that decide an order's life on
  the book, and amendments. Prices that the code keeps behind a pointer are \<open>Uint\<close> values; the
  nil price of an order is 0, which is what \<^verbatim>\<open>validateOrder\<close> replaces it with. The two
  fee pointers of a trade stay nil in the components modelled here and are left out.
\<close>

section \<open>Data\<close>

datatype Side = SideUnspecified | SideBuy | SideSell

datatype OrderType = OrderTypeUnspecified | OrderTypeLimit | OrderTypeMarket | OrderTypeNetwork

datatype OrderTimeInForce =
    OrderTimeInForceUnspecified | OrderTimeInForceGTC | OrderTimeInForceGTT
  | OrderTimeInForceIOC | OrderTimeInForceFOK | OrderTimeInForceGFA | OrderTimeInForceGFN

datatype OrderStatus =
    OrderStatusUnspecified | OrderStatusActive | OrderStatusExpired | OrderStatusCancelled
  | OrderStatusStopped | OrderStatusFilled | OrderStatusRejected | OrderStatusPartiallyFilled
  | OrderStatusParked

datatype PeggedReference =
    PeggedReferenceUnspecified | PeggedReferenceMid | PeggedReferenceBestBid
  | PeggedReferenceBestAsk

text \<open>The order errors that the modelled operations return.\<close>

datatype OrderError =
    OrderErrorUnspecified | OrderErrorInvalidMarketID | OrderErrorInvalidOrderID
  | OrderErrorOutOfSequence | OrderErrorInvalidRemainingSize | OrderErrorTimeFailure
  | OrderErrorRemovalFailure | OrderErrorInvalidExpirationDatetime
  | OrderErrorInvalidOrderReference | OrderErrorEditNotAllowed | OrderErrorAmendFailure
  | OrderErrorNotFound | OrderErrorInvalidParty | OrderErrorMarketClosed
  | OrderErrorMarginCheckFailed | OrderErrorMissingGeneralAccount | OrderErrorInternalError
  | OrderErrorInvalidSize | OrderErrorInvalidPersistance | OrderErrorInvalidType
  | OrderErrorSelfTrading | OrderErrorInsufficientFundsToPayFees | OrderErrorIncorrectMarketType
  | OrderErrorInvalidTimeInForce | OrderErrorCannotSendGFNOrderDuringAnAuction
  | OrderErrorGFAOrderDuringContinuousTrading | OrderErrorCannotAmendToGTTWithoutExpiryAt
  | OrderErrorExpiryAtBeforeCreatedAt | OrderErrorCannotHaveGTCAndExpiryAt
  | OrderErrorCannotAmendToFOKOrIOC | OrderErrorCannotAmendToGFAOrGFN
  | OrderErrorCannotAmendFromGFAOrGFN | OrderErrorCannotSendIOCOrderDuringAuction
  | OrderErrorCannotSendFOKOrderDurinAuction | OrderErrorMustBeLimitOrder
  | OrderErrorMustBeGTTOrGTC | OrderErrorWithoutReferencePrice
  | OrderErrorBuyCannotReferenceBestAskPrice | OrderErrorOffsetMustBeGreaterOrEqualToZero
  | OrderErrorSellCannotReferenceBestBidPrice | OrderErrorOffsetMustBeGreaterThanZero
  | OrderErrorInsufficientAssetBalance | OrderErrorCannotAmendPeggedOrderDetailsOnNonPeggedOrder
  | OrderErrorUnableToRepricePeggedOrder | OrderErrorUnableToAmendPriceOnPeggedOrder
  | OrderErrorNonPersistentOrderOutOfPriceBounds | OrderErrorTooManyPeggedOrders
  | OrderErrorPostOnlyOrderWouldTrade | OrderErrorReduceOnlyOrderWouldNotReducePosition
  | OrderErrorIsolatedMarginCheckFailed | OrderErrorPeggedOrdersNotAllowedInIsolatedMargin
  | OrderErrorPriceNotInTickSize | OrderErrorPriceLTEMaxPrice

record PeggedOrder =
  peg_Reference :: PeggedReference
  peg_Offset :: Uint

record IcebergOrder =
  ice_ReservedRemaining :: uint64
  ice_PeakSize :: uint64
  ice_MinimumVisibleSize :: uint64

record Order =
  o_ID :: string
  o_MarketID :: string
  o_Party :: string
  o_Side :: Side
  o_Price :: Uint
  o_OriginalPrice :: Uint
  o_Size :: uint64
  o_Remaining :: uint64
  o_TimeInForce :: OrderTimeInForce
  o_Type :: OrderType
  o_CreatedAt :: int64
  o_Status :: OrderStatus
  o_ExpiresAt :: int64
  o_Reference :: string
  o_Reason :: OrderError
  o_UpdatedAt :: int64
  o_Version :: uint64
  o_BatchID :: uint64
  o_PeggedOrder :: "PeggedOrder option"
  o_PostOnly :: bool
  o_ReduceOnly :: bool
  o_extraRemaining :: uint64
  o_IcebergOrder :: "IcebergOrder option"
  o_GeneratedOffbook :: bool

datatype TradeType =
    TradeTypeUnspecified | TradeTypeDefault | TradeTypeNetworkCloseOutGood
  | TradeTypeNetworkCloseOutBad

record Trade =
  t_ID :: string
  t_MarketID :: string
  t_Price :: Uint
  t_MarketPrice :: Uint
  t_Size :: uint64
  t_Buyer :: string
  t_Seller :: string
  t_Aggressor :: Side
  t_BuyOrder :: string
  t_SellOrder :: string
  t_Timestamp :: int64
  t_Type :: TradeType
  t_BuyerAuctionBatch :: uint64
  t_SellerAuctionBatch :: uint64

record OrderConfirmation =
  oc_Order :: Order
  oc_Trades :: "Trade list"
  oc_PassiveOrdersAffected :: "Order list"

definition OtherSide :: "Side \<Rightarrow> Side" where
  "OtherSide s = (case s of SideBuy \<Rightarrow> SideSell | SideSell \<Rightarrow> SideBuy | _ \<Rightarrow> SideUnspecified)"

section \<open>Operations\<close>

definition ReduceOnlyAdjustRemaining :: "uint64 \<Rightarrow> Order \<Rightarrow> (string, Order) go" where
  "ReduceOnlyAdjustRemaining extraSize ord =
     (if \<not> o_ReduceOnly ord
      then Panic ''order.ReduceOnlyAdjustSize shall be call only on reduce-only orders''
      else Ret (ord\<lparr>o_extraRemaining := extraSize, o_Remaining := o_Remaining ord - extraSize\<rparr>))"

definition ClearUpExtraRemaining :: "Order \<Rightarrow> Order" where
  "ClearUpExtraRemaining ord =
     (if \<not> o_ReduceOnly ord then ord
      else ord\<lparr>o_Remaining := o_Remaining ord + o_extraRemaining ord, o_extraRemaining := 0\<rparr>)"

definition TrueRemaining :: "Order \<Rightarrow> uint64" where
  "TrueRemaining ord =
     (case o_IcebergOrder ord of
        None \<Rightarrow> o_Remaining ord
      | Some ice \<Rightarrow> o_Remaining ord + ice_ReservedRemaining ice)"

definition IcebergNeedsRefresh :: "Order \<Rightarrow> bool" where
  "IcebergNeedsRefresh ord =
     (case o_IcebergOrder ord of
        None \<Rightarrow> False
      | Some ice \<Rightarrow>
          if ice_ReservedRemaining ice = 0 then False
          else if o_Remaining ord \<ge> ice_MinimumVisibleSize ice then False
          else True)"

definition SetIcebergPeaks :: "Order \<Rightarrow> Order" where
  "SetIcebergPeaks ord =
     (case o_IcebergOrder ord of
        None \<Rightarrow> ord
      | Some ice \<Rightarrow>
          if o_Remaining ord > ice_PeakSize ice \<and> ice_ReservedRemaining ice = 0 then
            (let peak = min64 (o_Remaining ord) (ice_PeakSize ice) in
             ord\<lparr>o_Remaining := peak,
                 o_IcebergOrder := Some (ice\<lparr>ice_ReservedRemaining := o_Remaining ord - peak\<rparr>)\<rparr>)
          else
            (let refill = ice_PeakSize ice - o_Remaining ord;
                 refill = min64 refill (ice_ReservedRemaining ice)
             in ord\<lparr>o_Remaining := o_Remaining ord + refill,
                    o_IcebergOrder :=
                      Some (ice\<lparr>ice_ReservedRemaining := ice_ReservedRemaining ice - refill\<rparr>)\<rparr>))"

definition IsPersistent :: "Order \<Rightarrow> bool" where
  "IsPersistent ord \<longleftrightarrow>
     (o_TimeInForce ord = OrderTimeInForceGTC \<or>
      o_TimeInForce ord = OrderTimeInForceGTT \<or>
      o_TimeInForce ord = OrderTimeInForceGFN \<or>
      o_TimeInForce ord = OrderTimeInForceGFA) \<and>
     o_Type ord = OrderTypeLimit \<and>
     o_Remaining ord > 0"

definition IsExpireable :: "Order \<Rightarrow> bool" where
  "IsExpireable ord \<longleftrightarrow>
     (o_TimeInForce ord = OrderTimeInForceGFN \<or>
      o_TimeInForce ord = OrderTimeInForceGTT \<or>
      o_TimeInForce ord = OrderTimeInForceGFA) \<and>
     o_ExpiresAt ord > 0"

definition IsFinished :: "Order \<Rightarrow> bool" where
  "IsFinished ord \<longleftrightarrow> o_Status ord \<noteq> OrderStatusActive \<and> o_Status ord \<noteq> OrderStatusParked"

definition HasTraded :: "Order \<Rightarrow> bool" where
  "HasTraded ord \<longleftrightarrow> o_Size ord \<noteq> o_Remaining ord"

subsection \<open>Amendments\<close>

definition applyOrderAmendmentSizeIceberg :: "int64 \<Rightarrow> IcebergOrder \<Rightarrow> Order \<Rightarrow> Order" where
  "applyOrderAmendmentSizeIceberg delta ice ord =
     (if delta > 0 then
        ord\<lparr>o_Size := o_Size ord + uint64_of delta,
            o_IcebergOrder :=
              Some (ice\<lparr>ice_ReservedRemaining := ice_ReservedRemaining ice + uint64_of delta\<rparr>)\<rparr>
      else
        (let dec = uint64_of (i64 (- delta));
             ord = ord\<lparr>o_Size := o_Size ord - dec\<rparr>
         in if ice_ReservedRemaining ice \<ge> dec then
              ord\<lparr>o_IcebergOrder :=
                    Some (ice\<lparr>ice_ReservedRemaining := ice_ReservedRemaining ice - dec\<rparr>)\<rparr>
            else
              (let diff = dec - ice_ReservedRemaining ice
               in ord\<lparr>o_Remaining :=
                        (if o_Remaining ord > diff
                         then o_Remaining ord - (dec - ice_ReservedRemaining ice) else 0),
                      o_IcebergOrder := Some (ice\<lparr>ice_ReservedRemaining := 0\<rparr>)\<rparr>)))"

definition amendSizeWithDelta :: "int64 \<Rightarrow> Order \<Rightarrow> Order" where
  "amendSizeWithDelta delta ord =
     (case o_IcebergOrder ord of
        Some ice \<Rightarrow> applyOrderAmendmentSizeIceberg delta ice ord
      | None \<Rightarrow>
          if delta > 0 then
            ord\<lparr>o_Size := o_Size ord + uint64_of delta,
                o_Remaining := o_Remaining ord + uint64_of delta\<rparr>
          else
            (let dec = uint64_of (i64 (- delta)) in
             ord\<lparr>o_Size := o_Size ord - dec,
                 o_Remaining := (if o_Remaining ord > dec then o_Remaining ord - dec else 0)\<rparr>))"

definition amendSize :: "uint64 \<Rightarrow> Order \<Rightarrow> Order" where
  "amendSize sz ord = amendSizeWithDelta (i64 (int64_of sz - int64_of (o_Size ord))) ord"

record OrderAmendment =
  oa_OrderID :: string
  oa_MarketID :: string
  oa_Price :: "Uint option"
  oa_SizeDelta :: int64
  oa_Size :: "uint64 option"
  oa_ExpiresAt :: "int64 option"
  oa_TimeInForce :: OrderTimeInForce
  oa_PeggedOffset :: "Uint option"
  oa_PeggedReference :: PeggedReference

definition OrderAmendment_Validate :: "OrderAmendment \<Rightarrow> OrderError option" where
  "OrderAmendment_Validate oa =
     (if oa_TimeInForce oa = OrderTimeInForceGTT \<and> oa_ExpiresAt oa = None
      then Some OrderErrorCannotAmendToGTTWithoutExpiryAt
      else if oa_TimeInForce oa = OrderTimeInForceGTC \<and> oa_ExpiresAt oa \<noteq> None
      then Some OrderErrorCannotHaveGTCAndExpiryAt
      else if oa_TimeInForce oa = OrderTimeInForceFOK \<or> oa_TimeInForce oa = OrderTimeInForceIOC
      then Some OrderErrorCannotAmendToFOKOrIOC
      else None)"

definition ValidatePeggedOrder :: "PeggedOrder \<Rightarrow> Order \<Rightarrow> OrderError" where
  "ValidatePeggedOrder peg ord =
     (if o_Type ord \<noteq> OrderTypeLimit then OrderErrorMustBeLimitOrder
      else if o_TimeInForce ord \<noteq> OrderTimeInForceGTT \<and> o_TimeInForce ord \<noteq> OrderTimeInForceGTC
        \<and> o_TimeInForce ord \<noteq> OrderTimeInForceGFN then OrderErrorMustBeGTTOrGTC
      else if peg_Reference peg = PeggedReferenceUnspecified then OrderErrorWithoutReferencePrice
      else if o_Side ord = SideBuy then
        (case peg_Reference peg of
           PeggedReferenceBestAsk \<Rightarrow> OrderErrorBuyCannotReferenceBestAskPrice
         | PeggedReferenceMid \<Rightarrow>
             (if peg_Offset peg = 0 then OrderErrorOffsetMustBeGreaterThanZero
              else OrderErrorUnspecified)
         | _ \<Rightarrow> OrderErrorUnspecified)
      else
        (case peg_Reference peg of
           PeggedReferenceBestBid \<Rightarrow> OrderErrorSellCannotReferenceBestBidPrice
         | PeggedReferenceMid \<Rightarrow>
             (if peg_Offset peg = 0 then OrderErrorOffsetMustBeGreaterThanZero
              else OrderErrorUnspecified)
         | _ \<Rightarrow> OrderErrorUnspecified))"

text \<open>
  \<^verbatim>\<open>ApplyOrderAmendment\<close>. The price in asset units is
  \<^verbatim>\<open>UintFromDecimal(price * priceFactor)\<close>, decimal arithmetic of a third-party package: the
  conversion for the market's price factor is the parameter \<open>toAsset\<close>.
\<close>

definition ApplyOrderAmendment ::
  "(Uint \<Rightarrow> Uint) \<Rightarrow> OrderAmendment \<Rightarrow> int64 \<Rightarrow> Order \<Rightarrow> Order \<times> OrderError option" where
  "ApplyOrderAmendment toAsset amendment updatedAtNano old =
     (let ord = old\<lparr>o_UpdatedAt := updatedAtNano, o_Version := o_Version old + 1\<rparr>;
          ord = (case oa_Price amendment of
                   None \<Rightarrow> ord
                 | Some p \<Rightarrow>
                     if o_Price old \<noteq> toAsset p
                     then ord\<lparr>o_Price := toAsset p, o_OriginalPrice := p\<rparr> else ord);
          ord = (case oa_Size amendment of None \<Rightarrow> ord | Some s \<Rightarrow> amendSize s ord);
          ord = (if oa_SizeDelta amendment \<noteq> 0
                 then amendSizeWithDelta (oa_SizeDelta amendment) ord else ord);
          ord = (if oa_TimeInForce amendment \<noteq> OrderTimeInForceUnspecified then
                   (let ord = ord\<lparr>o_TimeInForce := oa_TimeInForce amendment\<rparr> in
                    if oa_TimeInForce amendment \<noteq> OrderTimeInForceGTT
                    then ord\<lparr>o_ExpiresAt := 0\<rparr> else ord)
                 else ord);
          ord = (case oa_ExpiresAt amendment of None \<Rightarrow> ord | Some t \<Rightarrow> ord\<lparr>o_ExpiresAt := t\<rparr>)
      in case o_PeggedOrder ord of
           None \<Rightarrow> (ord, None)
         | Some peg \<Rightarrow>
             (let peg = (case oa_PeggedOffset amendment of
                           None \<Rightarrow> peg | Some off \<Rightarrow> peg\<lparr>peg_Offset := off\<rparr>);
                  peg = (if oa_PeggedReference amendment \<noteq> PeggedReferenceUnspecified
                         then peg\<lparr>peg_Reference := oa_PeggedReference amendment\<rparr> else peg);
                  ord = ord\<lparr>o_PeggedOrder := Some peg\<rparr>;
                  verr = ValidatePeggedOrder peg ord
              in (ord, if verr \<noteq> OrderErrorUnspecified then Some verr else None)))"

section \<open>Example orders\<close>

text \<open>The zero value of the Go struct, and an iceberg order below its minimum visible size.\<close>

definition zero_Order :: Order where
  "zero_Order = \<lparr>o_ID = [], o_MarketID = [], o_Party = [], o_Side = SideUnspecified, o_Price = 0,
     o_OriginalPrice = 0, o_Size = 0, o_Remaining = 0, o_TimeInForce = OrderTimeInForceUnspecified,
     o_Type = OrderTypeUnspecified, o_CreatedAt = 0, o_Status = OrderStatusUnspecified,
     o_ExpiresAt = 0, o_Reference = [], o_Reason = OrderErrorUnspecified, o_UpdatedAt = 0,
     o_Version = 0, o_BatchID = 0, o_PeggedOrder = None, o_PostOnly = False, o_ReduceOnly = False,
     o_extraRemaining = 0, o_IcebergOrder = None, o_GeneratedOffbook = False\<rparr>"

definition iceberg_example :: Order where
  "iceberg_example = zero_Order\<lparr>o_Size := 100, o_Remaining := 3, o_IcebergOrder := Some
     \<lparr>ice_ReservedRemaining = 50, ice_PeakSize = 10, ice_MinimumVisibleSize = 4\<rparr>\<rparr>"

section \<open>Iceberg peaks and amended sizes\<close>

lemma TrueRemaining_SetIcebergPeaks [simp]:
  "TrueRemaining (SetIcebergPeaks ord) = TrueRemaining ord"
  by (simp add: TrueRemaining_def SetIcebergPeaks_def Let_def split: option.splits)

lemma SetIcebergPeaks_visible:
  assumes "o_IcebergOrder ord = Some ice"
    and "o_Remaining ord \<le> ice_PeakSize ice \<or> ice_ReservedRemaining ice = 0"
    and "unat (o_Remaining ord) + unat (ice_ReservedRemaining ice) < 2 ^ 64"
  shows "o_Remaining (SetIcebergPeaks ord) = min64 (ice_PeakSize ice) (TrueRemaining ord)"
proof -
  let ?r = "o_Remaining ord" and ?p = "ice_PeakSize ice" and ?h = "ice_ReservedRemaining ice"
  have tr: "TrueRemaining ord = ?r + ?h" using assms(1) by (simp add: TrueRemaining_def)
  have un: "unat (?r + ?h) = unat ?r + unat ?h" using assms(3) by (simp add: unat_word_ariths)
  show ?thesis
  proof (cases "?r > ?p \<and> ?h = 0")
    case True
    with assms(1) tr show ?thesis
      by (auto simp: SetIcebergPeaks_def min64_def Let_def)
  next
    case False
    then have le: "?r \<le> ?p" using assms(2) by auto
    then have up: "unat (?p - ?r) = unat ?p - unat ?r" by (simp add: unat_sub)
    have "?r + min64 (?p - ?r) ?h = min64 ?p (?r + ?h)"
      using le up un by (auto simp: min64_def word_less_nat_alt word_le_nat_alt)
    with False assms(1) tr show ?thesis
      by (auto simp: SetIcebergPeaks_def Let_def)
  qed
qed

lemma SetIcebergPeaks_reserved:
  assumes "o_IcebergOrder ord = Some ice"
    and "o_Remaining ord \<le> ice_PeakSize ice \<or> ice_ReservedRemaining ice = 0"
    and "o_IcebergOrder (SetIcebergPeaks ord) = Some ice'" and "ice_ReservedRemaining ice' \<noteq> 0"
  shows "o_Remaining (SetIcebergPeaks ord) = ice_PeakSize ice \<and> ice_MinimumVisibleSize ice' = ice_MinimumVisibleSize ice"
  using assms by (auto simp: SetIcebergPeaks_def Let_def min64_def split: if_splits)

text \<open>
  C13: refreshing an iceberg order moves volume between its hidden reserve and its visible part
  without changing the total, shows exactly the smaller of the peak and the total, and leaves an
  order that needs no further refresh.
\<close>

theorem SetIcebergPeaks_peak:
  assumes "o_IcebergOrder ord = Some ice"
    and "o_Remaining ord \<le> ice_PeakSize ice \<or> ice_ReservedRemaining ice = 0"
    and "unat (o_Remaining ord) + unat (ice_ReservedRemaining ice) < 2 ^ 64"
    and "ice_MinimumVisibleSize ice \<le> ice_PeakSize ice"
  shows "TrueRemaining (SetIcebergPeaks ord) = TrueRemaining ord
    \<and> o_Remaining (SetIcebergPeaks ord) = min64 (ice_PeakSize ice) (TrueRemaining ord)
    \<and> \<not> IcebergNeedsRefresh (SetIcebergPeaks ord)"
proof (intro conjI)
  show "\<not> IcebergNeedsRefresh (SetIcebergPeaks ord)"
  proof (cases "o_IcebergOrder (SetIcebergPeaks ord)")
    case None
    then show ?thesis by (simp add: IcebergNeedsRefresh_def)
  next
    case (Some ice')
    with SetIcebergPeaks_reserved [OF assms(1,2) Some] assms(4) show ?thesis
      by (auto simp: IcebergNeedsRefresh_def)
  qed
qed (simp_all add: SetIcebergPeaks_visible [OF assms(1-3)])

lemma uint64_of_neg: "uint64_of (- d) = - uint64_of d"
  by (simp add: uint64_of_def)

theorem SetIcebergPeaks_peak_witness:
  "TrueRemaining (SetIcebergPeaks iceberg_example) = TrueRemaining iceberg_example
    \<and> o_Remaining (SetIcebergPeaks iceberg_example) = min64 10 (TrueRemaining iceberg_example)
    \<and> \<not> IcebergNeedsRefresh (SetIcebergPeaks iceberg_example)"
  using SetIcebergPeaks_peak [of iceberg_example
      "\<lparr>ice_ReservedRemaining = 50, ice_PeakSize = 10, ice_MinimumVisibleSize = 4\<rparr>"]
  by (simp add: iceberg_example_def)

text \<open>
  C14: changing the size of an order by a delta that does not take more than what remains shifts the
  remaining volume (visible and hidden) by the delta and keeps the volume already traded.
\<close>

theorem amendSizeWithDelta_traded:
  assumes "- (2 ^ 63) \<le> delta" and "- delta \<le> int (unat (TrueRemaining ord))"
    and "\<forall>ice. o_IcebergOrder ord = Some ice \<longrightarrow> unat (o_Remaining ord) + unat (ice_ReservedRemaining ice) < 2 ^ 64"
  shows "TrueRemaining (amendSizeWithDelta delta ord) = TrueRemaining ord + uint64_of delta
    \<and> o_Size (amendSizeWithDelta delta ord) - TrueRemaining (amendSizeWithDelta delta ord)
      = o_Size ord - TrueRemaining ord"
proof (cases "delta > 0")
  case True
  then show ?thesis
    by (auto simp: amendSizeWithDelta_def applyOrderAmendmentSizeIceberg_def TrueRemaining_def split: option.splits)
next
  case False
  then have dec: "unat (- uint64_of delta) = nat (- delta)" using assms(1) by (simp add: unat_uint64_of flip: uint64_of_neg)
  then have le: "unat (- uint64_of delta) \<le> unat (TrueRemaining ord)" using assms(2) by linarith
  show ?thesis
  proof (cases "o_IcebergOrder ord")
    case None
    have "o_Remaining ord \<le> - uint64_of delta \<Longrightarrow> o_Remaining ord = - uint64_of delta"
      using le None by (simp add: TrueRemaining_def word_le_nat_alt word_unat_eq_iff)
    with False None show ?thesis
      by (auto simp: amendSizeWithDelta_def TrueRemaining_def Let_def uint64_of_neg not_less)
  next
    case (Some ice)
    let ?h = "ice_ReservedRemaining ice"
    have un: "unat (o_Remaining ord + ?h) = unat (o_Remaining ord) + unat ?h"
      using assms(3) Some by (simp add: unat_word_ariths)
    have edge: "o_Remaining ord \<le> - uint64_of delta - ?h \<Longrightarrow> ?h < - uint64_of delta
      \<Longrightarrow> o_Remaining ord = - uint64_of delta - ?h"
      using le Some un
      by (simp add: TrueRemaining_def word_le_nat_alt word_less_nat_alt word_unat_eq_iff unat_sub_if')
    from False Some show ?thesis
      using edge by (auto simp: amendSizeWithDelta_def applyOrderAmendmentSizeIceberg_def TrueRemaining_def Let_def uint64_of_neg not_less not_le)
  qed
qed

theorem amendSizeWithDelta_traded_witness:
  "TrueRemaining (amendSizeWithDelta (- 52) iceberg_example)
      = TrueRemaining iceberg_example + uint64_of (- 52)
    \<and> o_Size (amendSizeWithDelta (- 52) iceberg_example)
        - TrueRemaining (amendSizeWithDelta (- 52) iceberg_example)
      = o_Size iceberg_example - TrueRemaining iceberg_example"
  by (rule amendSizeWithDelta_traded) (simp_all add: iceberg_example_def TrueRemaining_def)

end
