(* ===== verification/Price_Level.thy ===== *)
theory Price_Level
  imports Orders Complex_Main
begin

text \<open>
  The price level of the matching engine (\<^verbatim>\<open>core/matching/pricelevel.go\<close>): the orders resting
  at one price in time order, with their total volume, and their uncrossing against an aggressive
  order. The pointers that the code shares are resolved as follows. The tracked iceberg keeps the
  index of its order in the level and the index of its trade in the list of trades; the impacted
  orders are collected as indices and read from the level after the last write. Division of
  decimals belongs to a third-party package and is the parameter \<open>ddiv\<close>; values of type
  \<^verbatim>\<open>num.Decimal\<close> are rationals.
\<close>

section \<open>Data\<close>

datatype BookError =
    ErrWashTrade | ErrFOKNotFilled | ErrPriceNotFound | ErrOrder OrderError
  | ErrNotEnoughOrders | ErrOrderDoesNotExist | ErrInvalidVolume
  | ErrNoBestBid | ErrNoBestAsk | ErrNotCrossed | ErrMsg string

record PriceLevel =
  pl_price :: Uint
  pl_orders :: "Order list"
  pl_volume :: uint64

record trackIceberg =
  ti_order :: Order
  ti_trade :: "nat option"
  ti_idx :: nat

definition reservedRemaining :: "trackIceberg \<Rightarrow> uint64" where
  "reservedRemaining t =
     (case o_IcebergOrder (ti_order t) of None \<Rightarrow> 0 | Some ice \<Rightarrow> ice_ReservedRemaining ice)"

section \<open>Adding and removing orders\<close>

definition NewPriceLevel :: "Uint \<Rightarrow> PriceLevel" where
  "NewPriceLevel price = \<lparr>pl_price = price, pl_orders = [], pl_volume = 0\<rparr>"

definition reduceVolume :: "uint64 \<Rightarrow> PriceLevel \<Rightarrow> PriceLevel" where
  "reduceVolume reduceBy l = l\<lparr>pl_volume := pl_volume l - reduceBy\<rparr>"

definition getOrdersByParty :: "string \<Rightarrow> PriceLevel \<Rightarrow> Order list" where
  "getOrdersByParty partyID l = filter (\<lambda>ord. o_Party ord = partyID) (pl_orders l)"

definition pl_addOrder :: "Order \<Rightarrow> PriceLevel \<Rightarrow> PriceLevel" where
  "pl_addOrder ord l =
     l\<lparr>pl_orders := pl_orders l @ [ord], pl_volume := pl_volume l + TrueRemaining ord\<rparr>"

text \<open>An index out of range panics, as the slice access does.\<close>

definition pl_removeOrder :: "nat \<Rightarrow> PriceLevel \<Rightarrow> (string, PriceLevel) go" where
  "pl_removeOrder index l =
     (if index < length (pl_orders l) then
        Ret (l\<lparr>pl_volume := pl_volume l - TrueRemaining (pl_orders l ! index),
               pl_orders := remove_nth index (pl_orders l)\<rparr>)
      else Panic ''index out of range'')"

section \<open>Trades\<close>

definition getVolumeAllocation :: "Order \<Rightarrow> Order \<Rightarrow> uint64" where
  "getVolumeAllocation agg pass = min64 (o_Remaining agg) (o_Remaining pass)"

definition newTrade :: "Order \<Rightarrow> Order \<Rightarrow> uint64 \<Rightarrow> (string, Trade) go" where
  "newTrade agg pass sz =
     (let buyer = (if o_Side agg = SideBuy then agg else pass);
          seller = (if o_Side agg = SideBuy then pass else agg)
      in if o_Side agg = o_Side pass then Panic ''agg.side == pass.side''
         else Ret \<lparr>t_ID = [], t_MarketID = o_MarketID agg, t_Price = o_Price pass,
           t_MarketPrice = o_OriginalPrice pass, t_Size = sz, t_Buyer = o_Party buyer,
           t_Seller = o_Party seller, t_Aggressor = o_Side agg, t_BuyOrder = [], t_SellOrder = [],
           t_Timestamp = o_CreatedAt agg, t_Type = TradeTypeDefault,
           t_BuyerAuctionBatch = 0, t_SellerAuctionBatch = 0\<rparr>)"

text \<open>The order identifiers that both uncrossing loops write into a fresh trade.\<close>

definition setTradeOrders :: "Order \<Rightarrow> Order \<Rightarrow> Trade \<Rightarrow> Trade" where
  "setTradeOrders agg pass trade =
     (if o_Side agg = SideBuy
      then trade\<lparr>t_SellOrder := o_ID pass, t_BuyOrder := o_ID agg\<rparr>
      else trade\<lparr>t_SellOrder := o_ID agg, t_BuyOrder := o_ID pass\<rparr>)"

section \<open>Uncrossing the hidden volume of iceberg orders\<close>

text \<open>
  \<^verbatim>\<open>uncrossIcebergs\<close> splits the crossed volume over the hidden reserves: the pro-rata share of
  each reserve rounded down, then the rounding crumbs to the earliest reserves with room.
\<close>

definition dec_IntPart :: "rat \<Rightarrow> int64" where
  "dec_IntPart d = i64 (if d < 0 then \<lceil>d\<rceil> else \<lfloor>d\<rfloor>)"

definition icebergShare :: "(rat \<Rightarrow> rat \<Rightarrow> rat) \<Rightarrow> uint64 \<Rightarrow> uint64 \<Rightarrow> uint64 \<Rightarrow> uint64" where
  "icebergShare ddiv totalCrossed totalReserved rr =
     uint64_of (dec_IntPart
       (ddiv (of_int (int64_of rr) * of_int (int64_of totalCrossed))
             (of_int (int64_of totalReserved))))"

fun distributeCrumbs :: "uint64 \<Rightarrow> (uint64 \<times> uint64) list \<Rightarrow> uint64 list \<times> uint64" where
  "distributeCrumbs rem [] = ([], rem)"
| "distributeCrumbs rem ((rr, extra) # rest) =
     (let dd = min64 (rr - extra) rem; rem' = rem - dd in
      if rem' = 0 then ((extra + dd) # map snd rest, 0)
      else
        (let (es, r) = distributeCrumbs rem' rest in ((extra + dd) # es, r)))"

text \<open>
  The last loop: every tracked iceberg trades its extra volume, in its first trade or in a fresh
  one; the passive orders and the volume of the level change only when the uncrossing is real.
\<close>

record icebergState =
  is_agg :: Order
  is_volume :: uint64
  is_trades :: "Trade list"
  is_newTrades :: "Trade list"
  is_newImpacted :: "nat list"
  is_tracked :: "trackIceberg list"

definition takeReserve :: "uint64 \<Rightarrow> Order \<Rightarrow> Order" where
  "takeReserve extra ord =
     (case o_IcebergOrder ord of
        None \<Rightarrow> ord
      | Some ice \<Rightarrow>
          ord\<lparr>o_IcebergOrder :=
            Some (ice\<lparr>ice_ReservedRemaining := ice_ReservedRemaining ice - extra\<rparr>)\<rparr>)"

fun icebergTrades ::
  "bool \<Rightarrow> (trackIceberg \<times> uint64) list \<Rightarrow> icebergState \<Rightarrow> (string, icebergState) go" where
  "icebergTrades fake [] s = Ret s"
| "icebergTrades fake ((t, extra) # rest) s =
     (let agg = (is_agg s)\<lparr>o_Remaining := o_Remaining (is_agg s) - extra\<rparr>;
          t' = (if fake then t else t\<lparr>ti_order := takeReserve extra (ti_order t)\<rparr>);
          s = s\<lparr>is_agg := agg, is_tracked := is_tracked s @ [t'],
                is_volume := (if fake then is_volume s else is_volume s - extra)\<rparr>
      in case ti_trade t of
           None \<Rightarrow>
             gbind (newTrade agg (ti_order t) 0) (\<lambda>trade.
               icebergTrades fake rest
                 (s\<lparr>is_newTrades := is_newTrades s @ [trade\<lparr>t_Size := t_Size trade + extra\<rparr>],
                    is_newImpacted := is_newImpacted s @ [ti_idx t]\<rparr>))
         | Some k \<Rightarrow>
             icebergTrades fake rest
               (s\<lparr>is_trades := (is_trades s)[k := (is_trades s ! k)
                    \<lparr>t_Size := t_Size (is_trades s ! k) + extra\<rparr>]\<rparr>))"

definition icebergExtra ::
  "(rat \<Rightarrow> rat \<Rightarrow> rat) \<Rightarrow> uint64 \<Rightarrow> uint64 \<Rightarrow> uint64 list \<Rightarrow> (string, uint64 list) go" where
  "icebergExtra ddiv totalCrossed totalReserved reserves =
     (let extraTraded = map (icebergShare ddiv totalCrossed totalReserved) reserves;
          rem = totalCrossed - sum_list extraTraded
      in if rem > 0 then
           (let (extraTraded', rem') = distributeCrumbs rem (zip reserves extraTraded)
            in if rem' \<noteq> 0
               then Panic ''unable to distribute rounding crumbs between iceberg orders''
               else Ret extraTraded')
         else Ret extraTraded)"

definition uncrossIcebergs ::
  "(rat \<Rightarrow> rat \<Rightarrow> rat) \<Rightarrow> Order \<Rightarrow> trackIceberg list \<Rightarrow> bool \<Rightarrow> uint64 \<Rightarrow> Trade list
    \<Rightarrow> (string, icebergState) go" where
  "uncrossIcebergs ddiv agg tracked fake vol trades =
     (let totalReserved = sum_list (map reservedRemaining tracked);
          s = \<lparr>is_agg = agg, is_volume = vol, is_trades = trades, is_newTrades = [],
               is_newImpacted = [], is_tracked = []\<rparr>
      in if totalReserved = 0 then Ret (s\<lparr>is_tracked := tracked\<rparr>)
         else
           (let totalCrossed = min64 (o_Remaining agg) totalReserved
            in gbind (icebergExtra ddiv totalCrossed totalReserved
                        (map reservedRemaining tracked)) (\<lambda>extraTraded.
                 icebergTrades fake (zip tracked extraTraded) s)))"

section \<open>Uncrossing a level\<close>

text \<open>
  The loop of \<^verbatim>\<open>uncross\<close> over the orders of the level: \<open>i\<close> is the index of the first order of
  the list, \<open>k\<close> the number of trades so far. It returns the orders with their reduced remaining
  volume, the trades, the indices of the impacted and of the emptied orders and the tracked
  icebergs.
\<close>

record uncrossState =
  uo_agg :: Order
  uo_volume :: uint64
  uo_orders :: "Order list"
  uo_trades :: "Trade list"
  uo_impacted :: "nat list"
  uo_icebergs :: "trackIceberg list"
  uo_toRemove :: "nat list"
  uo_err :: "BookError option"

definition hiddenOnly :: "Order \<Rightarrow> bool" where
  "hiddenOnly ord \<longleftrightarrow>
     (case o_IcebergOrder ord of
        None \<Rightarrow> False
      | Some ice \<Rightarrow> o_Remaining ord = 0 \<and> ice_ReservedRemaining ice \<noteq> 0)"

definition hasReserve :: "Order \<Rightarrow> bool" where
  "hasReserve ord \<longleftrightarrow>
     (case o_IcebergOrder ord of None \<Rightarrow> False | Some ice \<Rightarrow> ice_ReservedRemaining ice > 0)"

fun uncrossOrders ::
  "bool \<Rightarrow> Order \<Rightarrow> uint64 \<Rightarrow> nat \<Rightarrow> nat \<Rightarrow> Order list \<Rightarrow> (string, uncrossState) go" where
  "uncrossOrders checkWashTrades agg vol i k [] =
     Ret \<lparr>uo_agg = agg, uo_volume = vol, uo_orders = [], uo_trades = [], uo_impacted = [],
          uo_icebergs = [], uo_toRemove = [], uo_err = None\<rparr>"
| "uncrossOrders checkWashTrades agg vol i k (ord # rest) =
     (if checkWashTrades \<and> o_Party ord = o_Party agg then
        Ret \<lparr>uo_agg = agg, uo_volume = vol, uo_orders = ord # rest, uo_trades = [],
             uo_impacted = [], uo_icebergs = [], uo_toRemove = [], uo_err = Some ErrWashTrade\<rparr>
      else
        (let sz = getVolumeAllocation agg ord in
         if sz = 0 then
           (if hiddenOnly ord then
              gbind (uncrossOrders checkWashTrades agg vol (Suc i) k rest) (\<lambda>u.
                Ret (u\<lparr>uo_orders := ord # uo_orders u,
                       uo_icebergs := \<lparr>ti_order = ord, ti_trade = None, ti_idx = i\<rparr>
                         # uo_icebergs u\<rparr>))
            else Panic ''Trade.size > order.remaining'')
         else
           gbind (newTrade agg ord sz) (\<lambda>tr.
             let trade = setTradeOrders agg ord tr;
                 agg' = agg\<lparr>o_Remaining := o_Remaining agg - sz\<rparr>;
                 ord' = ord\<lparr>o_Remaining := o_Remaining ord - sz\<rparr>;
                 vol' = vol - sz;
                 rm = (if TrueRemaining ord' = 0 then [i] else []);
                 ice = (if hasReserve ord'
                        then [\<lparr>ti_order = ord', ti_trade = Some k, ti_idx = i\<rparr>] else [])
             in if o_Remaining agg' = 0 then
                  Ret \<lparr>uo_agg = agg', uo_volume = vol', uo_orders = ord' # rest,
                       uo_trades = [trade], uo_impacted = [i], uo_icebergs = ice,
                       uo_toRemove = rm, uo_err = None\<rparr>
                else
                  gbind (uncrossOrders checkWashTrades agg' vol' (Suc i) (Suc k) rest) (\<lambda>u.
                    Ret (u\<lparr>uo_orders := ord' # uo_orders u, uo_trades := trade # uo_trades u,
                           uo_impacted := i # uo_impacted u, uo_icebergs := ice @ uo_icebergs u,
                           uo_toRemove := rm @ uo_toRemove u\<rparr>)))))"

text \<open>The removal loop: each removed index shifts the following ones by one.\<close>

fun removeAll :: "nat \<Rightarrow> nat list \<Rightarrow> 'a list \<Rightarrow> 'a list" where
  "removeAll removed [] xs = xs"
| "removeAll removed (idx # toRemove) xs =
     removeAll (Suc removed) toRemove (remove_nth (idx - removed) xs)"

fun writeTracked :: "trackIceberg list \<Rightarrow> Order list \<Rightarrow> Order list" where
  "writeTracked [] orders = orders"
| "writeTracked (t # ts) orders = writeTracked ts (orders[ti_idx t := ti_order t])"

record uncrossResult =
  ur_level :: PriceLevel
  ur_agg :: Order
  ur_filled :: bool
  ur_trades :: "Trade list"
  ur_impacted :: "Order list"
  ur_err :: "BookError option"

definition pl_uncross ::
  "(rat \<Rightarrow> rat \<Rightarrow> rat) \<Rightarrow> Order \<Rightarrow> bool \<Rightarrow> PriceLevel \<Rightarrow> (string, uncrossResult) go" where
  "pl_uncross ddiv agg checkWashTrades l =
     (if pl_orders l = [] then
        Ret \<lparr>ur_level = l, ur_agg = agg, ur_filled = False, ur_trades = [], ur_impacted = [],
             ur_err = None\<rparr>
      else
        gbind (uncrossOrders checkWashTrades agg (pl_volume l) 0 0 (pl_orders l)) (\<lambda>u.
          if o_Remaining (uo_agg u) > 0 \<and> uo_icebergs u \<noteq> [] then
            gbind (uncrossIcebergs ddiv (uo_agg u) (uo_icebergs u) False (uo_volume u)
                     (uo_trades u)) (\<lambda>s.
              let orders = writeTracked (is_tracked s) (uo_orders u);
                  depleted = map ti_idx (filter (\<lambda>t. TrueRemaining (ti_order t) = 0) (is_tracked s));
                  toRemove = sort (uo_toRemove u @ depleted)
              in Ret \<lparr>ur_level = l\<lparr>pl_orders := removeAll 0 toRemove orders,
                                    pl_volume := is_volume s\<rparr>,
                      ur_agg = is_agg s, ur_filled = (o_Remaining (is_agg s) = 0),
                      ur_trades = is_trades s @ is_newTrades s,
                      ur_impacted = map (\<lambda>j. orders ! j) (uo_impacted u @ is_newImpacted s),
                      ur_err = uo_err u\<rparr>)
          else
            Ret \<lparr>ur_level = l\<lparr>pl_orders := removeAll 0 (uo_toRemove u) (uo_orders u),
                               pl_volume := uo_volume u\<rparr>,
                 ur_agg = uo_agg u, ur_filled = (o_Remaining (uo_agg u) = 0),
                 ur_trades = uo_trades u,
                 ur_impacted = map (\<lambda>j. uo_orders u ! j) (uo_impacted u),
                 ur_err = uo_err u\<rparr>))"

section \<open>The hypothetical uncrossing\<close>

text \<open>
  \<^verbatim>\<open>fakeUncross\<close> runs the same loop on a copy of the aggressive order and leaves the level as it
  is; a wash trade returns at once, before the hidden volume is looked at.
\<close>

record fakeState =
  fs_agg :: Order
  fs_trades :: "Trade list"
  fs_icebergs :: "trackIceberg list"
  fs_err :: "BookError option"

fun fakeUncrossOrders ::
  "bool \<Rightarrow> Order \<Rightarrow> nat \<Rightarrow> nat \<Rightarrow> Order list \<Rightarrow> (string, fakeState) go" where
  "fakeUncrossOrders checkWashTrades agg i k [] =
     Ret \<lparr>fs_agg = agg, fs_trades = [], fs_icebergs = [], fs_err = None\<rparr>"
| "fakeUncrossOrders checkWashTrades agg i k (ord # rest) =
     (if checkWashTrades \<and> o_Party ord = o_Party agg then
        Ret \<lparr>fs_agg = agg, fs_trades = [], fs_icebergs = [], fs_err = Some ErrWashTrade\<rparr>
      else
        (let sz = getVolumeAllocation agg ord in
         if sz = 0 then
           (if hiddenOnly ord then
              gbind (fakeUncrossOrders checkWashTrades agg (Suc i) k rest) (\<lambda>u.
                Ret (u\<lparr>fs_icebergs := \<lparr>ti_order = ord, ti_trade = None, ti_idx = i\<rparr>
                         # fs_icebergs u\<rparr>))
            else Panic ''Trade.size > order.remaining'')
         else
           gbind (newTrade agg ord sz) (\<lambda>tr.
             let trade = setTradeOrders agg ord tr;
                 agg' = agg\<lparr>o_Remaining := o_Remaining agg - sz\<rparr>;
                 ice = (if hasReserve ord
                        then [\<lparr>ti_order = ord, ti_trade = Some k, ti_idx = i\<rparr>] else [])
             in if o_Remaining agg' = 0 then
                  Ret \<lparr>fs_agg = agg', fs_trades = [trade], fs_icebergs = ice, fs_err = None\<rparr>
                else
                  gbind (fakeUncrossOrders checkWashTrades agg' (Suc i) (Suc k) rest) (\<lambda>u.
                    Ret (u\<lparr>fs_trades := trade # fs_trades u,
                           fs_icebergs := ice @ fs_icebergs u\<rparr>)))))"

definition pl_fakeUncross ::
  "(rat \<Rightarrow> rat \<Rightarrow> rat) \<Rightarrow> Order \<Rightarrow> bool \<Rightarrow> PriceLevel
    \<Rightarrow> (string, Order \<times> Trade list \<times> BookError option) go" where
  "pl_fakeUncross ddiv agg checkWashTrades l =
     (if pl_orders l = [] then Ret (agg, [], None)
      else
        gbind (fakeUncrossOrders checkWashTrades agg 0 0 (pl_orders l)) (\<lambda>u.
          if fs_err u \<noteq> None then Ret (fs_agg u, fs_trades u, fs_err u)
          else if o_Remaining (fs_agg u) \<noteq> 0 \<and> fs_icebergs u \<noteq> [] then
            gbind (uncrossIcebergs ddiv (fs_agg u) (fs_icebergs u) True (pl_volume l)
                     (fs_trades u)) (\<lambda>s.
              Ret (is_agg s, is_trades s @ is_newTrades s, fs_err u))
          else Ret (fs_agg u, fs_trades u, fs_err u)))"

end
