(* ===== verification/Book_Side.thy ===== *)
theory Book_Side
  imports Price_Level
begin

text \<open>
  One side of the order book (\<^verbatim>\<open>core/matching/side.go\<close>): its price levels, the best price last, and
  the uncrossing of an aggressive order against it. The buy side keeps ascending and the sell side
  descending prices. A loop index \<open>idx\<close> that runs down to \<open>-1\<close> in the code is the natural number
  \<open>idx + 1\<close> here.

  The automated market makers reach the side through the interface \<^verbatim>\<open>OffbookSource\<close>. It is a
  parameter of the operations that use it: a record of functions over a state \<open>'s\<close> that is passed
  along, or \<open>None\<close> where the field is nil.
\<close>

section \<open>Data\<close>

record OrderBookSide =
  s_side :: Side
  s_levels :: "PriceLevel list"

record OrderbookShapeResult =
  shp_AmmParty :: string
  shp_Buys :: "Order list"
  shp_Sells :: "Order list"
  shp_Approx :: bool

record 's OffbookSource =
  ob_SubmitOrder :: "Order \<Rightarrow> Uint option \<Rightarrow> Uint option \<Rightarrow> 's \<Rightarrow> Order list \<times> 's"
  ob_NotifyFinished :: "'s \<Rightarrow> 's"
  ob_BestPricesAndVolumes :: "'s \<Rightarrow> Uint option \<times> uint64 \<times> Uint option \<times> uint64"
  ob_OrderbookShape :: "Uint \<Rightarrow> Uint \<Rightarrow> string option \<Rightarrow> 's \<Rightarrow> OrderbookShapeResult list"

type_synonym 's offbook = "'s OffbookSource option"

definition s_cleanup :: "OrderBookSide \<Rightarrow> OrderBookSide" where
  "s_cleanup s = s\<lparr>s_levels := []\<rparr>"

section \<open>Finding a level\<close>

text \<open>The comparison that the binary searches use: the level is at the price or past it.\<close>

definition atOrPast :: "Side \<Rightarrow> Uint \<Rightarrow> Uint \<Rightarrow> bool" where
  "atOrPast sd levelPrice price = (if sd = SideBuy then levelPrice \<ge> price else levelPrice \<le> price)"

definition searchLevel :: "Side \<Rightarrow> PriceLevel list \<Rightarrow> Uint \<Rightarrow> nat" where
  "searchLevel sd levels price =
     sort_Search (length levels) (\<lambda>i. atOrPast sd (pl_price (levels ! i)) price)"

definition getPriceLevelIfExists :: "Uint \<Rightarrow> OrderBookSide \<Rightarrow> PriceLevel option" where
  "getPriceLevelIfExists price s =
     (let i = searchLevel (s_side s) (s_levels s) price in
      if i < length (s_levels s) \<and> pl_price (s_levels s ! i) = price then Some (s_levels s ! i)
      else None)"

text \<open>\<^verbatim>\<open>getPriceLevel\<close> returns the level through a pointer; here, its index.\<close>

definition getPriceLevel :: "Uint \<Rightarrow> OrderBookSide \<Rightarrow> nat \<times> OrderBookSide" where
  "getPriceLevel price s =
     (let i = searchLevel (s_side s) (s_levels s) price in
      if i < length (s_levels s) \<and> pl_price (s_levels s ! i) = price then (i, s)
      else (i, s\<lparr>s_levels := insert_nth i (NewPriceLevel price) (s_levels s)\<rparr>))"

definition s_addOrder :: "Order \<Rightarrow> OrderBookSide \<Rightarrow> OrderBookSide" where
  "s_addOrder ord s =
     (let (i, s') = getPriceLevel (o_Price ord) s
      in s'\<lparr>s_levels := (s_levels s')[i := pl_addOrder ord (s_levels s' ! i)]\<rparr>)"

definition GetVolume :: "Uint \<Rightarrow> OrderBookSide \<Rightarrow> uint64 \<times> BookError option" where
  "GetVolume price s =
     (case getPriceLevelIfExists price s of
        None \<Rightarrow> (0, Some ErrPriceNotFound)
      | Some l \<Rightarrow> (pl_volume l, None))"

text \<open>\<^verbatim>\<open>getLevelsForPrice\<close> collects from the best level on, until a price does not trade.\<close>

fun levelsUntil :: "(Uint \<Rightarrow> bool) \<Rightarrow> PriceLevel list \<Rightarrow> PriceLevel list" where
  "levelsUntil cmpF [] = []"
| "levelsUntil cmpF (l # ls) = (if cmpF (pl_price l) then [] else l # levelsUntil cmpF ls)"

definition getLevelsForPrice :: "Uint \<Rightarrow> OrderBookSide \<Rightarrow> PriceLevel list" where
  "getLevelsForPrice price s =
     (let cmpF = (if s_side s = SideSell then (\<lambda>p. price < p) else (\<lambda>p. price > p))
      in levelsUntil cmpF (rev (s_levels s)))"

section \<open>The top of the side\<close>

definition BestPriceAndVolume :: "OrderBookSide \<Rightarrow> Uint \<times> uint64 \<times> BookError option" where
  "BestPriceAndVolume s =
     (if s_levels s = [] then (0, 0, Some (ErrMsg ''no orders on the book''))
      else (pl_price (last (s_levels s)), pl_volume (last (s_levels s)), None))"

definition staticOrders :: "PriceLevel \<Rightarrow> Order list" where
  "staticOrders l = filter (\<lambda>ord. o_PeggedOrder ord = None) (pl_orders l)"

fun staticPrice :: "PriceLevel list \<Rightarrow> Uint \<times> BookError option" where
  "staticPrice [] = (0, Some (ErrMsg ''no non pegged orders found on the book''))"
| "staticPrice (l # ls) = (if staticOrders l \<noteq> [] then (pl_price l, None) else staticPrice ls)"

definition BestStaticPrice :: "OrderBookSide \<Rightarrow> Uint \<times> BookError option" where
  "BestStaticPrice s =
     (if s_levels s = [] then (0, Some (ErrMsg ''no orders on the book''))
      else staticPrice (rev (s_levels s)))"

text \<open>
  The volume runs over the levels until a positive best price is found: a level at price zero
  with static orders adds its volume without ending the search.
\<close>

fun staticPriceAndVolume :: "Uint \<Rightarrow> uint64 \<Rightarrow> PriceLevel list \<Rightarrow> Uint \<times> uint64 \<times> BookError option" where
  "staticPriceAndVolume bestPrice bestVolume [] =
     (0, 0, Some (ErrMsg ''no non pegged orders found on the book''))"
| "staticPriceAndVolume bestPrice bestVolume (l # ls) =
     (let bestPrice' = (if staticOrders l \<noteq> [] then pl_price l else bestPrice);
          bestVolume' = bestVolume + sum_list (map o_Remaining (staticOrders l))
      in if bestPrice' > 0 then (bestPrice', bestVolume', None)
         else staticPriceAndVolume bestPrice' bestVolume' ls)"

definition BestStaticPriceAndVolume :: "OrderBookSide \<Rightarrow> Uint \<times> uint64 \<times> BookError option" where
  "BestStaticPriceAndVolume s =
     (if s_levels s = [] then (0, 0, Some (ErrMsg ''no orders on the book''))
      else staticPriceAndVolume 0 0 (rev (s_levels s)))"

definition getOrdersToCancel :: "bool \<Rightarrow> OrderBookSide \<Rightarrow> Order list" where
  "getOrdersToCancel auction s =
     filter (\<lambda>ord. o_TimeInForce ord = OrderTimeInForceGFA \<and> \<not> auction
                  \<or> o_TimeInForce ord = OrderTimeInForceGFN \<and> auction)
       (concat (map pl_orders (s_levels s)))"

definition getOrderCount :: "OrderBookSide \<Rightarrow> int64" where
  "getOrderCount s = fold (\<lambda>l n. i64 (n + int (length (pl_orders l)))) (s_levels s) 0"

definition getTotalVolume :: "OrderBookSide \<Rightarrow> int64" where
  "getTotalVolume s = fold (\<lambda>l n. i64 (n + int64_of (pl_volume l))) (s_levels s) 0"

section \<open>Amending in place\<close>

text \<open>
  Every amendment answers with the change of volume; the level and the order are given by index.
  An iceberg order is amended by an order that has iceberg fields too: without them the code
  dereferences a nil pointer, after the new order has been stored.
\<close>

definition amendIcebergOrder ::
  "Order \<Rightarrow> Order \<Rightarrow> nat \<Rightarrow> nat \<Rightarrow> OrderBookSide
    \<Rightarrow> (string, int64 \<times> BookError option \<times> OrderBookSide) go" where
  "amendIcebergOrder amend old i j s =
     (if o_Remaining amend > o_Remaining old
      then Ret (0, Some (ErrOrder OrderErrorAmendFailure), s)
      else
        (let l = (s_levels s ! i)\<lparr>pl_orders := (pl_orders (s_levels s ! i))[j := amend]\<rparr>;
             put = (\<lambda>l'. s\<lparr>s_levels := (s_levels s)[i := l']\<rparr>)
         in case (o_IcebergOrder old, o_IcebergOrder amend) of
              (Some oldIce, Some amendIce) \<Rightarrow>
                (let oldReserved = ice_ReservedRemaining oldIce;
                     amendReserved = ice_ReservedRemaining amendIce
                 in if amendReserved > oldReserved then
                      (let inc = amendReserved - oldReserved
                       in Ret (int64_of inc, None, put (l\<lparr>pl_volume := pl_volume l + inc\<rparr>)))
                    else if amendReserved < oldReserved then
                      (let dec = (o_Remaining old - o_Remaining amend) + (oldReserved - amendReserved)
                       in Ret (i64 (- int64_of dec), None, put (reduceVolume dec l)))
                    else if o_Remaining old < o_Remaining amend
                    then Panic ''we should not be increasing iceberg visble size in-place''
                    else Ret (i64 (- int64_of (o_Remaining old - o_Remaining amend)), None, put l))
            | _ \<Rightarrow> Panic ''nil pointer dereference''))"

definition s_amendOrder ::
  "Order \<Rightarrow> OrderBookSide \<Rightarrow> (string, int64 \<times> BookError option \<times> OrderBookSide) go" where
  "s_amendOrder orderAmend s =
     (case find_index (\<lambda>l. pl_price l = o_Price orderAmend) (s_levels s) of
        None \<Rightarrow> Ret (0, Some (ErrOrder OrderErrorNotFound), s)
      | Some i \<Rightarrow>
         (case find_index (\<lambda>ord. o_ID ord = o_ID orderAmend) (pl_orders (s_levels s ! i)) of
            None \<Rightarrow> Ret (0, Some (ErrOrder OrderErrorNotFound), s)
          | Some j \<Rightarrow>
             (let oldOrder = pl_orders (s_levels s ! i) ! j in
              if o_Party oldOrder \<noteq> o_Party orderAmend
              then Ret (0, Some (ErrOrder OrderErrorAmendFailure), s)
              else if o_Reference oldOrder \<noteq> o_Reference orderAmend
              then Ret (0, Some (ErrOrder OrderErrorAmendFailure), s)
              else if o_IcebergOrder oldOrder \<noteq> None
              then amendIcebergOrder orderAmend oldOrder i j s
              else if o_Size oldOrder < o_Size orderAmend \<and> o_Remaining oldOrder < o_Size orderAmend
              then Ret (0, Some (ErrOrder OrderErrorAmendFailure), s)
              else
                (let reduceBy = o_Remaining oldOrder - o_Remaining orderAmend;
                     l = s_levels s ! i
                 in Ret (i64 (- int64_of reduceBy), None,
                      s\<lparr>s_levels := (s_levels s)[i :=
                        reduceVolume reduceBy
                          (l\<lparr>pl_orders := (pl_orders l)[j := orderAmend]\<rparr>)]\<rparr>)))))"

section \<open>Extracting and removing orders\<close>

text \<open>
  \<^verbatim>\<open>ExtractOrders\<close>: the inner loop over the orders of a level returns the extracted orders and the
  volume reached; an order that does not fit panics.
\<close>

fun extractFromLevel ::
  "(Uint \<Rightarrow> bool) \<Rightarrow> uint64 \<Rightarrow> uint64 \<Rightarrow> Order list \<Rightarrow> (string, Order list \<times> uint64) go" where
  "extractFromLevel checkPrice volume totalVolume [] = Ret ([], totalVolume)"
| "extractFromLevel checkPrice volume totalVolume (ord # ords) =
     (if checkPrice (o_Price ord) \<and> totalVolume + TrueRemaining ord \<le> volume then
        (let totalVolume' = totalVolume + TrueRemaining ord in
         if totalVolume' = volume then Ret ([ord], totalVolume')
         else
           gbind (extractFromLevel checkPrice volume totalVolume' ords) (\<lambda>(es, t).
             Ret (ord # es, t)))
      else Panic ''Failed to extract orders as not enough volume within price limits'')"

fun removeFirst :: "nat \<Rightarrow> PriceLevel \<Rightarrow> (string, PriceLevel) go" where
  "removeFirst 0 l = Ret l"
| "removeFirst (Suc n) l = gbind (pl_removeOrder 0 l) (removeFirst n)"

fun extractLevels ::
  "(Uint \<Rightarrow> bool) \<Rightarrow> uint64 \<Rightarrow> bool \<Rightarrow> nat \<Rightarrow> uint64 \<Rightarrow> PriceLevel list
    \<Rightarrow> (string, Order list \<times> uint64 \<times> PriceLevel list) go" where
  "extractLevels checkPrice volume removeOrders 0 totalVolume levels = Ret ([], totalVolume, levels)"
| "extractLevels checkPrice volume removeOrders (Suc i) totalVolume levels =
     gbind (extractFromLevel checkPrice volume totalVolume (pl_orders (levels ! i))) (\<lambda>(es, t).
       gbind (if removeOrders then
                gbind (removeFirst (length es) (levels ! i)) (\<lambda>l.
                  Ret (if pl_orders l = [] then butlast (levels[i := l]) else levels[i := l]))
              else Ret levels) (\<lambda>levels'.
         if t = volume then Ret (es, t, levels')
         else
           gbind (extractLevels checkPrice volume removeOrders i t levels') (\<lambda>(es', t', levels'').
             Ret (es @ es', t', levels''))))"

definition ExtractOrders ::
  "Uint \<Rightarrow> uint64 \<Rightarrow> bool \<Rightarrow> OrderBookSide \<Rightarrow> (string, Order list \<times> OrderBookSide) go" where
  "ExtractOrders price volume removeOrders s =
     (if volume = 0 then Ret ([], s)
      else
        (let checkPrice = (if s_side s = SideBuy then (\<lambda>p. p \<ge> price) else (\<lambda>p. p \<le> price))
         in gbind (extractLevels checkPrice volume removeOrders (length (s_levels s)) 0 (s_levels s))
              (\<lambda>(es, t, levels).
                if t \<noteq> volume then Panic ''Failed to extract orders as not enough volume on the book''
                else Ret (es, s\<lparr>s_levels := levels\<rparr>))))"

definition RemoveOrder ::
  "Order \<Rightarrow> OrderBookSide \<Rightarrow> (string, (BookError + Order) \<times> OrderBookSide) go" where
  "RemoveOrder ord s =
     (let i = searchLevel (o_Side ord) (s_levels s) (o_Price ord) in
      if i \<ge> length (s_levels s) then Ret (Inl (ErrOrder OrderErrorNotFound), s)
      else
        (case find_index (\<lambda>x. o_ID x = o_ID ord) (pl_orders (s_levels s ! i)) of
           None \<Rightarrow> Ret (Inl (ErrOrder OrderErrorNotFound), s)
         | Some j \<Rightarrow>
             gbind (pl_removeOrder j (s_levels s ! i)) (\<lambda>l.
               Ret (Inr (pl_orders (s_levels s ! i) ! j),
                    s\<lparr>s_levels := (if pl_orders l = [] then remove_nth i (s_levels s)
                                  else (s_levels s)[i := l])\<rparr>))))"

section \<open>Volume of the off-book source\<close>

definition betweenLevels :: "PriceLevel list \<Rightarrow> nat \<Rightarrow> Uint \<Rightarrow> Uint option \<times> Uint option" where
  "betweenLevels levels idx lastPrice =
     (if levels = [] then (None, Some lastPrice)
      else if idx = length levels then (None, Some (pl_price (levels ! (idx - 1))))
      else if idx = 0 then (Some (pl_price (levels ! 0)), Some lastPrice)
      else (Some (pl_price (levels ! idx)), Some (pl_price (levels ! (idx - 1)))))"

definition uncrossFinished :: "'s offbook \<Rightarrow> 's \<Rightarrow> 's" where
  "uncrossFinished ob st = (case ob of None \<Rightarrow> st | Some src \<Rightarrow> ob_NotifyFinished src st)"

fun offbookTrades :: "bool \<Rightarrow> Order \<Rightarrow> Order list \<Rightarrow> (string, Order \<times> Trade list \<times> Order list) go" where
  "offbookTrades fake agg [] = Ret (agg, [], [])"
| "offbookTrades fake agg (ord # ords) =
     (let sz = min64 (o_Remaining agg) (o_Remaining ord) in
      gbind (newTrade agg ord sz) (\<lambda>trade.
        gbind (offbookTrades fake (agg\<lparr>o_Remaining := o_Remaining agg - sz\<rparr>) ords)
          (\<lambda>(agg', trades, ords').
            Ret (agg', trade # trades,
                 (if fake then ord else ord\<lparr>o_Remaining := o_Remaining ord - sz\<rparr>) # ords'))))"

definition uncrossOffbook ::
  "'s offbook \<Rightarrow> PriceLevel list \<Rightarrow> nat \<Rightarrow> bool \<Rightarrow> Order \<Rightarrow> 's
    \<Rightarrow> (string, Order \<times> Trade list \<times> Order list \<times> 's) go" where
  "uncrossOffbook ob levels idx fake agg st =
     (case ob of
        None \<Rightarrow> Ret (agg, [], [], st)
      | Some src \<Rightarrow>
         (let (inner, outer) = betweenLevels levels idx (o_Price agg);
              (orders, st') = ob_SubmitOrder src agg inner outer st
          in gbind (offbookTrades fake agg orders) (\<lambda>(agg', trades, orders').
               Ret (agg', trades, orders', st'))))"

section \<open>The fill-or-kill check\<close>

text \<open>
  Before a fill-or-kill order trades, the volume within its limit is added up, on a copy of the
  order. \<open>fs\<close> carries the copy, the total so far and the state of the off-book source; the
  flag beside it says that a wash trade ended the check. In \<^verbatim>\<open>uncross\<close> the off-book source is asked inside the loop
  over the orders, in \<^verbatim>\<open>fakeUncross\<close> after it.
\<close>

record 's fokState =
  fk_fake :: Order
  fk_total :: uint64
  fk_st :: 's

definition fokOffbook ::
  "'s offbook \<Rightarrow> PriceLevel list \<Rightarrow> nat \<Rightarrow> 's fokState \<Rightarrow> (string, 's fokState) go" where
  "fokOffbook ob levels idx fs =
     gbind (uncrossOffbook ob levels idx True (fk_fake fs) (fk_st fs)) (\<lambda>(fake', _, oo, st').
       Ret \<lparr>fk_fake = fake', fk_total = fk_total fs + sum_list (map o_Remaining oo), fk_st = st'\<rparr>)"

fun fokOrders ::
  "'s offbook \<Rightarrow> PriceLevel list \<Rightarrow> nat \<Rightarrow> Order \<Rightarrow> Order list \<Rightarrow> 's fokState
    \<Rightarrow> (string, bool \<times> 's fokState) go" where
  "fokOrders ob levels i agg [] fs = Ret (False, fs)"
| "fokOrders ob levels i agg (ord # ords) fs =
     (if o_Party agg = o_Party ord then Ret (True, fs)
      else
        gbind (fokOffbook ob levels i (fs\<lparr>fk_total := fk_total fs + o_Remaining ord\<rparr>)) (\<lambda>fs'.
          if fk_total fs' \<ge> o_Remaining agg then Ret (False, fs')
          else fokOrders ob levels i agg ords fs'))"

fun fokLevels ::
  "'s offbook \<Rightarrow> (Uint \<Rightarrow> bool) \<Rightarrow> Order \<Rightarrow> PriceLevel list \<Rightarrow> nat \<Rightarrow> 's fokState
    \<Rightarrow> (string, bool \<times> 's fokState) go" where
  "fokLevels ob trading agg levels 0 fs = Ret (False, fs)"
| "fokLevels ob trading agg levels (Suc i) fs =
     gbind (if trading (pl_price (levels ! i))
            then fokOrders ob levels i agg (pl_orders (levels ! i)) fs else Ret (False, fs))
       (\<lambda>(washed, fs').
         if washed \<or> fk_total fs' \<ge> o_Remaining agg then Ret (washed, fs')
         else fokLevels ob trading agg levels i fs')"

fun fakeFokOrders :: "Order \<Rightarrow> uint64 \<Rightarrow> Order list \<Rightarrow> bool \<times> uint64" where
  "fakeFokOrders agg vol [] = (False, vol)"
| "fakeFokOrders agg vol (ord # ords) =
     (if o_Party agg = o_Party ord then (True, vol)
      else if vol + o_Remaining ord \<ge> o_Remaining agg then (False, vol + o_Remaining ord)
      else fakeFokOrders agg (vol + o_Remaining ord) ords)"

fun fakeFokLevels ::
  "'s offbook \<Rightarrow> (Uint \<Rightarrow> bool) \<Rightarrow> Order \<Rightarrow> PriceLevel list \<Rightarrow> nat \<Rightarrow> 's fokState
    \<Rightarrow> (string, bool \<times> 's fokState) go" where
  "fakeFokLevels ob trading agg levels 0 fs = Ret (False, fs)"
| "fakeFokLevels ob trading agg levels (Suc i) fs =
     gbind (if trading (pl_price (levels ! i)) then
              (let (washed, vol) = fakeFokOrders agg (fk_total fs) (pl_orders (levels ! i));
                   fs' = fs\<lparr>fk_total := vol\<rparr>
               in if washed then Ret (True, fs')
                  else gbind (fokOffbook ob levels i fs') (\<lambda>fs''. Ret (False, fs'')))
            else Ret (False, fs))
       (\<lambda>(washed, fs').
         if washed \<or> fk_total fs' \<ge> o_Remaining agg then Ret (washed, fs')
         else fakeFokLevels ob trading agg levels i fs')"

section \<open>Uncrossing the side\<close>

text \<open>
  The main loop repeats a level until its orders are gone, so its end is not structural: it takes
  fuel and answers \<open>Diverge\<close> without it. \<open>sl_n\<close> is \<open>idx + 1\<close>; the flag \<^verbatim>\<open>filled\<close> of the code is
  \<open>o_Remaining = 0\<close> wherever the loop tests it.
\<close>

record 's sideLoop =
  sl_levels :: "PriceLevel list"
  sl_n :: nat
  sl_agg :: Order
  sl_trades :: "Trade list"
  sl_impacted :: "Order list"
  sl_err :: "BookError option"
  sl_st :: 's

definition checkLimit :: "Order \<Rightarrow> Uint \<Rightarrow> bool" where
  "checkLimit agg levelPrice =
     (if o_Side agg = SideSell then levelPrice \<ge> o_Price agg else levelPrice \<le> o_Price agg)"

definition anyPrice :: "Order \<Rightarrow> bool" where
  "anyPrice agg \<longleftrightarrow> o_Type agg = OrderTypeMarket \<or> o_Type agg = OrderTypeNetwork"

fun uncrossLevels ::
  "nat \<Rightarrow> (rat \<Rightarrow> rat \<Rightarrow> rat) \<Rightarrow> 's offbook \<Rightarrow> bool \<Rightarrow> 's sideLoop \<Rightarrow> (string, 's sideLoop) go" where
  "uncrossLevels 0 ddiv ob chk s = Diverge"
| "uncrossLevels (Suc fuel) ddiv ob chk s =
     (if o_Remaining (sl_agg s) = 0 \<or> sl_n s = 0 then Ret s
      else
        (let idx = sl_n s - 1; l = sl_levels s ! idx in
         if checkLimit (sl_agg s) (pl_price l) \<or> anyPrice (sl_agg s) then
           gbind (pl_uncross ddiv (sl_agg s) chk l) (\<lambda>r.
             let s' = s\<lparr>sl_levels := (sl_levels s)[idx := ur_level r], sl_agg := ur_agg r,
                        sl_trades := sl_trades s @ ur_trades r,
                        sl_impacted := sl_impacted s @ ur_impacted r, sl_err := ur_err r\<rparr>
             in if ur_err r = Some ErrWashTrade then Ret s'
                else
                  gbind (if \<not> ur_filled r
                         then uncrossOffbook ob (sl_levels s') idx False (sl_agg s') (sl_st s')
                         else Ret (sl_agg s', [], [], sl_st s')) (\<lambda>(agg', ot, oo, st').
                    uncrossLevels fuel ddiv ob chk
                      (s'\<lparr>sl_agg := agg', sl_trades := sl_trades s' @ ot,
                          sl_impacted := sl_impacted s' @ oo, sl_st := st',
                          sl_n := (if pl_orders (ur_level r) = [] then idx else sl_n s)\<rparr>)))
         else Ret s))"

definition dropEmptied :: "nat \<Rightarrow> PriceLevel list \<Rightarrow> PriceLevel list" where
  "dropEmptied n levels =
     take (if n = 0 then 0 else if pl_orders (levels ! (n - 1)) \<noteq> [] then n else n - 1) levels"

record 's uncrossOutcome =
  un_side :: OrderBookSide
  un_agg :: Order
  un_trades :: "Trade list"
  un_impacted :: "Order list"
  un_lastPrice :: Uint
  un_err :: "BookError option"
  un_st :: 's

text \<open>A network order gets the average price of its trades.\<close>

definition networkPrice :: "Trade list \<Rightarrow> Order \<Rightarrow> Uint" where
  "networkPrice trades agg =
     (if o_Type agg = OrderTypeNetwork
      then Uint_Div (sum_list (map (\<lambda>t. t_Price t * NewUint (t_Size t)) trades)) (NewUint (o_Size agg))
      else o_Price agg)"

definition s_uncross ::
  "nat \<Rightarrow> (rat \<Rightarrow> rat \<Rightarrow> rat) \<Rightarrow> 's offbook \<Rightarrow> Order \<Rightarrow> bool \<Rightarrow> OrderBookSide \<Rightarrow> 's
    \<Rightarrow> (string, 's uncrossOutcome) go" where
  "s_uncross fuel ddiv ob agg chk s st =
     (let levels = s_levels s;
          trading = (\<lambda>p. checkLimit agg p \<or> anyPrice agg);
          stop = (\<lambda>agg' err st'. Ret \<lparr>un_side = s, un_agg = agg', un_trades = [], un_impacted = [],
                    un_lastPrice = 0, un_err = err, un_st = st'\<rparr>);
          run = (\<lambda>st'.
            gbind (uncrossOffbook ob levels (length levels) False agg st') (\<lambda>(agg1, ot, oo, st1).
              gbind (uncrossLevels fuel ddiv ob chk
                       \<lparr>sl_levels = levels, sl_n = length levels, sl_agg = agg1, sl_trades = ot,
                        sl_impacted = oo, sl_err = None, sl_st = st1\<rparr>) (\<lambda>r.
                Ret \<lparr>un_side = s\<lparr>s_levels := dropEmptied (sl_n r) (sl_levels r)\<rparr>,
                     un_agg = (sl_agg r)\<lparr>o_Price := networkPrice (sl_trades r) (sl_agg r)\<rparr>,
                     un_trades = sl_trades r, un_impacted = sl_impacted r,
                     un_lastPrice = (if sl_trades r = [] then 0 else t_Price (last (sl_trades r))),
                     un_err = sl_err r, un_st = sl_st r\<rparr>)))
      in if o_TimeInForce agg = OrderTimeInForceFOK then
           gbind (fokOffbook ob levels (length levels)
                    \<lparr>fk_fake = agg, fk_total = 0, fk_st = st\<rparr>) (\<lambda>fs.
             gbind (fokLevels ob trading agg levels (length levels) fs) (\<lambda>res.
               let (washed, fs') = res in
               if washed
               then stop (agg\<lparr>o_Status := OrderStatusStopped\<rparr>) (Some ErrWashTrade) (fk_st fs')
               else if fk_total fs' < o_Remaining agg then stop agg None (fk_st fs')
               else run (uncrossFinished ob (fk_st fs'))))
         else run st)"

section \<open>The hypothetical uncrossing of the side\<close>

definition beyondLimit :: "Order \<Rightarrow> Uint \<Rightarrow> bool" where
  "beyondLimit agg levelPrice =
     (if o_Side agg = SideBuy then levelPrice > o_Price agg else levelPrice < o_Price agg)"

fun fakeUncrossLevels ::
  "(rat \<Rightarrow> rat \<Rightarrow> rat) \<Rightarrow> 's offbook \<Rightarrow> Order \<Rightarrow> bool \<Rightarrow> PriceLevel list \<Rightarrow> nat \<Rightarrow> Order
    \<Rightarrow> BookError option \<Rightarrow> 's \<Rightarrow> (string, Trade list \<times> BookError option \<times> 's) go" where
  "fakeUncrossLevels ddiv ob agg chk levels 0 fake err st = Ret ([], err, st)"
| "fakeUncrossLevels ddiv ob agg chk levels (Suc idx) fake err st =
     (if o_Remaining fake = 0 then Ret ([], err, st)
      else if o_Type agg \<noteq> OrderTypeMarket \<and> beyondLimit agg (pl_price (levels ! idx))
      then Ret ([], err, st)
      else
        gbind (pl_fakeUncross ddiv fake chk (levels ! idx)) (\<lambda>(fake1, ntrades, err1).
          if err1 = Some ErrWashTrade then Ret (ntrades, err1, st)
          else
            gbind (if o_Remaining fake1 \<noteq> 0 then uncrossOffbook ob levels idx True fake1 st
                   else Ret (fake1, [], [], st)) (\<lambda>(fake2, obTrades, _, st').
              gbind (fakeUncrossLevels ddiv ob agg chk levels idx fake2 err1 st')
                (\<lambda>(trades, err2, st''). Ret (ntrades @ obTrades @ trades, err2, st'')))))"

text \<open>\<open>uncrossFinished\<close> runs on every return, as the deferred call does.\<close>

definition s_fakeUncross ::
  "(rat \<Rightarrow> rat \<Rightarrow> rat) \<Rightarrow> 's offbook \<Rightarrow> Order \<Rightarrow> bool \<Rightarrow> OrderBookSide \<Rightarrow> 's
    \<Rightarrow> (string, Trade list \<times> BookError option \<times> 's) go" where
  "s_fakeUncross ddiv ob agg chk s st =
     (let levels = s_levels s;
          trading = (\<lambda>p. (if o_Side agg = SideBuy then p \<le> o_Price agg else p \<ge> o_Price agg)
                         \<or> o_Type agg = OrderTypeMarket);
          run = (\<lambda>st'.
            gbind (uncrossOffbook ob levels (length levels) True agg st') (\<lambda>(fake, ot, _, st1).
              gbind (fakeUncrossLevels ddiv ob agg chk levels (length levels) fake None st1)
                (\<lambda>(trades, err, st2). Ret (ot @ trades, err, uncrossFinished ob st2))))
      in if o_TimeInForce agg = OrderTimeInForceFOK then
           gbind (fokOffbook ob levels (length levels)
                    \<lparr>fk_fake = agg, fk_total = 0, fk_st = st\<rparr>) (\<lambda>fs.
             gbind (fakeFokLevels ob trading agg levels (length levels) fs) (\<lambda>(washed, fs').
               if washed then Ret ([], Some ErrWashTrade, uncrossFinished ob (fk_st fs'))
               else if fk_total fs' < o_Remaining agg
               then Ret ([], None, uncrossFinished ob (fk_st fs'))
               else run (uncrossFinished ob (fk_st fs'))))
         else run st)"

section \<open>The hypothetical uncrossing of an auction\<close>

text \<open>
  \<^verbatim>\<open>fakeUncrossAuction\<close> matches a list of orders against copies of the levels. The first loop
  serves the orders from the off-book volume before the first level; the second walks down the
  levels and repeats a level while it or the off-book source has volume, so it takes fuel.
\<close>

record 's auctionState =
  au_fake :: Order
  au_rest :: "Order list"
  au_trades :: "Trade list"
  au_st :: 's

fun auctionOffbook ::
  "'s offbook \<Rightarrow> PriceLevel list \<Rightarrow> Order list \<Rightarrow> Trade list \<Rightarrow> 's
    \<Rightarrow> (string, 's auctionState option \<times> Trade list \<times> 's) go" where
  "auctionOffbook ob levels [] trades st = Ret (None, trades, st)"
| "auctionOffbook ob levels (ord # ords) trades st =
     gbind (uncrossOffbook ob levels (length levels) False ord st) (\<lambda>(fake, ntrades, _, st').
       if o_Remaining fake \<noteq> 0
       then Ret (Some \<lparr>au_fake = fake, au_rest = ords, au_trades = trades @ ntrades, au_st = st'\<rparr>,
                 trades @ ntrades, st')
       else auctionOffbook ob levels ords (trades @ ntrades) st')"

definition unfoldIceberg :: "Order \<Rightarrow> Order" where
  "unfoldIceberg ord =
     (case o_IcebergOrder ord of
        None \<Rightarrow> ord
      | Some ice \<Rightarrow> ord\<lparr>o_Remaining := o_Remaining ord + ice_ReservedRemaining ice,
                        o_IcebergOrder := Some (ice\<lparr>ice_ReservedRemaining := 0\<rparr>)\<rparr>)"

text \<open>The loop over one level answers whether all orders have been used up, or the error.\<close>

fun auctionLevel ::
  "nat \<Rightarrow> (rat \<Rightarrow> rat \<Rightarrow> rat) \<Rightarrow> 's offbook \<Rightarrow> PriceLevel list \<Rightarrow> nat \<Rightarrow> PriceLevel \<Rightarrow> bool
    \<Rightarrow> 's auctionState \<Rightarrow> (string, (BookError + bool) \<times> 's auctionState) go" where
  "auctionLevel 0 ddiv ob levels idx lvl have a = Diverge"
| "auctionLevel (Suc fuel) ddiv ob levels idx lvl have a =
     (if \<not> (pl_volume lvl > 0 \<or> have) then Ret (Inr False, a)
      else if o_Type (au_fake a) \<noteq> OrderTypeMarket \<and> beyondLimit (au_fake a) (pl_price lvl)
      then Ret (Inr False, a)
      else
        gbind (pl_uncross ddiv (au_fake a) False lvl) (\<lambda>r.
          case ur_err r of
            Some e \<Rightarrow> Ret (Inl e, a)
          | None \<Rightarrow>
             gbind (if o_Remaining (ur_agg r) \<noteq> 0
                    then uncrossOffbook ob levels idx True (ur_agg r) (au_st a)
                    else Ret (ur_agg r, [], [], au_st a)) (\<lambda>(fake, ntrades, _, st').
               let a' = a\<lparr>au_fake := fake, au_trades := au_trades a @ ur_trades r @ ntrades,
                          au_st := st'\<rparr>;
                   have' = (if o_Remaining (ur_agg r) \<noteq> 0 \<and> o_Remaining fake \<noteq> 0 then False else have)
               in if o_Remaining fake = 0 then
                    (case au_rest a' of
                       [] \<Rightarrow> Ret (Inr True, a')
                     | ord # ords \<Rightarrow>
                         auctionLevel fuel ddiv ob levels idx (ur_level r) have'
                           (a'\<lparr>au_fake := ord, au_rest := ords\<rparr>))
                  else auctionLevel fuel ddiv ob levels idx (ur_level r) have' a')))"

fun auctionLevels ::
  "nat \<Rightarrow> (rat \<Rightarrow> rat \<Rightarrow> rat) \<Rightarrow> 's offbook \<Rightarrow> PriceLevel list \<Rightarrow> nat \<Rightarrow> 's auctionState
    \<Rightarrow> (string, Trade list \<times> BookError option \<times> 's) go" where
  "auctionLevels fuel ddiv ob levels 0 a = Ret (au_trades a, None, au_st a)"
| "auctionLevels fuel ddiv ob levels (Suc idx) a =
     gbind (auctionLevel fuel ddiv ob levels idx (levels ! idx) True
              (a\<lparr>au_fake := unfoldIceberg (au_fake a)\<rparr>)) (\<lambda>(res, a').
       case res of
         Inl e \<Rightarrow> Ret ([], Some e, au_st a')
       | Inr True \<Rightarrow> Ret (au_trades a', None, au_st a')
       | Inr False \<Rightarrow> auctionLevels fuel ddiv ob levels idx a')"

definition fakeUncrossAuction ::
  "nat \<Rightarrow> (rat \<Rightarrow> rat \<Rightarrow> rat) \<Rightarrow> 's offbook \<Rightarrow> Order list \<Rightarrow> OrderBookSide \<Rightarrow> 's
    \<Rightarrow> (string, Trade list \<times> BookError option \<times> 's) go" where
  "fakeUncrossAuction fuel ddiv ob orders s st =
     gbind (auctionOffbook ob (s_levels s) orders [] st) (\<lambda>(res, trades, st').
       case res of
         None \<Rightarrow> Ret (trades, None, uncrossFinished ob st')
       | Some a \<Rightarrow>
           gbind (auctionLevels fuel ddiv ob (s_levels s) (length (s_levels s)) a)
             (\<lambda>(ts, err, st''). Ret (ts, err, uncrossFinished ob st'')))"

end
