(* ===== verification/Indicative.thy ===== *)
theory Indicative
  imports Book_Side "HOL-Library.List_Lexorder" "HOL-Library.Char_ord"
begin

text \<open>
  The indicative price and volume of an auction
  (\<^verbatim>\<open>core/matching/indicative_price_and_volume.go\<close>): the volume of both sides by price, kept up to
  date while orders come and go, and the cumulative volumes over the crossed region from which the
  uncrossing price is found. The levels are sorted by descending price. A Go map keyed by party or
  by price is an association list without duplicate keys; where the code iterates over a map the
  result does not depend on the order, or the code sorts.
\<close>

section \<open>Data\<close>

record ipvVolume =
  iv_volume :: uint64
  iv_offbookVolume :: uint64

record ipvPriceLevel =
  ip_price :: Uint
  ip_buypl :: ipvVolume
  ip_sellpl :: ipvVolume

record ipvGeneratedOffbook =
  gn_buy :: "Order list"
  gn_sell :: "Order list"
  gn_approx :: bool

record CumulativeVolumeLevel =
  cv_price :: Uint
  cv_bidVolume :: uint64
  cv_askVolume :: uint64
  cv_cumulativeBidVolume :: uint64
  cv_cumulativeAskVolume :: uint64
  cv_maxTradableAmount :: uint64
  cv_cumulativeBidOffbook :: uint64
  cv_cumulativeAskOffbook :: uint64

record IndicativePriceAndVolume =
  iv_levels :: "ipvPriceLevel list"
  iv_buf :: "CumulativeVolumeLevel list"
  iv_lastMinPrice :: Uint
  iv_lastMaxPrice :: Uint
  iv_lastMaxTradable :: uint64
  iv_lastCumulativeVolumes :: "CumulativeVolumeLevel list"
  iv_needsUpdate :: bool
  iv_generated :: "(string \<times> ipvGeneratedOffbook) list"

definition zero_ipvVolume :: ipvVolume where
  "zero_ipvVolume = \<lparr>iv_volume = 0, iv_offbookVolume = 0\<rparr>"

definition new_ipvLevel :: "Uint \<Rightarrow> ipvPriceLevel" where
  "new_ipvLevel price = \<lparr>ip_price = price, ip_buypl = zero_ipvVolume, ip_sellpl = zero_ipvVolume\<rparr>"

definition zero_CumulativeVolumeLevel :: CumulativeVolumeLevel where
  "zero_CumulativeVolumeLevel = \<lparr>cv_price = 0, cv_bidVolume = 0, cv_askVolume = 0,
     cv_cumulativeBidVolume = 0, cv_cumulativeAskVolume = 0, cv_maxTradableAmount = 0,
     cv_cumulativeBidOffbook = 0, cv_cumulativeAskOffbook = 0\<rparr>"

definition gen_add :: "Order \<Rightarrow> ipvGeneratedOffbook \<Rightarrow> ipvGeneratedOffbook" where
  "gen_add ord g =
     (if o_Side ord = SideSell then g\<lparr>gn_sell := gn_sell g @ [ord]\<rparr>
      else g\<lparr>gn_buy := gn_buy g @ [ord]\<rparr>)"

section \<open>Volume at a price\<close>

definition incVolume :: "uint64 \<Rightarrow> bool \<Rightarrow> ipvVolume \<Rightarrow> ipvVolume" where
  "incVolume volume isOffbook v =
     \<lparr>iv_volume = iv_volume v + volume,
      iv_offbookVolume = (if isOffbook then iv_offbookVolume v + volume else iv_offbookVolume v)\<rparr>"

definition decVolume :: "uint64 \<Rightarrow> bool \<Rightarrow> ipvVolume \<Rightarrow> ipvVolume" where
  "decVolume volume isOffbook v =
     \<lparr>iv_volume = iv_volume v - volume,
      iv_offbookVolume = (if isOffbook then iv_offbookVolume v - volume else iv_offbookVolume v)\<rparr>"

definition incrementLevelVolume ::
  "uint64 \<Rightarrow> Side \<Rightarrow> bool \<Rightarrow> ipvPriceLevel \<Rightarrow> ipvPriceLevel" where
  "incrementLevelVolume volume sd isOffbook l =
     (case sd of
        SideBuy \<Rightarrow> l\<lparr>ip_buypl := incVolume volume isOffbook (ip_buypl l)\<rparr>
      | SideSell \<Rightarrow> l\<lparr>ip_sellpl := incVolume volume isOffbook (ip_sellpl l)\<rparr>
      | SideUnspecified \<Rightarrow> l)"

definition decrementLevelVolume ::
  "uint64 \<Rightarrow> Side \<Rightarrow> bool \<Rightarrow> ipvPriceLevel \<Rightarrow> ipvPriceLevel" where
  "decrementLevelVolume volume sd isOffbook l =
     (case sd of
        SideBuy \<Rightarrow> l\<lparr>ip_buypl := decVolume volume isOffbook (ip_buypl l)\<rparr>
      | SideSell \<Rightarrow> l\<lparr>ip_sellpl := decVolume volume isOffbook (ip_sellpl l)\<rparr>
      | SideUnspecified \<Rightarrow> l)"

definition searchIpv :: "Uint \<Rightarrow> ipvPriceLevel list \<Rightarrow> nat" where
  "searchIpv price levels = sort_Search (length levels) (\<lambda>i. ip_price (levels ! i) \<le> price)"

definition touches :: "Uint \<Rightarrow> IndicativePriceAndVolume \<Rightarrow> bool" where
  "touches price ipv \<longleftrightarrow> price \<ge> iv_lastMinPrice ipv \<or> price \<le> iv_lastMaxPrice ipv"

definition AddVolumeAtPrice ::
  "Uint \<Rightarrow> uint64 \<Rightarrow> Side \<Rightarrow> bool \<Rightarrow> IndicativePriceAndVolume \<Rightarrow> IndicativePriceAndVolume" where
  "AddVolumeAtPrice price volume sd isOffbook ipv =
     (let ipv = (if touches price ipv then ipv\<lparr>iv_needsUpdate := True\<rparr> else ipv);
          levels = iv_levels ipv;
          i = searchIpv price levels
      in if i < length levels \<and> ip_price (levels ! i) = price
         then ipv\<lparr>iv_levels := levels[i := incrementLevelVolume volume sd isOffbook (levels ! i)]\<rparr>
         else ipv\<lparr>iv_levels := insert_nth i
                (incrementLevelVolume volume sd isOffbook (new_ipvLevel price)) levels\<rparr>)"

definition RemoveVolumeAtPrice ::
  "Uint \<Rightarrow> uint64 \<Rightarrow> Side \<Rightarrow> bool \<Rightarrow> IndicativePriceAndVolume
    \<Rightarrow> (string, IndicativePriceAndVolume) go" where
  "RemoveVolumeAtPrice price volume sd isOffbook ipv =
     (let ipv = (if touches price ipv then ipv\<lparr>iv_needsUpdate := True\<rparr> else ipv);
          levels = iv_levels ipv;
          i = searchIpv price levels
      in if i < length levels \<and> ip_price (levels ! i) = price
         then Ret (ipv\<lparr>iv_levels := levels[i := decrementLevelVolume volume sd isOffbook (levels ! i)]\<rparr>)
         else Panic ''cannot remove volume from a non-existing level'')"

section \<open>Volume of the off-book source\<close>

fun removeOrdersVolume ::
  "Order list \<Rightarrow> IndicativePriceAndVolume \<Rightarrow> (string, IndicativePriceAndVolume) go" where
  "removeOrdersVolume [] ipv = Ret ipv"
| "removeOrdersVolume (ord # ords) ipv =
     gbind (RemoveVolumeAtPrice (o_Price ord) (o_Size ord) (o_Side ord) True ipv)
       (removeOrdersVolume ords)"

definition removeOffbookShape ::
  "string \<Rightarrow> IndicativePriceAndVolume \<Rightarrow> (string, IndicativePriceAndVolume) go" where
  "removeOffbookShape party ipv =
     (case map_of (iv_generated ipv) party of
        None \<Rightarrow> Ret ipv
      | Some g \<Rightarrow>
          gbind (removeOrdersVolume (gn_buy g) ipv) (\<lambda>ipv.
            gbind (removeOrdersVolume (gn_sell g) ipv) (\<lambda>ipv.
              Ret (ipv\<lparr>iv_generated := assoc_del party (iv_generated ipv)\<rparr>))))"

text \<open>One expanded order enters the levels and the cache of its party.\<close>

definition addShapeOrder ::
  "Uint \<Rightarrow> Uint \<Rightarrow> bool \<Rightarrow> bool \<Rightarrow> string \<Rightarrow> Order
    \<Rightarrow> IndicativePriceAndVolume \<Rightarrow> IndicativePriceAndVolume" where
  "addShapeOrder minPrice maxPrice excludeMin excludeMax party ord ipv =
     (if excludeMin \<and> o_Price ord = minPrice then ipv
      else if excludeMax \<and> o_Price ord = maxPrice then ipv
      else
        (let ipv = AddVolumeAtPrice (o_Price ord) (o_Size ord) (o_Side ord) True ipv in
         case map_of (iv_generated ipv) party of
           None \<Rightarrow> ipv
         | Some g \<Rightarrow> ipv\<lparr>iv_generated := assoc_put party (gen_add ord g) (iv_generated ipv)\<rparr>))"

definition addShape ::
  "Uint \<Rightarrow> Uint \<Rightarrow> bool \<Rightarrow> bool \<Rightarrow> OrderbookShapeResult
    \<Rightarrow> IndicativePriceAndVolume \<Rightarrow> IndicativePriceAndVolume" where
  "addShape minPrice maxPrice excludeMin excludeMax shape ipv =
     (if shp_Buys shape = [] \<and> shp_Sells shape = [] then ipv
      else
        (let party = shp_AmmParty shape;
             ipv = (if map_of (iv_generated ipv) party = None
                    then ipv\<lparr>iv_generated := assoc_put party
                           \<lparr>gn_buy = [], gn_sell = [], gn_approx = shp_Approx shape\<rparr> (iv_generated ipv)\<rparr>
                    else ipv)
         in fold (addShapeOrder minPrice maxPrice excludeMin excludeMax party)
              (rev (shp_Buys shape) @ shp_Sells shape) ipv))"

definition addOffbookShape ::
  "'s OffbookSource \<Rightarrow> 's \<Rightarrow> string option \<Rightarrow> Uint \<Rightarrow> Uint \<Rightarrow> bool \<Rightarrow> bool
    \<Rightarrow> IndicativePriceAndVolume \<Rightarrow> IndicativePriceAndVolume" where
  "addOffbookShape src st party minPrice maxPrice excludeMin excludeMax ipv =
     fold (addShape minPrice maxPrice excludeMin excludeMax)
       (ob_OrderbookShape src minPrice maxPrice party st) ipv"

fun removeShapes ::
  "string list \<Rightarrow> IndicativePriceAndVolume \<Rightarrow> (string, IndicativePriceAndVolume) go" where
  "removeShapes [] ipv = Ret ipv"
| "removeShapes (p # ps) ipv = gbind (removeOffbookShape p ipv) (removeShapes ps)"

definition updateOffbookState ::
  "'s OffbookSource \<Rightarrow> 's \<Rightarrow> Uint \<Rightarrow> Uint \<Rightarrow> IndicativePriceAndVolume
    \<Rightarrow> (string, IndicativePriceAndVolume) go" where
  "updateOffbookState src st minPrice maxPrice ipv =
     gbind (removeShapes (map fst (iv_generated ipv)) ipv) (\<lambda>ipv.
       Ret (if minPrice > maxPrice then ipv
            else addOffbookShape src st None minPrice maxPrice False False ipv))"

section \<open>The levels when the auction starts\<close>

text \<open>
  The levels are first collected in a map from price to level: \<open>putBuyLevel\<close> and \<open>putSellLevel\<close>
  are the bodies of the two loops over the sides, \<open>addShapeVolume\<close> the body of the loops over the
  orders of an expanded market maker.
\<close>

type_synonym levelMap = "(Uint \<times> ipvPriceLevel) list"

definition putBuyLevel :: "PriceLevel \<Rightarrow> levelMap \<Rightarrow> levelMap" where
  "putBuyLevel l mplm = assoc_put (pl_price l)
     ((new_ipvLevel (pl_price l))\<lparr>ip_buypl := \<lparr>iv_volume = pl_volume l, iv_offbookVolume = 0\<rparr>\<rparr>) mplm"

definition putSellLevel :: "PriceLevel \<Rightarrow> levelMap \<Rightarrow> levelMap" where
  "putSellLevel l mplm =
     (let mpl = (case map_of mplm (pl_price l) of None \<Rightarrow> new_ipvLevel (pl_price l) | Some mpl \<Rightarrow> mpl)
      in assoc_put (pl_price l)
           (mpl\<lparr>ip_sellpl := \<lparr>iv_volume = pl_volume l, iv_offbookVolume = 0\<rparr>\<rparr>) mplm)"

definition addShapeVolume ::
  "Side \<Rightarrow> bool \<Rightarrow> Order \<Rightarrow> levelMap \<times> (string \<times> ipvGeneratedOffbook) list
    \<Rightarrow> levelMap \<times> (string \<times> ipvGeneratedOffbook) list" where
  "addShapeVolume sd approx ord st =
     (let mplm = fst st; generated = snd st;
          mpl = (case map_of mplm (o_Price ord) of None \<Rightarrow> new_ipvLevel (o_Price ord) | Some mpl \<Rightarrow> mpl);
          g = (case map_of generated (o_Party ord) of
                 None \<Rightarrow> \<lparr>gn_buy = [], gn_sell = [], gn_approx = approx\<rparr> | Some g \<Rightarrow> g)
      in (assoc_put (o_Price ord) (incrementLevelVolume (o_Size ord) sd True mpl) mplm,
          assoc_put (o_Party ord) (gen_add ord g) generated))"

definition buildInitialOffbookShape ::
  "'s OffbookSource \<Rightarrow> 's \<Rightarrow> Uint \<Rightarrow> Uint \<Rightarrow> levelMap \<times> (string \<times> ipvGeneratedOffbook) list
    \<Rightarrow> levelMap \<times> (string \<times> ipvGeneratedOffbook) list" where
  "buildInitialOffbookShape src st mn mx acc =
     (if mn = 0 \<or> mx = 0 \<or> mn > mx then acc
      else fold (\<lambda>shape acc.
             fold (addShapeVolume SideSell (shp_Approx shape)) (shp_Sells shape)
               (fold (addShapeVolume SideBuy (shp_Approx shape)) (rev (shp_Buys shape)) acc))
           (ob_OrderbookShape src mn mx None st) acc)"

definition buildInitialCumulativeLevels ::
  "'s offbook \<Rightarrow> 's \<Rightarrow> OrderBookSide \<Rightarrow> OrderBookSide \<Rightarrow> IndicativePriceAndVolume
    \<Rightarrow> IndicativePriceAndVolume" where
  "buildInitialCumulativeLevels offb st buy sell ipv =
     (let mplm = fold putBuyLevel (rev (s_levels buy)) [];
          mplm = fold putSellLevel (rev (s_levels sell)) mplm;
          (mplm, generated) =
            (case offb of
               None \<Rightarrow> (mplm, iv_generated ipv)
             | Some src \<Rightarrow> buildInitialOffbookShape src st (iv_lastMinPrice ipv) (iv_lastMaxPrice ipv)
                             (mplm, iv_generated ipv))
      in ipv\<lparr>iv_levels := rev (sort_key ip_price (map snd mplm)), iv_generated := generated\<rparr>)"

definition bestOr :: "(Uint \<Rightarrow> Uint \<Rightarrow> Uint) \<Rightarrow> Uint \<Rightarrow> Uint option \<Rightarrow> Uint" where
  "bestOr f best off = (case off of None \<Rightarrow> best | Some p \<Rightarrow> if best = 0 then p else f best p)"

definition NewIndicativePriceAndVolume ::
  "'s offbook \<Rightarrow> 's \<Rightarrow> OrderBookSide \<Rightarrow> OrderBookSide \<Rightarrow> IndicativePriceAndVolume" where
  "NewIndicativePriceAndVolume offb st buy sell =
     (let (bestBid, _, err) = BestPriceAndVolume buy;
          bestBid = (if err \<noteq> None then 0 else bestBid);
          (bestAsk, _, err) = BestPriceAndVolume sell;
          bestAsk = (if err \<noteq> None then 0 else bestAsk);
          (bestBid, bestAsk) =
            (case offb of
               None \<Rightarrow> (bestBid, bestAsk)
             | Some src \<Rightarrow>
                 (let (bid, _, ask, _) = ob_BestPricesAndVolumes src st
                  in (bestOr max bestBid bid, bestOr min bestAsk ask)));
          ipv = \<lparr>iv_levels = [], iv_buf = [], iv_lastMinPrice = 0, iv_lastMaxPrice = 0,
                 iv_lastMaxTradable = 0, iv_lastCumulativeVolumes = [], iv_needsUpdate = True,
                 iv_generated = []\<rparr>;
          ipv = (if bestAsk \<le> bestBid
                 then ipv\<lparr>iv_lastMinPrice := bestAsk, iv_lastMaxPrice := bestBid\<rparr> else ipv);
          ipv = buildInitialCumulativeLevels offb st buy sell ipv
      in ipv\<lparr>iv_buf := replicate (length (iv_levels ipv)) zero_CumulativeVolumeLevel\<rparr>)"

section \<open>Cumulative volumes\<close>

definition getLevelsWithinRange ::
  "Uint \<Rightarrow> Uint \<Rightarrow> IndicativePriceAndVolume \<Rightarrow> (string, ipvPriceLevel list) go" where
  "getLevelsWithinRange maxPrice minPrice ipv =
     (let levels = iv_levels ipv; maxPricePos = searchIpv maxPrice levels in
      if maxPricePos \<ge> length levels \<or> ip_price (levels ! maxPricePos) \<noteq> maxPrice
      then Panic ''missing max price in levels''
      else
        (let minPricePos = searchIpv minPrice levels in
         if minPricePos \<ge> length levels \<or> ip_price (levels ! minPricePos) \<noteq> minPrice
         then Panic ''missing min price in levels''
         else if minPricePos + 1 < maxPricePos then Panic ''slice bounds out of range''
         else Ret (drop maxPricePos (take (minPricePos + 1) levels))))"

definition GetCrossedRegion :: "IndicativePriceAndVolume \<Rightarrow> Uint \<times> Uint" where
  "GetCrossedRegion ipv = (iv_lastMinPrice ipv, iv_lastMaxPrice ipv)"

text \<open>
  The loop of \<^verbatim>\<open>GetCumulativePriceLevels\<close> walks the range from both ends at once and writes into
  a buffer that is reused between calls. Its state is the buffer with the five running totals;
  \<open>cumulateStep\<close> is one iteration, for the index \<open>i\<close> that counts down.
\<close>

record cumulation =
  cu_vols :: "CumulativeVolumeLevel list"
  cu_sell :: uint64
  cu_buy :: uint64
  cu_maxTradable :: uint64
  cu_offbookSell :: uint64
  cu_offbookBuy :: uint64

definition upd_nth :: "nat \<Rightarrow> ('a \<Rightarrow> 'a) \<Rightarrow> 'a list \<Rightarrow> 'a list" where
  "upd_nth i f xs = xs[i := f (xs ! i)]"

definition cumulateStep :: "ipvPriceLevel list \<Rightarrow> nat \<Rightarrow> cumulation \<Rightarrow> cumulation" where
  "cumulateStep ranged i c =
     (let ln = length ranged - 1;
          half = ln div 2;
          j = ln - i;
          vs = upd_nth j (\<lambda>v. v\<lparr>cv_bidVolume := 0\<rparr>) (cu_vols c);
          vs = upd_nth i (\<lambda>v. v\<lparr>cv_askVolume := 0\<rparr>) vs;
          vs = (if j < i
                then upd_nth i (\<lambda>v. v\<lparr>cv_cumulativeBidVolume := 0\<rparr>)
                       (upd_nth j (\<lambda>v. v\<lparr>cv_cumulativeAskVolume := 0\<rparr>) vs)
                else vs);
          vs = upd_nth i (\<lambda>v. v\<lparr>cv_price := ip_price (ranged ! i)\<rparr>) vs;
          bpl = ip_buypl (ranged ! j);
          spl = ip_sellpl (ranged ! i);
          buy = (if iv_volume bpl > 0 then cu_buy c + iv_volume bpl else cu_buy c);
          obuy = (if iv_volume bpl > 0 then cu_offbookBuy c + iv_offbookVolume bpl else cu_offbookBuy c);
          vs = (if iv_volume bpl > 0
                then upd_nth j (\<lambda>v. v\<lparr>cv_bidVolume := iv_volume bpl\<rparr>) vs else vs);
          sell = (if iv_volume spl > 0 then cu_sell c + iv_volume spl else cu_sell c);
          osell = (if iv_volume spl > 0 then cu_offbookSell c + iv_offbookVolume spl
                   else cu_offbookSell c);
          vs = (if iv_volume spl > 0
                then upd_nth i (\<lambda>v. v\<lparr>cv_askVolume := iv_volume spl\<rparr>) vs else vs);
          vs = upd_nth j (\<lambda>v. v\<lparr>cv_cumulativeBidVolume := buy, cv_cumulativeBidOffbook := obuy\<rparr>) vs;
          vs = upd_nth i (\<lambda>v. v\<lparr>cv_cumulativeAskVolume := sell, cv_cumulativeAskOffbook := osell\<rparr>) vs;
          tradable = (\<lambda>v. v\<lparr>cv_maxTradableAmount :=
                        min64 (cv_cumulativeAskVolume v) (cv_cumulativeBidVolume v)\<rparr>);
          (vs, mx) =
            (if j \<ge> half then
               (let vs = upd_nth j tradable (upd_nth i tradable vs)
                in (vs, max64 (cu_maxTradable c)
                          (max64 (cv_maxTradableAmount (vs ! i)) (cv_maxTradableAmount (vs ! j)))))
             else (vs, cu_maxTradable c))
      in \<lparr>cu_vols = vs, cu_sell = sell, cu_buy = buy, cu_maxTradable = mx,
          cu_offbookSell = osell, cu_offbookBuy = obuy\<rparr>)"

definition cumulate :: "ipvPriceLevel list \<Rightarrow> CumulativeVolumeLevel list \<Rightarrow> cumulation" where
  "cumulate ranged buf =
     fold (cumulateStep ranged) (rev [0..<length ranged])
       \<lparr>cu_vols = buf, cu_sell = 0, cu_buy = 0, cu_maxTradable = 0, cu_offbookSell = 0,
        cu_offbookBuy = 0\<rparr>"

definition GetCumulativePriceLevels ::
  "'s offbook \<Rightarrow> 's \<Rightarrow> Uint \<Rightarrow> Uint \<Rightarrow> IndicativePriceAndVolume
    \<Rightarrow> (string, CumulativeVolumeLevel list \<times> uint64 \<times> IndicativePriceAndVolume) go" where
  "GetCumulativePriceLevels offb st maxPrice minPrice ipv =
     (let crossedRegionChanged = (maxPrice \<noteq> iv_lastMaxPrice ipv \<or> minPrice \<noteq> iv_lastMinPrice ipv) in
      if \<not> iv_needsUpdate ipv \<and> \<not> crossedRegionChanged
      then Ret (iv_lastCumulativeVolumes ipv, iv_lastMaxTradable ipv, ipv)
      else
        gbind (case offb of
                 None \<Rightarrow> Ret ipv
               | Some src \<Rightarrow>
                   if crossedRegionChanged then updateOffbookState src st minPrice maxPrice ipv
                   else Ret ipv) (\<lambda>ipv.
        gbind (getLevelsWithinRange maxPrice minPrice ipv) (\<lambda>ranged.
          let n = length ranged;
              buf = (if length (iv_buf ipv) < n then replicate n zero_CumulativeVolumeLevel
                     else iv_buf ipv);
              c = cumulate ranged (take n buf)
          in Ret (cu_vols c, cu_maxTradable c,
               ipv\<lparr>iv_buf := cu_vols c @ drop n buf, iv_needsUpdate := False,
                   iv_lastMinPrice := minPrice, iv_lastMaxPrice := maxPrice,
                   iv_lastMaxTradable := cu_maxTradable c,
                   iv_lastCumulativeVolumes := cu_vols c\<rparr>))))"

section \<open>The orders of the off-book source\<close>

text \<open>
  \<open>extractParty\<close> runs over the expanded orders of one party and combines those that trade into one
  order; it answers whether the target volume has been reached.
\<close>

definition combineOrder :: "Side \<Rightarrow> Order option \<Rightarrow> Order \<Rightarrow> Order" where
  "combineOrder sd combined ord =
     (case combined of
        None \<Rightarrow> ord
      | Some c \<Rightarrow>
          c\<lparr>o_Size := o_Size c + o_Size ord, o_Remaining := o_Remaining c + o_Remaining ord,
            o_Price := (if sd = SideBuy then max (o_Price c) (o_Price ord)
                        else min (o_Price c) (o_Price ord))\<rparr>)"

fun extractParty ::
  "Uint \<Rightarrow> Side \<Rightarrow> uint64 \<Rightarrow> Order list \<Rightarrow> uint64 \<Rightarrow> Order option \<Rightarrow> Order option \<times> uint64 \<times> bool" where
  "extractParty price sd target [] volume combined = (combined, volume, False)"
| "extractParty price sd target (ord # ords) volume combined =
     (if (if sd = SideSell then o_Price ord > price else o_Price ord < price)
      then extractParty price sd target ords volume combined
      else
        (let combined = Some (combineOrder sd combined ord);
             volume = volume + o_Size ord
         in if volume = target then (combined, volume, True)
            else extractParty price sd target ords volume combined))"

fun extractParties ::
  "Uint \<Rightarrow> Side \<Rightarrow> uint64 \<Rightarrow> ipvGeneratedOffbook list \<Rightarrow> uint64 \<Rightarrow> Order list
    \<Rightarrow> (string, Order list) go" where
  "extractParties price sd target [] volume orders =
     (if volume \<noteq> target then Panic ''Failed to extract AMM orders for uncrossing'' else Ret orders)"
| "extractParties price sd target (g # gs) volume orders =
     (let oo = (if sd = SideSell then gn_sell g else gn_buy g);
          (combined, volume, finished) = extractParty price sd target oo volume None;
          orders = (case combined of None \<Rightarrow> orders | Some c \<Rightarrow> orders @ [c])
      in if finished then Ret orders else extractParties price sd target gs volume orders)"

definition ExtractOffbookOrders ::
  "Uint \<Rightarrow> Side \<Rightarrow> uint64 \<Rightarrow> IndicativePriceAndVolume \<Rightarrow> (string, Order list) go" where
  "ExtractOffbookOrders price sd target ipv =
     (if target = 0 then Ret []
      else extractParties price sd target
        (map (\<lambda>p. the (map_of (iv_generated ipv) p)) (sort (map fst (iv_generated ipv)))) 0 [])"

end
