(* ===== verification/Order_Book.thy ===== *)
theory Order_Book
  imports Indicative
begin

text \<open>
  The order book (\<^verbatim>\<open>core/matching/orderbook.go\<close>, \<^verbatim>\<open>pegged_orders.go\<close>, \<^verbatim>\<open>validation.go\<close>): its
  lookup tables, validation, best prices, and the operations of continuous trading. The code keeps
  one object per order and shares it between a level, the table of orders and its callers; objects
  are identified by the order's identifier, and a write to a shared object is written through to
  the places that hold it (\<open>storeOrders\<close>). The state of the off-book source, which the sides reach
  through a pointer, is the field \<open>b_offbook\<close>; its operations are the parameter \<open>src\<close>. The calls of
  \<^verbatim>\<open>peggedCountNotify\<close> are recorded in \<open>b_notified\<close>. Logging, the configuration mutex and the
  snapshot bookkeeping are left out.
\<close>

section \<open>Pegged orders\<close>

definition peg_Add :: "string \<Rightarrow> string list \<Rightarrow> string list" where
  "peg_Add oid ids = ids @ [oid]"

definition peg_Delete :: "string \<Rightarrow> string list \<Rightarrow> string list \<times> BookError option" where
  "peg_Delete oid ids =
     (case find_index (\<lambda>v. v = oid) ids of
        None \<Rightarrow> (ids, Some (ErrMsg ''unknow pegged order''))
      | Some idx \<Rightarrow> (remove_nth idx ids, None))"

definition peg_Exists :: "string \<Rightarrow> string list \<Rightarrow> bool" where
  "peg_Exists oid ids = list_ex (\<lambda>v. v = oid) ids"

section \<open>The book\<close>

record 's OrderBook =
  b_marketID :: string
  b_buy :: OrderBookSide
  b_sell :: OrderBookSide
  b_lastTradedPrice :: Uint
  b_latestTimestamp :: int64
  b_ordersByID :: "(string \<times> Order) list"
  b_ordersPerParty :: "(string \<times> string list) list"
  b_auction :: bool
  b_batchID :: uint64
  b_ipv :: "IndicativePriceAndVolume option"
  b_peggedOrders :: "string list"
  b_peggedOrdersCount :: uint64
  b_notified :: "int64 list"
  b_offbook :: 's

definition NewOrderBook :: "string \<Rightarrow> bool \<Rightarrow> 's \<Rightarrow> 's OrderBook" where
  "NewOrderBook marketID auction st =
     \<lparr>b_marketID = marketID, b_buy = \<lparr>s_side = SideBuy, s_levels = []\<rparr>,
      b_sell = \<lparr>s_side = SideSell, s_levels = []\<rparr>, b_lastTradedPrice = 0, b_latestTimestamp = 0,
      b_ordersByID = [], b_ordersPerParty = [], b_auction = auction, b_batchID = 0, b_ipv = None,
      b_peggedOrders = [], b_peggedOrdersCount = 0, b_notified = [], b_offbook = st\<rparr>"

definition getSide :: "Side \<Rightarrow> 's OrderBook \<Rightarrow> OrderBookSide" where
  "getSide sd b = (if sd = SideBuy then b_buy b else b_sell b)"

definition getOppositeSide :: "Side \<Rightarrow> 's OrderBook \<Rightarrow> OrderBookSide" where
  "getOppositeSide sd b = (if sd = SideBuy then b_sell b else b_buy b)"

definition setSide :: "Side \<Rightarrow> OrderBookSide \<Rightarrow> 's OrderBook \<Rightarrow> 's OrderBook" where
  "setSide sd s b = (if sd = SideBuy then b\<lparr>b_buy := s\<rparr> else b\<lparr>b_sell := s\<rparr>)"

definition setOppositeSide :: "Side \<Rightarrow> OrderBookSide \<Rightarrow> 's OrderBook \<Rightarrow> 's OrderBook" where
  "setOppositeSide sd s b = (if sd = SideBuy then b\<lparr>b_sell := s\<rparr> else b\<lparr>b_buy := s\<rparr>)"

section \<open>Lookup tables\<close>

definition idsOf :: "string \<Rightarrow> 's OrderBook \<Rightarrow> string list" where
  "idsOf party b = (case map_of (b_ordersPerParty b) party of None \<Rightarrow> [] | Some ids \<Rightarrow> ids)"

definition b_remove :: "Order \<Rightarrow> 's OrderBook \<Rightarrow> 's OrderBook" where
  "b_remove ord b =
     (let b = (if peg_Exists (o_ID ord) (b_peggedOrders b)
               then b\<lparr>b_peggedOrdersCount := b_peggedOrdersCount b - 1,
                      b_notified := b_notified b @ [-1],
                      b_peggedOrders := fst (peg_Delete (o_ID ord) (b_peggedOrders b))\<rparr>
               else b)
      in b\<lparr>b_ordersByID := assoc_del (o_ID ord) (b_ordersByID b),
           b_ordersPerParty :=
             (case map_of (b_ordersPerParty b) (o_Party ord) of
                None \<Rightarrow> b_ordersPerParty b
              | Some ids \<Rightarrow> assoc_put (o_Party ord) (filter (\<lambda>oid. oid \<noteq> o_ID ord) ids)
                              (b_ordersPerParty b))\<rparr>)"

definition b_add :: "Order \<Rightarrow> 's OrderBook \<Rightarrow> (string, 's OrderBook) go" where
  "b_add ord b =
     (if o_GeneratedOffbook ord then Panic ''Can not add offbook order to the orderbook''
      else
        (let b = b\<lparr>b_ordersByID := assoc_put (o_ID ord) ord (b_ordersByID b),
                   b_ordersPerParty := assoc_put (o_Party ord)
                     (if o_ID ord \<in> set (idsOf (o_Party ord) b) then idsOf (o_Party ord) b
                      else idsOf (o_Party ord) b @ [o_ID ord]) (b_ordersPerParty b)\<rparr>
         in Ret (if o_PeggedOrder ord \<noteq> None
                 then b\<lparr>b_peggedOrders := peg_Add (o_ID ord) (b_peggedOrders b),
                        b_peggedOrdersCount := b_peggedOrdersCount b + 1,
                        b_notified := b_notified b @ [1]\<rparr>
                 else b)))"

definition b_cleanup :: "'s OrderBook \<Rightarrow> 's OrderBook" where
  "b_cleanup b =
     b\<lparr>b_ordersByID := [], b_ordersPerParty := [], b_ipv := None, b_peggedOrders := [],
       b_notified := b_notified b @ [i64 (- int64_of (b_peggedOrdersCount b))],
       b_peggedOrdersCount := 0\<rparr>"

text \<open>
  Orders that an operation has changed are written through to the table and to the levels of both
  sides, wherever an order with the same identifier is held.
\<close>

definition latest :: "Order list \<Rightarrow> Order \<Rightarrow> Order" where
  "latest ords ord = (case find (\<lambda>x. o_ID x = o_ID ord) (rev ords) of None \<Rightarrow> ord | Some x \<Rightarrow> x)"

definition storeTable :: "Order list \<Rightarrow> 's OrderBook \<Rightarrow> 's OrderBook" where
  "storeTable ords b =
     b\<lparr>b_ordersByID := map (\<lambda>(oid, ord). (oid, latest ords ord)) (b_ordersByID b)\<rparr>"

definition storeSide :: "Order list \<Rightarrow> OrderBookSide \<Rightarrow> OrderBookSide" where
  "storeSide ords s =
     s\<lparr>s_levels := map (\<lambda>l. l\<lparr>pl_orders := map (latest ords) (pl_orders l)\<rparr>) (s_levels s)\<rparr>"

definition storeOrders :: "Order list \<Rightarrow> 's OrderBook \<Rightarrow> 's OrderBook" where
  "storeOrders ords b =
     (storeTable ords b)\<lparr>b_buy := storeSide ords (b_buy b), b_sell := storeSide ords (b_sell b)\<rparr>"

section \<open>Validation\<close>

definition validateOrder :: "Order \<Rightarrow> 's OrderBook \<Rightarrow> OrderError option" where
  "validateOrder ord b =
     (if o_MarketID ord \<noteq> b_marketID b then Some OrderErrorInvalidMarketID
      else if o_Type ord = OrderTypeUnspecified then Some OrderErrorInvalidType
      else if o_Remaining ord = 0 then Some OrderErrorInvalidRemainingSize
      else if o_TimeInForce ord = OrderTimeInForceGTT \<and> o_ExpiresAt ord = 0
      then Some OrderErrorInvalidExpirationDatetime
      else if o_Party ord = [] then Some OrderErrorInvalidParty
      else if o_Size ord = 0 then Some OrderErrorInvalidSize
      else if o_Remaining ord > o_Size ord then Some OrderErrorInvalidRemainingSize
      else if o_Type ord = OrderTypeNetwork \<and> o_TimeInForce ord \<noteq> OrderTimeInForceFOK
      then Some OrderErrorInvalidPersistance
      else if o_TimeInForce ord = OrderTimeInForceGTT \<and> o_Type ord \<noteq> OrderTypeLimit
      then Some OrderErrorInvalidPersistance
      else if o_Type ord = OrderTypeMarket
        \<and> (o_TimeInForce ord = OrderTimeInForceGTT \<or> o_TimeInForce ord = OrderTimeInForceGTC)
      then Some OrderErrorInvalidPersistance
      else if b_auction b \<and> o_TimeInForce ord = OrderTimeInForceGFN
      then Some OrderErrorInvalidTimeInForce
      else if \<not> b_auction b \<and> o_TimeInForce ord = OrderTimeInForceGFA
      then Some OrderErrorInvalidTimeInForce
      else if o_ExpiresAt ord > 0 \<and> o_Type ord = OrderTypeMarket
      then Some OrderErrorInvalidExpirationDatetime
      else None)"

definition isHexDigit :: "char \<Rightarrow> bool" where
  "isHexDigit c \<longleftrightarrow> (CHR ''0'' \<le> c \<and> c \<le> CHR ''9'') \<or> (CHR ''a'' \<le> c \<and> c \<le> CHR ''f'')
     \<or> (CHR ''A'' \<le> c \<and> c \<le> CHR ''F'')"

definition validateOrderID :: "string \<Rightarrow> OrderError option" where
  "validateOrderID orderID =
     (if \<not> (list_all isHexDigit orderID \<and> even (length orderID)) \<or> length orderID \<noteq> 64
      then Some OrderErrorInvalidOrderID else None)"

section \<open>Best prices\<close>

text \<open>
  The book's best price and volume compared with those of the off-book source. A source that
  reports volume reports a price too; a nil price there would be dereferenced.
\<close>

definition offBid :: "'s offbook \<Rightarrow> 's \<Rightarrow> (Uint option \<times> uint64) option" where
  "offBid src st = map_option (\<lambda>s. let (p, v, _, _) = ob_BestPricesAndVolumes s st in (p, v)) src"

definition offAsk :: "'s offbook \<Rightarrow> 's \<Rightarrow> (Uint option \<times> uint64) option" where
  "offAsk src st = map_option (\<lambda>s. let (_, _, p, v) = ob_BestPricesAndVolumes s st in (p, v)) src"

definition orOffbook ::
  "(Uint \<Rightarrow> Uint \<Rightarrow> bool) \<Rightarrow> (Uint option \<times> uint64) option \<Rightarrow> Uint \<Rightarrow> BookError option
    \<Rightarrow> (string, Uint \<times> BookError option) go" where
  "orOffbook better off price err =
     (case off of
        None \<Rightarrow> Ret (price, err)
      | Some (oPrice, volume) \<Rightarrow>
          if volume = 0 then Ret (price, err)
          else
            (case oPrice of
               None \<Rightarrow> Panic ''nil pointer dereference''
             | Some p \<Rightarrow> if err \<noteq> None \<or> better p price then Ret (p, None) else Ret (price, err)))"

definition orOffbookVolume ::
  "(Uint \<Rightarrow> Uint \<Rightarrow> bool) \<Rightarrow> (Uint option \<times> uint64) option \<Rightarrow> Uint \<times> uint64 \<times> BookError option
    \<Rightarrow> (string, Uint \<times> uint64 \<times> BookError option) go" where
  "orOffbookVolume better off pve =
     (let (price, volume, err) = pve in
      case off of
        None \<Rightarrow> Ret pve
      | Some (oPrice, oVolume) \<Rightarrow>
          if oVolume = 0 then Ret pve
          else
            (case oPrice of
               None \<Rightarrow> Panic ''nil pointer dereference''
             | Some p \<Rightarrow>
                 if err \<noteq> None \<or> better p price then Ret (p, oVolume, None)
                 else if err = None \<and> p = price then Ret (p, oVolume + volume, None)
                 else Ret pve))"

definition BestBidPriceAndVolume ::
  "'s offbook \<Rightarrow> 's OrderBook \<Rightarrow> (string, Uint \<times> uint64 \<times> BookError option) go" where
  "BestBidPriceAndVolume src b =
     orOffbookVolume (>) (offBid src (b_offbook b)) (BestPriceAndVolume (b_buy b))"

definition BestOfferPriceAndVolume ::
  "'s offbook \<Rightarrow> 's OrderBook \<Rightarrow> (string, Uint \<times> uint64 \<times> BookError option) go" where
  "BestOfferPriceAndVolume src b =
     orOffbookVolume (<) (offAsk src (b_offbook b)) (BestPriceAndVolume (b_sell b))"

definition GetBestBidPrice :: "'s offbook \<Rightarrow> 's OrderBook \<Rightarrow> (string, Uint \<times> BookError option) go" where
  "GetBestBidPrice src b =
     (let (price, _, err) = BestPriceAndVolume (b_buy b)
      in orOffbook (>) (offBid src (b_offbook b)) price err)"

definition GetBestAskPrice :: "'s offbook \<Rightarrow> 's OrderBook \<Rightarrow> (string, Uint \<times> BookError option) go" where
  "GetBestAskPrice src b =
     (let (price, _, err) = BestPriceAndVolume (b_sell b)
      in orOffbook (<) (offAsk src (b_offbook b)) price err)"

definition GetBestStaticBidPrice ::
  "'s offbook \<Rightarrow> 's OrderBook \<Rightarrow> (string, Uint \<times> BookError option) go" where
  "GetBestStaticBidPrice src b =
     (let (price, err) = BestStaticPrice (b_buy b)
      in orOffbook (>) (offBid src (b_offbook b)) price err)"

definition GetBestStaticAskPrice ::
  "'s offbook \<Rightarrow> 's OrderBook \<Rightarrow> (string, Uint \<times> BookError option) go" where
  "GetBestStaticAskPrice src b =
     (let (price, err) = BestStaticPrice (b_sell b)
      in orOffbook (<) (offAsk src (b_offbook b)) price err)"

definition GetBestStaticBidPriceAndVolume ::
  "'s offbook \<Rightarrow> 's OrderBook \<Rightarrow> (string, Uint \<times> uint64 \<times> BookError option) go" where
  "GetBestStaticBidPriceAndVolume src b =
     orOffbookVolume (>) (offBid src (b_offbook b)) (BestStaticPriceAndVolume (b_buy b))"

definition GetBestStaticAskPriceAndVolume ::
  "'s offbook \<Rightarrow> 's OrderBook \<Rightarrow> (string, Uint \<times> uint64 \<times> BookError option) go" where
  "GetBestStaticAskPriceAndVolume src b =
     orOffbookVolume (<) (offAsk src (b_offbook b)) (BestStaticPriceAndVolume (b_sell b))"

section \<open>Queries\<close>

definition GetOrderBookLevelCount :: "'s OrderBook \<Rightarrow> uint64" where
  "GetOrderBookLevelCount b = of_nat (length (s_levels (b_buy b)) + length (s_levels (b_sell b)))"

definition GetTotalNumberOfOrders :: "'s OrderBook \<Rightarrow> int64" where
  "GetTotalNumberOfOrders b = i64 (getOrderCount (b_buy b) + getOrderCount (b_sell b))"

definition GetTotalVolume :: "'s OrderBook \<Rightarrow> int64" where
  "GetTotalVolume b = i64 (getTotalVolume (b_buy b) + getTotalVolume (b_sell b))"

definition GetVolumeAtPrice :: "Uint \<Rightarrow> Side \<Rightarrow> 's OrderBook \<Rightarrow> uint64" where
  "GetVolumeAtPrice price sd b = sum_list (map pl_volume (getLevelsForPrice price (getSide sd b)))"

definition GetOrderByID :: "string \<Rightarrow> 's OrderBook \<Rightarrow> BookError + Order" where
  "GetOrderByID orderID b =
     (case validateOrderID orderID of
        Some err \<Rightarrow> Inl (ErrOrder err)
      | None \<Rightarrow>
          (case map_of (b_ordersByID b) orderID of
             None \<Rightarrow> Inl ErrOrderDoesNotExist
           | Some ord \<Rightarrow> Inr ord))"

text \<open>
  An identifier without an order gives a nil entry; sorting two or more entries compares every one
  of them and dereferences it.
\<close>

definition GetOrdersPerParty :: "string \<Rightarrow> 's OrderBook \<Rightarrow> (string, Order option list) go" where
  "GetOrdersPerParty party b =
     (let orders = map (map_of (b_ordersByID b)) (idsOf party b) in
      if length orders \<ge> 2 \<and> None \<in> set orders then Panic ''nil pointer dereference''
      else Ret (sort_key (\<lambda>x. case x of None \<Rightarrow> [] | Some ord \<Rightarrow> o_ID ord) orders))"

fun activePegged :: "(string \<times> Order) list \<Rightarrow> string list \<Rightarrow> (string, string list) go" where
  "activePegged table [] = Ret []"
| "activePegged table (oid # ids) =
     (case map_of table oid of
        None \<Rightarrow> activePegged table ids
      | Some ord \<Rightarrow>
          if o_Status ord = OrderStatusParked
          then Panic ''unexpected parked pegged order in order book''
          else gbind (activePegged table ids) (\<lambda>pegged. Ret (o_ID ord # pegged)))"

definition GetActivePeggedOrderIDs :: "'s OrderBook \<Rightarrow> (string, string list) go" where
  "GetActivePeggedOrderIDs b = activePegged (b_ordersByID b) (b_peggedOrders b)"

definition onlyPegged :: "PeggedReference \<Rightarrow> OrderBookSide \<Rightarrow> bool" where
  "onlyPegged ref s \<longleftrightarrow> s_levels s \<noteq> [] \<and>
     list_all (\<lambda>ord. case o_PeggedOrder ord of None \<Rightarrow> False | Some peg \<Rightarrow> peg_Reference peg = ref)
       (pl_orders (last (s_levels s)))"

definition CheckBook :: "'s offbook \<Rightarrow> 's OrderBook \<Rightarrow> (string, bool) go" where
  "CheckBook src b =
     (let checkOBB = onlyPegged PeggedReferenceBestBid (b_buy b);
          checkOBS = onlyPegged PeggedReferenceBestAsk (b_sell b)
      in if checkOBB \<or> checkOBS then
           (case src of
              None \<Rightarrow> Panic ''nil pointer dereference''
            | Some s \<Rightarrow>
                (let (bb, bbv, bs, bsv) = ob_BestPricesAndVolumes s (b_offbook b)
                 in if checkOBB \<and> (bb = None \<or> bb = Some 0 \<or> bbv = 0) then Ret False
                    else if checkOBS \<and> (bs = None \<or> bs = Some 0 \<or> bsv = 0) then Ret False
                    else Ret True))
         else Ret True)"

text \<open>
  \<^verbatim>\<open>VWAP\<close>: division of decimals and the conversion of a decimal to an unsigned integer belong to a
  third-party package and are parameters.
\<close>

fun vwapLoop :: "PriceLevel list \<Rightarrow> uint64 \<Rightarrow> Uint \<Rightarrow> uint64 \<times> Uint" where
  "vwapLoop [] remaining price = (remaining, price)"
| "vwapLoop (l # ls) remaining price =
     (if remaining = 0 then (remaining, price)
      else
        (let sz = (if pl_volume l < remaining then pl_volume l else remaining)
         in vwapLoop ls (remaining - sz) (price + pl_price l * NewUint sz)))"

definition VWAP ::
  "(rat \<Rightarrow> rat \<Rightarrow> rat) \<Rightarrow> (rat \<Rightarrow> Uint) \<Rightarrow> uint64 \<Rightarrow> Side \<Rightarrow> 's OrderBook \<Rightarrow> BookError + Uint" where
  "VWAP ddiv toUint volume sd b =
     (let levels = rev (s_levels (if sd = SideSell then b_sell b else b_buy b)) in
      if levels = [] then Inl (ErrMsg ''no orders in book for side'')
      else if volume = 0 then Inr (pl_price (hd levels))
      else
        (let (remaining, price) = vwapLoop levels volume 0 in
         if remaining = 0
         then Inr (toUint (ddiv (of_int (uint price)) (of_int (int64_of volume))))
         else Inl (ErrMsg ''insufficient volume in order book'')))"

end
