(* ===== verification/Book_Trading.thy ===== *)
theory Book_Trading
  imports Order_Book
begin

text \<open>
  The operations of the order book that change it order by order (\<^verbatim>\<open>core/matching/orderbook.go\<close>):
  submitting, cancelling, amending, replacing and removing orders, in continuous trading and while
  an auction collects orders. Each returns its result and the new book; \<open>fuel\<close> bounds the loop over
  the levels in \<open>s_uncross\<close>, \<open>ddiv\<close> is the division of decimals.
\<close>

section \<open>Deleting and cancelling\<close>

definition removeIpv ::
  "Uint \<Rightarrow> uint64 \<Rightarrow> Side \<Rightarrow> 's OrderBook \<Rightarrow> (string, 's OrderBook) go" where
  "removeIpv price volume sd b =
     (case b_ipv b of
        None \<Rightarrow> Panic ''nil pointer dereference''
      | Some ipv \<Rightarrow> gbind (RemoveVolumeAtPrice price volume sd False ipv) (\<lambda>ipv. Ret (b\<lparr>b_ipv := Some ipv\<rparr>)))"

definition addIpv ::
  "Uint \<Rightarrow> uint64 \<Rightarrow> Side \<Rightarrow> 's OrderBook \<Rightarrow> (string, 's OrderBook) go" where
  "addIpv price volume sd b =
     (case b_ipv b of
        None \<Rightarrow> Panic ''nil pointer dereference''
      | Some ipv \<Rightarrow> Ret (b\<lparr>b_ipv := Some (AddVolumeAtPrice price volume sd False ipv)\<rparr>))"

definition DeleteOrder ::
  "Order \<Rightarrow> 's OrderBook \<Rightarrow> (string, (BookError + Order) \<times> 's OrderBook) go" where
  "DeleteOrder ord b =
     gbind (RemoveOrder ord (getSide (o_Side ord) b)) (\<lambda>(res, s).
       case res of
         Inl _ \<Rightarrow> Ret (Inl (ErrOrder OrderErrorRemovalFailure), b)
       | Inr dorder \<Rightarrow>
           (let b = b_remove ord (setSide (o_Side ord) s b) in
            if b_auction b then
              gbind (removeIpv (o_Price dorder) (TrueRemaining dorder) (o_Side dorder) b) (\<lambda>b.
                Ret (Inr dorder, b))
            else Ret (Inr dorder, b)))"

definition CancelOrder ::
  "Order \<Rightarrow> 's OrderBook \<Rightarrow> (string, (BookError + Order) \<times> 's OrderBook) go" where
  "CancelOrder ord b =
     (if o_MarketID ord \<noteq> b_marketID b then Panic ''Market ID mismatch''
      else
        (case validateOrderID (o_ID ord) of
           Some err \<Rightarrow> Ret (Inl (ErrOrder err), b)
         | None \<Rightarrow>
             gbind (DeleteOrder ord b) (\<lambda>(res, b).
               case res of
                 Inl err \<Rightarrow> Ret (Inl err, b)
               | Inr dorder \<Rightarrow> Ret (Inr (dorder\<lparr>o_Status := OrderStatusCancelled\<rparr>), b))))"

fun cancelAll ::
  "Order option list \<Rightarrow> 's OrderBook \<Rightarrow> (string, (BookError + Order list) \<times> 's OrderBook) go" where
  "cancelAll [] b = Ret (Inr [], b)"
| "cancelAll (None # ords) b = Panic ''nil pointer dereference''"
| "cancelAll (Some ord # ords) b =
     gbind (CancelOrder ord b) (\<lambda>(res, b).
       case res of
         Inl err \<Rightarrow> Ret (Inl err, b)
       | Inr conf \<Rightarrow>
           gbind (cancelAll ords b) (\<lambda>(res, b).
             Ret (case res of Inl err \<Rightarrow> Inl err | Inr confs \<Rightarrow> Inr (conf # confs), b)))"

definition CancelAllOrders ::
  "string \<Rightarrow> 's OrderBook \<Rightarrow> (string, (BookError + Order list) \<times> 's OrderBook) go" where
  "CancelAllOrders party b = gbind (GetOrdersPerParty party b) (\<lambda>orders. cancelAll orders b)"

text \<open>The book's \<^verbatim>\<open>RemoveOrder\<close> parks the order.\<close>

definition b_RemoveOrder ::
  "string \<Rightarrow> 's OrderBook \<Rightarrow> (string, (BookError + Order) \<times> 's OrderBook) go" where
  "b_RemoveOrder oid b =
     (case GetOrderByID oid b of
        Inl err \<Rightarrow> Ret (Inl err, b)
      | Inr ord \<Rightarrow>
          gbind (DeleteOrder ord b) (\<lambda>(res, b).
            case res of
              Inl err \<Rightarrow> Ret (Inl err, b)
            | Inr dorder \<Rightarrow> Ret (Inr (dorder\<lparr>o_Status := OrderStatusParked\<rparr>), b)))"

fun cancelDistressed :: "Order list \<Rightarrow> 's OrderBook \<Rightarrow> (string, Order list \<times> 's OrderBook) go" where
  "cancelDistressed [] b = Ret ([], b)"
| "cancelDistressed (ord # ords) b =
     gbind (CancelOrder ord b) (\<lambda>(res, b).
       case res of
         Inl err \<Rightarrow> Panic ''Failed to cancel a given order for party''
       | Inr conf \<Rightarrow>
           gbind (cancelDistressed ords b) (\<lambda>(rm, b).
             Ret (conf\<lparr>o_Status := OrderStatusStopped\<rparr> # rm, b)))"

definition ordersOfParty :: "string \<Rightarrow> 's OrderBook \<Rightarrow> Order list" where
  "ordersOfParty party b =
     concat (map (getOrdersByParty party) (s_levels (b_buy b)))
     @ concat (map (getOrdersByParty party) (s_levels (b_sell b)))"

fun RemoveDistressedOrders ::
  "string list \<Rightarrow> 's OrderBook \<Rightarrow> (string, Order list \<times> 's OrderBook) go" where
  "RemoveDistressedOrders [] b = Ret ([], b)"
| "RemoveDistressedOrders (party # parties) b =
     gbind (cancelDistressed (ordersOfParty party b) b) (\<lambda>(rm, b).
       gbind (RemoveDistressedOrders parties b) (\<lambda>(rm', b). Ret (rm @ rm', b)))"

definition Settled :: "'s OrderBook \<Rightarrow> Order list \<times> 's OrderBook" where
  "Settled b =
     (let orders = map (\<lambda>(_, ord). ord\<lparr>o_Status := OrderStatusStopped\<rparr>) (b_ordersByID b);
          b' = b_cleanup b
      in (sort_key o_ID orders,
          b'\<lparr>b_buy := s_cleanup (b_buy b'), b_sell := s_cleanup (b_sell b')\<rparr>))"

section \<open>Amending\<close>

definition AmendOrder ::
  "Order option \<Rightarrow> Order \<Rightarrow> 's OrderBook \<Rightarrow> (string, BookError option \<times> 's OrderBook) go" where
  "AmendOrder originalOrder amendedOrder b =
     (case originalOrder of
        None \<Rightarrow> Panic ''invalid input, orginalOrder is nil''
      | Some original \<Rightarrow>
          if o_CreatedAt original \<noteq> o_CreatedAt amendedOrder
          then Ret (Some (ErrOrder OrderErrorOutOfSequence), b)
          else
            (case validateOrder amendedOrder b of
               Some err \<Rightarrow> Ret (Some (ErrOrder err), b)
             | None \<Rightarrow>
                 gbind (s_amendOrder amendedOrder (getSide (o_Side amendedOrder) b))
                   (\<lambda>(volumeChange, err, s).
                     if err \<noteq> None then Ret (err, b)
                     else
                       (let b = setSide (o_Side amendedOrder) s b;
                            b = b\<lparr>b_ordersByID := assoc_put (o_ID amendedOrder) amendedOrder (b_ordersByID b)\<rparr>
                        in if \<not> b_auction b then Ret (None, b)
                           else if volumeChange < 0 then
                             gbind (removeIpv (o_Price amendedOrder) (uint64_of (i64 (- volumeChange)))
                                      (o_Side amendedOrder) b) (\<lambda>b. Ret (None, b))
                           else if volumeChange > 0 then
                             gbind (addIpv (o_Price amendedOrder) (uint64_of volumeChange)
                                      (o_Side amendedOrder) b) (\<lambda>b. Ret (None, b))
                           else Ret (None, b)))))"

section \<open>Submitting\<close>

definition icebergRefresh :: "Order \<Rightarrow> 's OrderBook \<Rightarrow> (string, Order \<times> 's OrderBook) go" where
  "icebergRefresh ord b =
     (if \<not> IcebergNeedsRefresh ord then Ret (ord, b)
      else
        gbind (DeleteOrder ord b) (\<lambda>(res, b).
          case res of
            Inl err \<Rightarrow> Panic ''could not delete iceberg order during refresh''
          | Inr _ \<Rightarrow>
              (let ord = (SetIcebergPeaks ord)\<lparr>o_Status := OrderStatusActive\<rparr>;
                   b = setSide (o_Side ord) (s_addOrder ord (getSide (o_Side ord) b)) b
               in gbind (b_add ord b) (\<lambda>b. Ret (ord, b)))))"

fun refreshImpacted :: "Order list \<Rightarrow> 's OrderBook \<Rightarrow> (string, Order list \<times> 's OrderBook) go" where
  "refreshImpacted [] b = Ret ([], b)"
| "refreshImpacted (ord # ords) b =
     gbind (icebergRefresh ord b) (\<lambda>(ord, b).
       let (ord, b) =
             (if o_Remaining ord = 0
              then (let ord = ord\<lparr>o_Status := OrderStatusFilled\<rparr> in (ord, b_remove ord (storeOrders [ord] b)))
              else (ord, b))
       in gbind (refreshImpacted ords b) (\<lambda>(ords, b). Ret (ord # ords, b)))"

text \<open>The status of the submitted order after uncrossing, before wash trades are looked at.\<close>

definition submittedStatus :: "Order \<Rightarrow> Order" where
  "submittedStatus ord =
     (let ord = (if o_Remaining ord = 0 then ord\<lparr>o_Status := OrderStatusFilled\<rparr> else ord);
          ord = (if o_TimeInForce ord = OrderTimeInForceIOC \<and> o_Remaining ord > 0
                 then ord\<lparr>o_Status := (if o_Remaining ord = o_Size ord then OrderStatusStopped
                                       else OrderStatusPartiallyFilled)\<rparr>
                 else ord)
      in if o_TimeInForce ord = OrderTimeInForceFOK \<and> o_Remaining ord = o_Size ord
         then ord\<lparr>o_Status := OrderStatusStopped\<rparr> else ord)"

definition washStatus :: "BookError option \<Rightarrow> Order \<Rightarrow> Order" where
  "washStatus err ord =
     (if err = Some ErrWashTrade
      then ord\<lparr>o_Status := (if o_Size ord > o_Remaining ord then OrderStatusPartiallyFilled
                            else OrderStatusStopped),
               o_Reason := OrderErrorSelfTrading\<rparr>
      else ord)"

text \<open>The uncrossing with the opposite side, in continuous trading only.\<close>

definition submitUncross ::
  "nat \<Rightarrow> (rat \<Rightarrow> rat \<Rightarrow> rat) \<Rightarrow> 's offbook \<Rightarrow> Order \<Rightarrow> 's OrderBook
    \<Rightarrow> (string, Order \<times> Trade list \<times> Order list \<times> BookError option \<times> 's OrderBook) go" where
  "submitUncross fuel ddiv src ord b =
     (if b_auction b then Ret (ord, [], [], None, b)
      else
        gbind (s_uncross fuel ddiv src ord True (getOppositeSide (o_Side ord) b) (b_offbook b)) (\<lambda>u.
          let b = storeTable (un_impacted u) (setOppositeSide (o_Side ord) (un_side u) b)
          in Ret (un_agg u, un_trades u, un_impacted u, un_err u,
                  b\<lparr>b_offbook := un_st u,
                    b_lastTradedPrice := (if un_lastPrice u \<noteq> 0 then un_lastPrice u
                                          else b_lastTradedPrice b)\<rparr>)))"

text \<open>
  The order rests on its side if it is persistent. The level holds the order object itself, so the
  status that the code sets afterwards shows there too.
\<close>

definition submitRest :: "Order \<Rightarrow> BookError option \<Rightarrow> 's OrderBook \<Rightarrow> (string, Order \<times> 's OrderBook) go" where
  "submitRest ord err b =
     (if IsPersistent ord \<and> err = None then
        (let ord = (if o_IcebergOrder ord \<noteq> None \<and> o_Status ord = OrderStatusActive
                    then SetIcebergPeaks ord else ord);
             ord = submittedStatus ord;
             b = setSide (o_Side ord) (s_addOrder ord (getSide (o_Side ord) b)) b
         in gbind (if b_auction b then addIpv (o_Price ord) (TrueRemaining ord) (o_Side ord) b else Ret b)
              (\<lambda>b. Ret (ord, b)))
      else Ret (submittedStatus ord, b))"

definition SubmitOrder ::
  "nat \<Rightarrow> (rat \<Rightarrow> rat \<Rightarrow> rat) \<Rightarrow> 's offbook \<Rightarrow> Order \<Rightarrow> 's OrderBook
    \<Rightarrow> (string, (BookError + OrderConfirmation) \<times> 's OrderBook) go" where
  "SubmitOrder fuel ddiv src ord b =
     (case validateOrder ord b of
        Some err \<Rightarrow> Ret (Inl (ErrOrder err), b)
      | None \<Rightarrow>
          if map_of (b_ordersByID b) (o_ID ord) \<noteq> None
          then Panic ''an order in the book already exists with the same ID''
          else
            (let b = b\<lparr>b_latestTimestamp := max (o_CreatedAt ord) (b_latestTimestamp b)\<rparr>;
                 ord = ord\<lparr>o_BatchID := b_batchID b\<rparr>
             in gbind (submitUncross fuel ddiv src ord b) (\<lambda>(ord, trades, impacted, err, b).
                  gbind (submitRest ord err b) (\<lambda>(ord, b).
                    gbind (refreshImpacted impacted b) (\<lambda>(impacted, b).
                      let ord = washStatus err ord
                      in gbind (if o_Status ord = OrderStatusActive then b_add ord b else Ret b) (\<lambda>b.
                           Ret (Inr \<lparr>oc_Order = ord, oc_Trades = trades, oc_PassiveOrdersAffected = impacted\<rparr>,
                                if b_auction b then b
                                else b\<lparr>b_offbook := uncrossFinished src (b_offbook b)\<rparr>)))))))"

definition ReplaceOrder ::
  "nat \<Rightarrow> (rat \<Rightarrow> rat \<Rightarrow> rat) \<Rightarrow> 's offbook \<Rightarrow> Order \<Rightarrow> Order \<Rightarrow> 's OrderBook
    \<Rightarrow> (string, (BookError + OrderConfirmation) \<times> 's OrderBook) go" where
  "ReplaceOrder fuel ddiv src rm rpl b =
     gbind (CancelOrder rm b) (\<lambda>(res, b).
       case res of
         Inl err \<Rightarrow> Ret (Inl err, b)
       | Inr _ \<Rightarrow> SubmitOrder fuel ddiv src rpl b)"

definition ReSubmitSpecialOrders ::
  "'s offbook \<Rightarrow> Order \<Rightarrow> 's OrderBook \<Rightarrow> (string, Order \<times> 's OrderBook) go" where
  "ReSubmitSpecialOrders src ord b =
     (if o_PeggedOrder ord = None then Panic ''only pegged orders allowed''
      else
        (let ord = ord\<lparr>o_BatchID := b_batchID b\<rparr> in
         gbind (case o_Side ord of
                  SideBuy \<Rightarrow>
                    gbind (GetBestAskPrice src b) (\<lambda>(price, err).
                      if err = None \<and> price \<le> o_Price ord
                      then Panic ''re submit special order would cross'' else Ret ())
                | SideSell \<Rightarrow>
                    gbind (GetBestBidPrice src b) (\<lambda>(price, err).
                      if err = None \<and> price \<ge> o_Price ord
                      then Panic ''re submit special order would cross'' else Ret ())
                | SideUnspecified \<Rightarrow> Panic ''invalid order side'') (\<lambda>_.
           gbind (b_add ord (setSide (o_Side ord) (s_addOrder ord (getSide (o_Side ord) b)) b)) (\<lambda>b.
             Ret (ord, b)))))"

text \<open>
  The trades an order would make: a wash trade is not an error here. The latest timestamp is
  updated although nothing is submitted.
\<close>

definition GetTrades ::
  "(rat \<Rightarrow> rat \<Rightarrow> rat) \<Rightarrow> 's offbook \<Rightarrow> Order \<Rightarrow> 's OrderBook
    \<Rightarrow> (string, Trade list \<times> BookError option \<times> 's OrderBook) go" where
  "GetTrades ddiv src ord b =
     (if b_auction b then Ret ([], None, b)
      else
        (case validateOrder ord b of
           Some err \<Rightarrow> Ret ([], Some (ErrOrder err), b)
         | None \<Rightarrow>
             (let b = b\<lparr>b_latestTimestamp := max (o_CreatedAt ord) (b_latestTimestamp b)\<rparr> in
              gbind (s_fakeUncross ddiv src ord True (getOppositeSide (o_Side ord) b) (b_offbook b))
                (\<lambda>(trades, err, st).
                  let b = b\<lparr>b_offbook := st\<rparr> in
                  if err \<noteq> None \<and> err \<noteq> Some ErrWashTrade then Ret (trades, err, b)
                  else Ret (trades, None, b)))))"

end
