(* ===== verification/Book_Auction.thy ===== *)
theory Book_Auction
  imports Book_Trading
begin

text \<open>
  The order book in an auction (\<^verbatim>\<open>core/matching/orderbook.go\<close>): entering and leaving, the indicative
  price and volume, the check whether the book can be uncrossed, and the uncrossing. The objects of
  the orders that an uncrossing changes are shared between several confirmations; \<open>latest\<close> reads
  their current value by identifier. Expanded off-book orders are fresh objects.
\<close>

section \<open>The indicative price and volume\<close>

record ipvResult =
  ir_price :: Uint
  ir_side :: Side
  ir_volume :: uint64
  ir_offbookVolume :: uint64
  ir_vmrMin :: "Uint option"
  ir_vmrMax :: "Uint option"

definition buildCumulativePriceLevels ::
  "'s offbook \<Rightarrow> 's OrderBook
    \<Rightarrow> (string, (BookError + CumulativeVolumeLevel list \<times> uint64) \<times> 's OrderBook) go" where
  "buildCumulativePriceLevels src b =
     gbind (GetBestBidPrice src b) (\<lambda>(bestBid, err).
       if err \<noteq> None then Ret (Inl ErrNoBestBid, b)
       else
         gbind (GetBestAskPrice src b) (\<lambda>(bestAsk, err).
           if err \<noteq> None then Ret (Inl ErrNoBestAsk, b)
           else if bestBid < bestAsk \<or> bestBid = 0 \<or> bestAsk = 0 then Ret (Inl ErrNotCrossed, b)
           else
             (case b_ipv b of
                None \<Rightarrow> Panic ''nil pointer dereference''
              | Some ipv \<Rightarrow>
                  gbind (GetCumulativePriceLevels src (b_offbook b) bestBid bestAsk ipv)
                    (\<lambda>(vols, mx, ipv). Ret (Inr (vols, mx), b\<lparr>b_ipv := Some ipv\<rparr>)))))"

definition tradablePrices :: "CumulativeVolumeLevel list \<Rightarrow> uint64 \<Rightarrow> Uint list" where
  "tradablePrices vols mx = map cv_price (filter (\<lambda>v. cv_maxTradableAmount v = mx) vols)"

text \<open>The mean of the outermost prices; the sum wraps at 256 bits.\<close>

definition midPrice :: "Uint list \<Rightarrow> Uint" where
  "midPrice prices = (if prices = [] then 0 else Uint_Div (last prices + hd prices) 2)"

text \<open>The side that is filled exactly, with the off-book volume it then has.\<close>

fun uncrossingSide :: "int64 \<Rightarrow> CumulativeVolumeLevel list \<Rightarrow> Side \<times> uint64" where
  "uncrossingSide ordersToFill [] = (SideUnspecified, 0)"
| "uncrossingSide ordersToFill (v # vs) =
     (let ordersToFill = i64 (ordersToFill - int64_of (cv_bidVolume v)) in
      if ordersToFill = 0 then (SideBuy, cv_cumulativeBidOffbook v)
      else if ordersToFill < 0 then (SideSell, cv_cumulativeAskOffbook v)
      else uncrossingSide ordersToFill vs)"

definition GetIndicativePriceAndVolume ::
  "'s offbook \<Rightarrow> 's OrderBook \<Rightarrow> (string, ipvResult \<times> 's OrderBook) go" where
  "GetIndicativePriceAndVolume src b =
     gbind (buildCumulativePriceLevels src b) (\<lambda>(res, b).
       case res of
         Inl err \<Rightarrow> Ret (\<lparr>ir_price = 0, ir_side = SideUnspecified, ir_volume = 0, ir_offbookVolume = 0,
                         ir_vmrMin = None, ir_vmrMax = None\<rparr>, b)
       | Inr (vols, mx) \<Rightarrow>
           (let prices = tradablePrices vols mx;
                (sd, off) = uncrossingSide (int64_of mx) vols
            in Ret (\<lparr>ir_price = midPrice prices, ir_side = sd, ir_volume = mx, ir_offbookVolume = off,
                     ir_vmrMin = (if prices = [] then None else Some (last prices)),
                     ir_vmrMax = (if prices = [] then None else Some (hd prices))\<rparr>, b)))"

definition GetIndicativePrice :: "'s offbook \<Rightarrow> 's OrderBook \<Rightarrow> (string, Uint \<times> 's OrderBook) go" where
  "GetIndicativePrice src b =
     gbind (buildCumulativePriceLevels src b) (\<lambda>(res, b).
       case res of
         Inl err \<Rightarrow> Ret (0, b)
       | Inr (vols, mx) \<Rightarrow> Ret (midPrice (tradablePrices vols mx), b))"

text \<open>
  The refinement runs over the parties of the expanded orders in the order in which the map is
  iterated, which is not specified and may visit a party again after its entry has been replaced:
  the visited parties are the parameter \<open>visits\<close>.
\<close>

fun refineShapes ::
  "'s offbook \<Rightarrow> 's \<Rightarrow> ipvResult \<Rightarrow> string list \<Rightarrow> IndicativePriceAndVolume
    \<Rightarrow> (string, IndicativePriceAndVolume) go" where
  "refineShapes src st r [] ipv = Ret ipv"
| "refineShapes src st r (party # parties) ipv =
     (case map_of (iv_generated ipv) party of
        None \<Rightarrow> refineShapes src st r parties ipv
      | Some gen \<Rightarrow>
          if \<not> gn_approx gen then refineShapes src st r parties ipv
          else
            (case (src, ir_vmrMin r, ir_vmrMax r) of
               (Some s, Some vmrMin, Some vmrMax) \<Rightarrow>
                 gbind (removeOffbookShape party ipv) (\<lambda>ipv.
                   let ipv = addOffbookShape s st (Some party) (iv_lastMinPrice ipv) vmrMin False False ipv;
                       ipv = (if vmrMin \<noteq> vmrMax
                              then addOffbookShape s st (Some party) vmrMin vmrMax True True ipv else ipv);
                       ipv = addOffbookShape s st (Some party) vmrMax (iv_lastMaxPrice ipv) False False ipv
                   in refineShapes src st r parties (ipv\<lparr>iv_needsUpdate := True\<rparr>))
             | _ \<Rightarrow> Panic ''nil pointer dereference''))"

definition GetRefinedIndicativePriceAndVolume ::
  "'s offbook \<Rightarrow> string list \<Rightarrow> ipvResult \<Rightarrow> 's OrderBook \<Rightarrow> (string, ipvResult \<times> 's OrderBook) go" where
  "GetRefinedIndicativePriceAndVolume src visits r b =
     (case b_ipv b of
        None \<Rightarrow> Panic ''nil pointer dereference''
      | Some ipv \<Rightarrow>
          if iv_generated ipv = [] then Ret (r, b)
          else gbind (refineShapes src (b_offbook b) r visits ipv) (\<lambda>ipv.
                 GetIndicativePriceAndVolume src (b\<lparr>b_ipv := Some ipv\<rparr>)))"

definition UpdateAMM :: "'s offbook \<Rightarrow> string \<Rightarrow> 's OrderBook \<Rightarrow> (string, 's OrderBook) go" where
  "UpdateAMM src party b =
     (if \<not> b_auction b then Ret b
      else
        (case b_ipv b of
           None \<Rightarrow> Panic ''nil pointer dereference''
         | Some ipv \<Rightarrow>
             gbind (removeOffbookShape party ipv) (\<lambda>ipv.
               let mn = iv_lastMinPrice ipv; mx = iv_lastMaxPrice ipv in
               if mn = 0 \<or> mx = 0 \<or> mn > mx then Ret (b\<lparr>b_ipv := Some ipv\<rparr>)
               else
                 (case src of
                    None \<Rightarrow> Panic ''nil pointer dereference''
                  | Some s \<Rightarrow>
                      Ret (b\<lparr>b_ipv := Some ((addOffbookShape s (b_offbook b) (Some party) mn mx False False ipv)
                               \<lparr>iv_needsUpdate := True\<rparr>)\<rparr>)))))"

section \<open>The average fill price\<close>

fun fillLoop :: "PriceLevel list \<Rightarrow> uint64 \<Rightarrow> Uint \<Rightarrow> Uint + uint64 \<times> Uint" where
  "fillLoop [] vol price = Inr (vol, price)"
| "fillLoop (l # ls) vol price =
     (if pl_volume l \<ge> vol then Inl (price + pl_price l * NewUint vol)
      else fillLoop ls (vol - pl_volume l) (price + pl_price l * NewUint (pl_volume l)))"

definition GetFillPrice ::
  "'s offbook \<Rightarrow> uint64 \<Rightarrow> Side \<Rightarrow> 's OrderBook
    \<Rightarrow> (string, Uint \<times> BookError option \<times> 's OrderBook) go" where
  "GetFillPrice src volume sd b =
     (if b_auction b then gbind (GetIndicativePrice src b) (\<lambda>(p, b). Ret (p, None, b))
      else if volume = 0 then Ret (0, Some ErrInvalidVolume, b)
      else
        (case fillLoop (rev (s_levels (if sd = SideSell then b_sell b else b_buy b))) volume 0 of
           Inl price \<Rightarrow> Ret (Uint_Div price (NewUint volume), None, b)
         | Inr (vol, price) \<Rightarrow>
             if vol = volume then Ret (b_lastTradedPrice b, Some ErrNotEnoughOrders, b)
             else
               (let price = Uint_Div price (NewUint (volume - vol))
                in Ret (price, if vol \<noteq> 0 then Some ErrNotEnoughOrders else None, b))))"

section \<open>Can the book be uncrossed?\<close>

definition restsAfter :: "Order \<Rightarrow> bool" where
  "restsAfter ord \<longleftrightarrow> o_Type ord = OrderTypeLimit \<and> o_TimeInForce ord \<noteq> OrderTimeInForceGFA"

text \<open>The orders of one level against the uncrossing volume; the first match ends the loop.\<close>

fun volumeMatch :: "uint64 \<Rightarrow> uint64 \<Rightarrow> Order list \<Rightarrow> uint64 \<times> bool" where
  "volumeMatch target vol [] = (vol, False)"
| "volumeMatch target vol (ord # ords) =
     (let vol = vol + o_Remaining ord in
      if vol > target \<and> o_TimeInForce ord \<noteq> OrderTimeInForceGFA then (vol, True)
      else volumeMatch target vol ords)"

fun volumeMatchLevels :: "(Uint \<Rightarrow> bool) \<Rightarrow> uint64 \<Rightarrow> uint64 \<Rightarrow> bool \<Rightarrow> PriceLevel list \<Rightarrow> bool" where
  "volumeMatchLevels beyond target vol matched [] = matched"
| "volumeMatchLevels beyond target vol matched (l # ls) =
     (if beyond (pl_price l) then matched
      else
        (let (vol, found) = volumeMatch target vol (pl_orders l)
         in volumeMatchLevels beyond target vol (matched \<or> found) ls))"

definition canUncross :: "'s offbook \<Rightarrow> bool \<Rightarrow> 's OrderBook \<Rightarrow> (string, bool \<times> 's OrderBook) go" where
  "canUncross src requireTrades b =
     gbind (GetBestBidPrice src b) (\<lambda>(bb, err).
       if err \<noteq> None then Ret (False, b)
       else
         gbind (GetBestAskPrice src b) (\<lambda>(ba, err).
           if err \<noteq> None \<or> bb = 0 \<or> ba = 0 \<or> (requireTrades \<and> bb < ba) then Ret (False, b)
           else
             (let buys = rev (s_levels (b_buy b)); sells = rev (s_levels (b_sell b));
                  buyMatch = list_ex (\<lambda>l. pl_price l < ba \<and> list_ex restsAfter (pl_orders l)) buys;
                  sellMatch = list_ex (\<lambda>l. pl_price l > bb \<and> list_ex restsAfter (pl_orders l)) sells
              in if buyMatch \<and> sellMatch then Ret (True, b)
                 else
                   gbind (GetIndicativePriceAndVolume src b) (\<lambda>(r, b).
                     if \<not> buyMatch \<and> \<not> volumeMatchLevels (\<lambda>p. p < ba) (ir_volume r) 0 False buys
                     then Ret (False, b)
                     else if sellMatch then Ret (True, b)
                     else Ret (volumeMatchLevels (\<lambda>p. p > bb) (ir_volume r) 0 False sells, b)))))"

definition CanLeaveAuction ::
  "'s offbook \<Rightarrow> 's OrderBook \<Rightarrow> (string, (bool \<times> bool) \<times> 's OrderBook) go" where
  "CanLeaveAuction src b =
     gbind (canUncross src True b) (\<lambda>(withTrades, b).
       if withTrades then Ret ((True, True), b)
       else gbind (canUncross src False b) (\<lambda>(withoutTrades, b). Ret ((False, withoutTrades), b)))"

definition CanUncross :: "'s offbook \<Rightarrow> 's OrderBook \<Rightarrow> (string, bool \<times> 's OrderBook) go" where
  "CanUncross src b = canUncross src True b"

definition BidAndAskPresentAfterAuction ::
  "'s offbook \<Rightarrow> 's OrderBook \<Rightarrow> (string, bool \<times> 's OrderBook) go" where
  "BidAndAskPresentAfterAuction src b = canUncross src False b"

section \<open>Uncrossing\<close>

text \<open>
  One confirmation per uncrossed order. The passive orders of all of them share their objects, so
  the values are read again (\<open>settle\<close>) when all orders have been uncrossed.
\<close>

fun uncrossEach ::
  "nat \<Rightarrow> (rat \<Rightarrow> rat \<Rightarrow> rat) \<Rightarrow> 's offbook \<Rightarrow> Uint \<Rightarrow> Uint \<Rightarrow> Order list \<Rightarrow> OrderBookSide \<Rightarrow> 's
    \<Rightarrow> (string, (BookError + OrderConfirmation list) \<times> OrderBookSide \<times> 's) go" where
  "uncrossEach fuel ddiv src price mPrice [] s st = Ret (Inr [], s, st)"
| "uncrossEach fuel ddiv src price mPrice (ord # ords) s st =
     gbind (s_uncross fuel ddiv src (unfoldIceberg ord) False s st) (\<lambda>u.
       case un_err u of
         Some err \<Rightarrow> Ret (Inl err, un_side u, un_st u)
       | None \<Rightarrow>
           (let affected = map (\<lambda>x. if o_Remaining x = 0 then x\<lparr>o_Status := OrderStatusFilled\<rparr> else x)
                             (un_impacted u);
                trades = map (\<lambda>t. t\<lparr>t_Price := price, t_MarketPrice := mPrice\<rparr>) (un_trades u)
            in gbind (uncrossEach fuel ddiv src price mPrice ords (storeSide affected (un_side u)) (un_st u))
                 (\<lambda>(res, s, st).
                   Ret (case res of
                          Inl err \<Rightarrow> Inl err
                        | Inr confs \<Rightarrow> Inr (\<lparr>oc_Order = un_agg u, oc_Trades = trades,
                                           oc_PassiveOrdersAffected = affected\<rparr> # confs), s, st))))"

definition current :: "Order list \<Rightarrow> Order \<Rightarrow> Order" where
  "current changed ord = (if o_GeneratedOffbook ord then ord else latest changed ord)"

definition settle :: "Order list \<Rightarrow> OrderConfirmation \<Rightarrow> OrderConfirmation" where
  "settle changed conf =
     conf\<lparr>oc_PassiveOrdersAffected := map (current changed) (oc_PassiveOrdersAffected conf)\<rparr>"

definition marketPrice :: "(rat \<Rightarrow> rat \<Rightarrow> rat) \<Rightarrow> (rat \<Rightarrow> Uint) \<Rightarrow> Uint \<Rightarrow> Order \<Rightarrow> (string, Uint) go" where
  "marketPrice ddiv toUint price ord =
     (if o_OriginalPrice ord = 0 then Panic ''decimal division by 0''
      else
        (let factor = ddiv (of_int (uint (o_Price ord))) (of_int (uint (o_OriginalPrice ord)))
         in if factor = 0 then Panic ''decimal division by 0''
            else Ret (toUint (ddiv (of_int (uint price)) factor))))"

definition uncrossBookSide ::
  "nat \<Rightarrow> (rat \<Rightarrow> rat \<Rightarrow> rat) \<Rightarrow> (rat \<Rightarrow> Uint) \<Rightarrow> 's offbook \<Rightarrow> Order list \<Rightarrow> Side \<Rightarrow> Uint \<Rightarrow> 's OrderBook
    \<Rightarrow> (string, (BookError + OrderConfirmation list) \<times> 's OrderBook) go" where
  "uncrossBookSide fuel ddiv toUint src uOrders sd price b =
     (case uOrders of
        [] \<Rightarrow> Ret (Inr [], b)
      | ord # _ \<Rightarrow>
          gbind (marketPrice ddiv toUint price ord) (\<lambda>mPrice.
            gbind (uncrossEach fuel ddiv src price mPrice uOrders (getOppositeSide sd b) (b_offbook b))
              (\<lambda>(res, s, st).
                let b = (setOppositeSide sd s b)\<lparr>b_offbook := uncrossFinished src st\<rparr> in
                case res of
                  Inl err \<Rightarrow> Ret (Inl err, b)
                | Inr confs \<Rightarrow>
                    (let passive = concat (map oc_PassiveOrdersAffected confs)
                     in Ret (Inr (map (settle passive) confs),
                             storeTable (map oc_Order confs @ passive) b)))))"

definition uncrossBook ::
  "nat \<Rightarrow> (rat \<Rightarrow> rat \<Rightarrow> rat) \<Rightarrow> (rat \<Rightarrow> Uint) \<Rightarrow> 's offbook \<Rightarrow> string list \<Rightarrow> 's OrderBook
    \<Rightarrow> (string, (BookError + OrderConfirmation list) \<times> 's OrderBook) go" where
  "uncrossBook fuel ddiv toUint src visits b =
     gbind (GetIndicativePriceAndVolume src b) (\<lambda>(r, b).
       if ir_price r = 0 \<and> ir_volume r = 0 then Ret (Inr [], b)
       else
         gbind (GetRefinedIndicativePriceAndVolume src visits r b) (\<lambda>(r, b).
           case b_ipv b of
             None \<Rightarrow> Panic ''nil pointer dereference''
           | Some ipv \<Rightarrow>
               gbind (ExtractOffbookOrders (ir_price r) (ir_side r) (ir_offbookVolume r) ipv) (\<lambda>offs.
                 gbind (ExtractOrders (ir_price r) (ir_volume r - ir_offbookVolume r) True
                          (getSide (ir_side r) b)) (\<lambda>(ords, s).
                   uncrossBookSide fuel ddiv toUint src (offs @ ords) (ir_side r) (ir_price r)
                     (setSide (ir_side r) s b)))))"

definition GetIndicativeTrades ::
  "nat \<Rightarrow> (rat \<Rightarrow> rat \<Rightarrow> rat) \<Rightarrow> 's offbook \<Rightarrow> 's OrderBook
    \<Rightarrow> (string, Trade list \<times> BookError option \<times> 's OrderBook) go" where
  "GetIndicativeTrades fuel ddiv src b =
     gbind (GetIndicativePriceAndVolume src b) (\<lambda>(r, b).
       if ir_price r = 0 \<and> ir_volume r = 0 then Ret ([], None, b)
       else
         (case b_ipv b of
            None \<Rightarrow> Panic ''nil pointer dereference''
          | Some ipv \<Rightarrow>
              gbind (ExtractOffbookOrders (ir_price r) (ir_side r) (ir_offbookVolume r) ipv) (\<lambda>offs.
                gbind (ExtractOrders (ir_price r) (ir_volume r - ir_offbookVolume r) False
                         (getSide (ir_side r) b)) (\<lambda>(ords, _).
                  gbind (fakeUncrossAuction fuel ddiv src (offs @ ords) (getOppositeSide (ir_side r) b)
                           (b_offbook b)) (\<lambda>(trades, err, st).
                    let b = b\<lparr>b_offbook := st\<rparr> in
                    case err of
                      Some e \<Rightarrow> Ret ([], Some e, b)
                    | None \<Rightarrow> Ret (map (\<lambda>t. t\<lparr>t_Price := ir_price r\<rparr>) trades, None, b))))))"

section \<open>Entering and leaving\<close>

definition EnterAuction :: "'s offbook \<Rightarrow> 's OrderBook \<Rightarrow> Order list \<times> 's OrderBook" where
  "EnterAuction src b =
     (getOrdersToCancel True (b_buy b) @ getOrdersToCancel True (b_sell b),
      b\<lparr>b_auction := True,
        b_ipv := Some (NewIndicativePriceAndVolume src (b_offbook b) (b_buy b) (b_sell b))\<rparr>)"

text \<open>
  The passes of \<^verbatim>\<open>LeaveAuction\<close> over the passive orders of a confirmation and over the
  confirmations; \<open>changed\<close> collects the orders as they are now.
\<close>

fun leavePassive ::
  "int64 \<Rightarrow> Order list \<Rightarrow> Order list \<Rightarrow> 's OrderBook \<Rightarrow> (string, Order list \<times> Order list \<times> 's OrderBook) go" where
  "leavePassive ts [] changed b = Ret ([], changed, b)"
| "leavePassive ts (po # pos) changed b =
     (let po = (current changed po)\<lparr>o_UpdatedAt := ts\<rparr> in
      gbind (icebergRefresh po (storeOrders [po] b)) (\<lambda>(po, b).
        let (po, b) =
              (if o_Remaining po = 0
               then (let po = po\<lparr>o_Status := OrderStatusFilled\<rparr> in (po, b_remove po (storeOrders [po] b)))
               else (po, b))
        in gbind (leavePassive ts pos (changed @ [po]) b) (\<lambda>(pos, changed, b). Ret (po # pos, changed, b))))"

fun leaveEach ::
  "int64 \<Rightarrow> OrderConfirmation list \<Rightarrow> Order list \<Rightarrow> 's OrderBook
    \<Rightarrow> (string, OrderConfirmation list \<times> Order list \<times> 's OrderBook) go" where
  "leaveEach ts [] changed b = Ret ([], changed, b)"
| "leaveEach ts (uo # uos) changed b =
     gbind (icebergRefresh (oc_Order uo) b) (\<lambda>(ord, b).
       let (ord, b) =
             (if o_Remaining ord = 0
              then (let ord = ord\<lparr>o_Status := OrderStatusFilled\<rparr> in (ord, b_remove ord (storeOrders [ord] b)))
              else (ord, b));
           ord = (if o_GeneratedOffbook ord then ord\<lparr>o_CreatedAt := ts\<rparr> else ord);
           ord = ord\<lparr>o_UpdatedAt := ts\<rparr>
       in gbind (leavePassive ts (oc_PassiveOrdersAffected uo) changed (storeOrders [ord] b))
            (\<lambda>(pos, changed, b).
              gbind (leaveEach ts uos changed b) (\<lambda>(uos, changed, b).
                Ret (\<lparr>oc_Order = ord,
                      oc_Trades = map (\<lambda>t. t\<lparr>t_Timestamp := ts, t_Aggressor := SideUnspecified\<rparr>) (oc_Trades uo),
                      oc_PassiveOrdersAffected = pos\<rparr> # uos, changed, b))))"

definition LeaveAuction ::
  "nat \<Rightarrow> (rat \<Rightarrow> rat \<Rightarrow> rat) \<Rightarrow> (rat \<Rightarrow> Uint) \<Rightarrow> 's offbook \<Rightarrow> string list \<Rightarrow> int64 \<Rightarrow> 's OrderBook
    \<Rightarrow> (string, (BookError + OrderConfirmation list \<times> Order list) \<times> 's OrderBook) go" where
  "LeaveAuction fuel ddiv toUint src visits ts b =
     gbind (uncrossBook fuel ddiv toUint src visits (b\<lparr>b_batchID := b_batchID b + 1\<rparr>)) (\<lambda>(res, b).
       case res of
         Inl err \<Rightarrow> Ret (Inl err, b)
       | Inr uncrossed \<Rightarrow>
           gbind (leaveEach ts uncrossed [] b) (\<lambda>(confs, changed, b).
             let cancels = map (\<lambda>ord. ord\<lparr>o_UpdatedAt := ts\<rparr>)
                   (getOrdersToCancel False (b_buy b) @ getOrdersToCancel False (b_sell b));
                 changed = changed @ cancels
             in Ret (Inr (map (settle changed) confs, cancels),
                     (storeOrders cancels b)\<lparr>b_auction := False, b_ipv := None\<rparr>)))"

end
