(* ===== verification/Price_Level_Lemmas.thy ===== *)
theory Price_Level_Lemmas
  imports Price_Level
begin

text \<open>
  What the uncrossing of a price level does: the volume that the aggressive order loses is the
  volume of the trades and the volume that the level loses, the level keeps its invariant, and the
  split of the crossed volume over hidden iceberg reserves is exact. The loop over the orders is
  analysed once, as the inductive relation \<open>uncross_run\<close> of its successful runs.
\<close>

section \<open>The removal loop\<close>

lemma removeAll_nths:
  assumes "sorted_wrt (<) is" and "\<forall>i \<in> set is. r \<le> i \<and> i < r + length xs"
  shows "removeAll r is xs = nths xs {j. j + r \<notin> set is}"
  using assms
proof (induction "is" arbitrary: r xs)
  case Nil
  then show ?case by (simp add: nths_all)
next
  case (Cons a "is")
  define b where "b = a - r"
  have b: "b < length xs" "a = b + r" using Cons.prems(2) by (auto simp: b_def)
  have gt: "\<forall>i \<in> set is. a < i" using Cons.prems(1) by simp
  have split: "xs = take b xs @ xs ! b # drop (Suc b) xs" using b(1) by (simp add: id_take_nth_drop)
  have bnd: "\<forall>i \<in> set is. Suc r \<le> i \<and> i < Suc r + length (remove_nth b xs)"
    using Cons.prems(2) gt b by auto
  have "removeAll r (a # is) xs = nths (remove_nth b xs) {j. j + Suc r \<notin> set is}"
    using Cons.IH [OF _ bnd] Cons.prems(1) by (simp add: b_def)
  also have "\<dots> = take b xs @ nths (drop (Suc b) xs) {j. j + b + Suc r \<notin> set is}"
  proof -
    have "nths (take b xs) {j. j + Suc r \<notin> set is} = take b xs"
      using gt b by (intro nths_all) force
    then show ?thesis using b(1) by (simp add: remove_nth_def nths_append)
  qed
  also have "\<dots> = nths xs {j. j + r \<notin> set (a # is)}"
  proof -
    have "nths (take b xs) {j. j + r \<notin> set (a # is)} = take b xs"
      using gt b by (intro nths_all) force
    moreover have "{j. Suc j + b + r \<notin> insert a (set is)} = {j. j + b + Suc r \<notin> set is}"
      using b(2) by auto
    ultimately show ?thesis
      using b by (subst (3) split) (simp add: nths_append nths_Cons del: append_take_drop_id)
  qed
  finally show ?case .
qed

lemma nths_filter:
  assumes "\<forall>j < length xs. j \<in> A \<longleftrightarrow> P (xs ! j)"
  shows "nths xs A = filter P xs"
  using assms
proof (induction xs arbitrary: A)
  case Nil
  then show ?case by simp
next
  case (Cons x xs)
  have "nths xs {j. Suc j \<in> A} = filter P xs"
    using Cons.prems by (intro Cons.IH) force
  moreover have "0 \<in> A \<longleftrightarrow> P x" using Cons.prems by force
  ultimately show ?case by (simp add: nths_Cons)
qed

lemma removeAll_filter:
  assumes "sorted_wrt (<) is" and "\<forall>i \<in> set is. i < length xs"
    and "\<forall>j < length xs. j \<notin> set is \<longleftrightarrow> P (xs ! j)"
  shows "removeAll 0 is xs = filter P xs"
  using removeAll_nths [of "is" 0 xs] nths_filter [of xs "{j. j \<notin> set is}" P] assms by simp

section \<open>Successful runs of the uncrossing loop\<close>

abbreviation fill :: "uint64 \<Rightarrow> Order \<Rightarrow> Order" where
  "fill sz ord \<equiv> ord\<lparr>o_Remaining := o_Remaining ord - sz\<rparr>"

inductive uncross_run ::
  "bool \<Rightarrow> Order \<Rightarrow> uint64 \<Rightarrow> nat \<Rightarrow> nat \<Rightarrow> Order list \<Rightarrow> uncrossState \<Rightarrow> bool" for chk where
  nil: "uncross_run chk agg vol i k []
     \<lparr>uo_agg = agg, uo_volume = vol, uo_orders = [], uo_trades = [], uo_impacted = [],
      uo_icebergs = [], uo_toRemove = [], uo_err = None\<rparr>"
| wash: "chk \<Longrightarrow> o_Party ord = o_Party agg \<Longrightarrow>
   uncross_run chk agg vol i k (ord # rest)
     \<lparr>uo_agg = agg, uo_volume = vol, uo_orders = ord # rest, uo_trades = [],
      uo_impacted = [], uo_icebergs = [], uo_toRemove = [], uo_err = Some ErrWashTrade\<rparr>"
| hidden: "\<not> (chk \<and> o_Party ord = o_Party agg) \<Longrightarrow> hiddenOnly ord \<Longrightarrow>
   uncross_run chk agg vol (Suc i) k rest u \<Longrightarrow>
   uncross_run chk agg vol i k (ord # rest)
     (u\<lparr>uo_orders := ord # uo_orders u,
        uo_icebergs := \<lparr>ti_order = ord, ti_trade = None, ti_idx = i\<rparr> # uo_icebergs u\<rparr>)"
| last: "\<not> (chk \<and> o_Party ord = o_Party agg) \<Longrightarrow>
   o_Remaining agg = sz \<Longrightarrow> sz \<le> o_Remaining ord \<Longrightarrow> sz \<noteq> 0 \<Longrightarrow>
   newTrade agg ord sz = Ret tr \<Longrightarrow>
   uncross_run chk agg vol i k (ord # rest)
     \<lparr>uo_agg = fill sz agg, uo_volume = vol - sz, uo_orders = fill sz ord # rest,
      uo_trades = [setTradeOrders agg ord tr], uo_impacted = [i],
      uo_icebergs = (if hasReserve (fill sz ord)
        then [\<lparr>ti_order = fill sz ord, ti_trade = Some k, ti_idx = i\<rparr>] else []),
      uo_toRemove = (if TrueRemaining (fill sz ord) = 0 then [i] else []), uo_err = None\<rparr>"
| step: "\<not> (chk \<and> o_Party ord = o_Party agg) \<Longrightarrow>
   o_Remaining ord = sz \<Longrightarrow> sz < o_Remaining agg \<Longrightarrow> sz \<noteq> 0 \<Longrightarrow>
   newTrade agg ord sz = Ret tr \<Longrightarrow>
   uncross_run chk (fill sz agg) (vol - sz) (Suc i) (Suc k) rest u \<Longrightarrow>
   uncross_run chk agg vol i k (ord # rest)
     (u\<lparr>uo_orders := fill sz ord # uo_orders u,
        uo_trades := setTradeOrders agg ord tr # uo_trades u,
        uo_impacted := i # uo_impacted u,
        uo_icebergs := (if hasReserve (fill sz ord)
          then [\<lparr>ti_order = fill sz ord, ti_trade = Some k, ti_idx = i\<rparr>] else []) @ uo_icebergs u,
        uo_toRemove := (if TrueRemaining (fill sz ord) = 0 then [i] else []) @ uo_toRemove u\<rparr>)"

lemma uncrossOrders_run:
  "uncrossOrders chk agg vol i k ords = Ret u \<Longrightarrow> uncross_run chk agg vol i k ords u"
proof (induction ords arbitrary: agg vol i k u)
  case Nil
  then show ?case by (auto intro: uncross_run.nil)
next
  case (Cons ord rest)
  define sz where "sz = min64 (o_Remaining agg) (o_Remaining ord)"
  have gv: "getVolumeAllocation agg ord = sz" by (simp add: getVolumeAllocation_def sz_def)
  show ?case
  proof (cases "chk \<and> o_Party ord = o_Party agg")
    case True
    with Cons.prems show ?thesis by (auto intro: uncross_run.wash)
  next
    case nw: False
    show ?thesis
    proof (cases "sz = 0")
      case True
      with nw gv Cons.prems Cons.IH show ?thesis
        by (auto simp: gbind_Ret_iff split: if_splits intro: uncross_run.hidden)
    next
      case sz: False
      with nw gv Cons.prems obtain tr where tr: "newTrade agg ord sz = Ret tr"
        by (auto simp: gbind_Ret_iff Let_def)
      show ?thesis
      proof (cases "o_Remaining agg = sz")
        case True
        have "sz \<le> o_Remaining ord" by (simp add: sz_def)
        from uncross_run.last [OF nw True this sz tr, of vol i k rest] nw gv sz tr True Cons.prems
        show ?thesis by (auto simp: Let_def)
      next
        case False
        with nw gv sz tr Cons.prems obtain u' where
          u': "uncrossOrders chk (fill sz agg) (vol - sz) (Suc i) (Suc k) rest = Ret u'"
          by (auto simp: gbind_Ret_iff Let_def)
        from False have lt: "o_Remaining ord = sz" "sz < o_Remaining agg"
          by (auto simp: sz_def min64_def split: if_splits)
        from uncross_run.step [OF nw lt sz tr Cons.IH [OF u']] nw gv sz tr False u' Cons.prems
        show ?thesis by (auto simp: Let_def)
      qed
    qed
  qed
qed

section \<open>Volumes as natural numbers\<close>

definition reserveOf :: "Order \<Rightarrow> nat" where
  "reserveOf ord =
     (case o_IcebergOrder ord of None \<Rightarrow> 0 | Some ice \<Rightarrow> unat (ice_ReservedRemaining ice))"

definition trueRem :: "Order \<Rightarrow> nat" where
  "trueRem ord = unat (o_Remaining ord) + reserveOf ord"

definition volumeOf :: "Order list \<Rightarrow> nat" where
  "volumeOf ords = sum_list (map trueRem ords)"

definition tradedVolume :: "Trade list \<Rightarrow> nat" where
  "tradedVolume ts = sum_list (map (\<lambda>t. unat (t_Size t)) ts)"

definition order_ok :: "Order \<Rightarrow> bool" where
  "order_ok ord \<longleftrightarrow> 0 < trueRem ord \<and> trueRem ord < 2 ^ 64"

lemma volumeOf_simps [simp]:
  "volumeOf [] = 0" "volumeOf (x # xs) = trueRem x + volumeOf xs"
  "volumeOf (xs @ ys) = volumeOf xs + volumeOf ys"
  by (simp_all add: volumeOf_def)

lemma tradedVolume_simps [simp]:
  "tradedVolume [] = 0" "tradedVolume (t # ts) = unat (t_Size t) + tradedVolume ts"
  "tradedVolume (ts @ us) = tradedVolume ts + tradedVolume us"
  by (simp_all add: tradedVolume_def)

lemma TrueRemaining_of_nat: "TrueRemaining ord = of_nat (trueRem ord)"
  by (simp add: TrueRemaining_def trueRem_def reserveOf_def split: option.splits)

lemma unat_TrueRemaining: "trueRem ord < 2 ^ 64 \<Longrightarrow> unat (TrueRemaining ord) = trueRem ord"
  by (simp add: TrueRemaining_of_nat unat_of_nat take_bit_nat_eq_self)

lemma TrueRemaining_0_iff: "trueRem ord < 2 ^ 64 \<Longrightarrow> TrueRemaining ord = 0 \<longleftrightarrow> trueRem ord = 0"
  using unat_TrueRemaining [of ord] by (metis unat_eq_zero)

lemma hasReserve_iff: "hasReserve ord \<longleftrightarrow> 0 < reserveOf ord"
  by (auto simp: hasReserve_def reserveOf_def word_less_nat_alt split: option.splits)

lemma reserveOf_fill [simp]: "reserveOf (fill sz ord) = reserveOf ord"
  by (simp add: reserveOf_def)

lemma trueRem_fill: "sz \<le> o_Remaining ord \<Longrightarrow> trueRem (fill sz ord) + unat sz = trueRem ord"
  by (simp add: trueRem_def unat_sub word_le_nat_alt)

lemma newTrade_size: "newTrade agg ord sz = Ret tr \<Longrightarrow> t_Size tr = sz"
  by (auto simp: newTrade_def Let_def split: if_splits)

lemma setTradeOrders_size [simp]: "t_Size (setTradeOrders agg ord tr) = t_Size tr"
  by (simp add: setTradeOrders_def)

section \<open>What a run does\<close>

lemma run_length: "uncross_run chk agg vol i k ords u \<Longrightarrow> length (uo_orders u) = length ords"
  by (induction rule: uncross_run.induct) auto

lemma run_agg: "uncross_run chk agg vol i k ords u \<Longrightarrow>
  unat (o_Remaining (uo_agg u)) + tradedVolume (uo_trades u) = unat (o_Remaining agg)"
  by (induction rule: uncross_run.induct)
    (auto simp: newTrade_size unat_sub word_less_nat_alt word_le_nat_alt)

lemma run_orders: "uncross_run chk agg vol i k ords u \<Longrightarrow>
  volumeOf (uo_orders u) + tradedVolume (uo_trades u) = volumeOf ords"
proof (induction rule: uncross_run.induct)
  case (last ord agg sz tr vol i k rest)
  then show ?case using trueRem_fill [of sz ord] by (auto simp: newTrade_size)
next
  case (step ord agg sz tr vol i k rest u)
  then show ?case using trueRem_fill [of sz ord] by (auto simp: newTrade_size)
qed auto

lemma run_volume: "uncross_run chk agg vol i k ords u \<Longrightarrow>
  uo_volume u = vol - of_nat (tradedVolume (uo_trades u))"
  by (induction rule: uncross_run.induct) (auto simp: newTrade_size)

lemma run_err: "uncross_run chk agg vol i k ords u \<Longrightarrow>
  uo_err u = None \<or> uo_err u = Some ErrWashTrade \<and> chk \<and> (\<exists>ord \<in> set ords. o_Party ord = o_Party agg)"
  by (induction rule: uncross_run.induct) auto

lemma run_order_ok: "uncross_run chk agg vol i k ords u \<Longrightarrow> \<forall>ord \<in> set ords. trueRem ord < b \<Longrightarrow>
   \<forall>ord \<in> set (uo_orders u). trueRem ord < b"
proof (induction rule: uncross_run.induct)
  case (last ord agg sz tr vol i k rest)
  then show ?case using trueRem_fill [of sz ord] by auto
next
  case (step ord agg sz tr vol i k rest u)
  then show ?case using trueRem_fill [of sz ord] by auto
qed auto

fun indices :: "nat \<Rightarrow> ('a \<Rightarrow> bool) \<Rightarrow> 'a list \<Rightarrow> nat list" where
  "indices i P [] = []"
| "indices i P (x # xs) = (if P x then [i] else []) @ indices (Suc i) P xs"

lemma indices_none: "\<forall>x \<in> set xs. \<not> P x \<Longrightarrow> indices i P xs = []"
  by (induction xs arbitrary: i) auto

lemma run_toRemove:
  "uncross_run chk agg vol i k ords u \<Longrightarrow> \<forall>ord \<in> set ords. order_ok ord \<Longrightarrow>
   uo_toRemove u = indices i (\<lambda>ord. trueRem ord = 0) (uo_orders u)"
proof (induction rule: uncross_run.induct)
  case (last ord agg sz tr vol i k rest)
  have "TrueRemaining (fill sz ord) = 0 \<longleftrightarrow> trueRem (fill sz ord) = 0"
    using trueRem_fill [of sz ord] last by (intro TrueRemaining_0_iff) (auto simp: order_ok_def)
  with last show ?case by (auto simp: order_ok_def indices_none)
next
  case (step ord agg sz tr vol i k rest u)
  have "TrueRemaining (fill sz ord) = 0 \<longleftrightarrow> trueRem (fill sz ord) = 0"
    using trueRem_fill [of sz ord] step by (intro TrueRemaining_0_iff) (auto simp: order_ok_def)
  with step show ?case by auto
next
  case (hidden ord agg vol i k rest u)
  then show ?case by (auto simp: order_ok_def)
next
  case (wash ord agg vol i k rest)
  then show ?case by (auto simp: order_ok_def intro!: indices_none [symmetric])
qed auto

definition tracked_ok :: "nat \<Rightarrow> nat \<Rightarrow> nat \<Rightarrow> Order list \<Rightarrow> trackIceberg list \<Rightarrow> bool" where
  "tracked_ok i k n ords ts \<longleftrightarrow> sorted_wrt (<) (map ti_idx ts) \<and>
     (\<forall>t \<in> set ts. i \<le> ti_idx t \<and> ti_idx t < i + length ords \<and> ti_order t = ords ! (ti_idx t - i)
        \<and> hasReserve (ti_order t)
        \<and> (case ti_trade t of None \<Rightarrow> True | Some j \<Rightarrow> k \<le> j \<and> j < k + n))"

lemma tracked_ok_Cons:
  assumes "tracked_ok (Suc i) k n ords ts"
  shows "tracked_ok i k n (ord # ords) ts"
  using assms unfolding tracked_ok_def
  by (auto simp: nth_Cons' intro: arg_cong [of _ _ "\<lambda>j. ords ! j"])

lemma tracked_ok_mono: "tracked_ok i (Suc k) n ords ts \<Longrightarrow> tracked_ok i k (Suc n) ords ts"
  by (auto simp: tracked_ok_def split: option.splits) (metis Suc_leD)+

lemma tracked_ok_insert:
  assumes "tracked_ok (Suc i) k n ords ts" and "hasReserve ord"
    and "case j of None \<Rightarrow> True | Some j \<Rightarrow> k \<le> j \<and> j < k + n"
  shows "tracked_ok i k n (ord # ords) (\<lparr>ti_order = ord, ti_trade = j, ti_idx = i\<rparr> # ts)"
  using tracked_ok_Cons [OF assms(1)] assms unfolding tracked_ok_def by force

lemma run_tracked:
  "uncross_run chk agg vol i k ords u \<Longrightarrow>
   tracked_ok i k (length (uo_trades u)) (uo_orders u) (uo_icebergs u)"
proof (induction rule: uncross_run.induct)
  case (hidden ord agg vol i k rest u)
  then show ?case
    by (auto intro!: tracked_ok_insert simp: hiddenOnly_def hasReserve_def word_neq_0_conv split: option.splits)
next
  case (last ord agg sz tr vol i k rest)
  then show ?case
    using tracked_ok_insert [of i k 1 rest "[]" "fill sz ord" "Some k"] by (auto simp: tracked_ok_def)
next
  case (step ord agg sz tr vol i k rest u)
  from tracked_ok_mono [OF step.IH] tracked_ok_Cons [of i]
    tracked_ok_insert [of i k "Suc (length (uo_trades u))" _ _ "fill sz ord" "Some k"]
  show ?case by auto
qed (auto simp: tracked_ok_def)

lemma run_exhausted:
  "uncross_run chk agg vol i k ords u \<Longrightarrow> uo_err u = None \<Longrightarrow> 0 < o_Remaining (uo_agg u) \<Longrightarrow>
   (\<forall>ord \<in> set (uo_orders u). o_Remaining ord = 0) \<and>
   map ti_order (uo_icebergs u) = filter hasReserve (uo_orders u) \<and>
   map ti_idx (uo_icebergs u) = indices i hasReserve (uo_orders u)"
proof (induction rule: uncross_run.induct)
  case (hidden ord agg vol i k rest u)
  then show ?case
    by (auto simp: hiddenOnly_def hasReserve_def word_neq_0_conv split: option.splits)
next
  case (step ord agg sz tr vol i k rest u)
  then show ?case by auto
qed auto

section \<open>The split over hidden reserves\<close>

text \<open>
  What the code relies on of the decimal package: a quotient by a positive number is a multiple of
  \<open>10\<^sup>-\<^sup>1\<^sup>6\<close> (its default division precision, which the sources do not change) and differs from the
  exact quotient by half a unit at most.
\<close>

definition decimal_div :: "(rat \<Rightarrow> rat \<Rightarrow> rat) \<Rightarrow> bool" where
  "decimal_div ddiv \<longleftrightarrow>
     (\<forall>a b. 0 < b \<longrightarrow> (\<exists>n. ddiv a b = of_int n / 10 ^ 16) \<and> \<bar>ddiv a b - a / b\<bar> \<le> 1 / (2 * 10 ^ 16))"

lemma decimal_div_le:
  assumes "decimal_div ddiv" and "0 < b" and "a / b \<le> of_int m"
  shows "ddiv a b \<le> of_int m"
proof -
  obtain n where n: "ddiv a b = of_int n / 10 ^ 16" and d: "\<bar>ddiv a b - a / b\<bar> \<le> 1 / (2 * 10 ^ 16)"
    using assms(1,2) by (auto simp: decimal_div_def)
  have "ddiv a b \<le> of_int m + 1 / (2 * 10 ^ 16)" using d assms(3) by linarith
  then have "of_int n \<le> (of_int m * 10 ^ 16 + 1 / 2 :: rat)" by (simp add: n field_simps)
  then have "of_int n < (of_int (m * 10 ^ 16 + 1) :: rat)" by simp
  then have "n < m * 10 ^ 16 + 1" by (simp only: of_int_less_iff)
  then have "of_int n \<le> (of_int (m * 10 ^ 16) :: rat)" by (simp only: of_int_le_iff)
  then show ?thesis by (simp add: n field_simps)
qed

lemma decimal_div_ge:
  assumes "decimal_div ddiv" and "0 < b" and "of_int m \<le> a / b"
  shows "of_int m \<le> ddiv a b"
proof -
  obtain n where n: "ddiv a b = of_int n / 10 ^ 16" and d: "\<bar>ddiv a b - a / b\<bar> \<le> 1 / (2 * 10 ^ 16)"
    using assms(1,2) by (auto simp: decimal_div_def)
  have "of_int m - 1 / (2 * 10 ^ 16) \<le> ddiv a b" using d assms(3) by linarith
  then have "(of_int m * 10 ^ 16 - 1 / 2 :: rat) \<le> of_int n" by (simp add: n field_simps)
  then have "(of_int (m * 10 ^ 16 - 1) :: rat) < of_int n" by simp
  then have "m * 10 ^ 16 - 1 < n" by (simp only: of_int_less_iff)
  then have "(of_int (m * 10 ^ 16) :: rat) \<le> of_int n" by (simp only: of_int_le_iff)
  then show ?thesis by (simp add: n field_simps)
qed

lemma icebergShare_bounds:
  assumes "decimal_div ddiv" and "unat rr < 2 ^ 63" and "unat tr < 2 ^ 63" and "0 < unat tr" and "unat tc \<le> unat tr"
  shows "unat (icebergShare ddiv tc tr rr) \<le> unat rr"
    and "of_nat (unat (icebergShare ddiv tc tr rr)) \<le> (of_nat (unat rr) * of_nat (unat tc) / of_nat (unat tr) + 1 / (2 * 10 ^ 16) :: rat)"
proof -
  let ?q = "ddiv (of_int (int64_of rr) * of_int (int64_of tc)) (of_int (int64_of tr))"
  let ?e = "of_nat (unat rr) * of_nat (unat tc) / of_nat (unat tr) :: rat"
  have i: "int64_of rr = int (unat rr)" "int64_of tc = int (unat tc)" "int64_of tr = int (unat tr)"
    using assms by (simp_all add: int64_of_small)
  have q: "?q = ddiv (of_nat (unat rr) * of_nat (unat tc)) (of_nat (unat tr))"
    by (simp add: i del: of_nat_unat)
  have pos: "(0 :: rat) < of_nat (unat tr)" using assms(4) by (simp only: of_nat_0_less_iff)
  have lo: "0 \<le> ?q"
    unfolding q using decimal_div_ge [OF assms(1) pos, of 0 "of_nat (unat rr) * of_nat (unat tc)"]
    by (simp add: zero_le_divide_iff del: of_nat_unat)
  have "?e \<le> of_int (int (unat rr))"
    using pos assms(5) by (simp add: field_simps mult_left_mono del: of_nat_unat)
  from decimal_div_le [OF assms(1) pos this] have hi: "?q \<le> of_int (int (unat rr))" unfolding q .
  have near: "?q \<le> ?e + 1 / (2 * 10 ^ 16)"
  proof -
    have "\<bar>?q - ?e\<bar> \<le> 1 / (2 * 10 ^ 16)" using assms(1) pos unfolding q decimal_div_def by blast
    then show ?thesis by linarith
  qed
  have fl: "0 \<le> \<lfloor>?q\<rfloor>" "\<lfloor>?q\<rfloor> \<le> int (unat rr)" using lo hi by linarith+
  have rr63: "int (unat rr) < 2 ^ 63"
    using assms(2) by (metis of_nat_less_iff of_nat_numeral of_nat_power)
  then have fl64: "\<lfloor>?q\<rfloor> < 2 ^ 64" using order.strict_trans1 [OF fl(2) rr63] by simp
  from rr63 fl have "i64 \<lfloor>?q\<rfloor> = \<lfloor>?q\<rfloor>" by (intro i64_small) linarith+
  with lo have "dec_IntPart ?q = \<lfloor>?q\<rfloor>"
    unfolding dec_IntPart_def by simp
  then have un: "unat (icebergShare ddiv tc tr rr) = nat \<lfloor>?q\<rfloor>"
    unfolding icebergShare_def using unat_uint64_of [OF fl(1) fl64] by simp
  show "unat (icebergShare ddiv tc tr rr) \<le> unat rr"
    using un fl(2) by (simp only: nat_le_iff)
  have "of_nat (unat (icebergShare ddiv tc tr rr)) = (of_int \<lfloor>?q\<rfloor> :: rat)" using un fl by simp
  also have "\<dots> \<le> ?q" by simp
  finally show "of_nat (unat (icebergShare ddiv tc tr rr)) \<le> ?e + 1 / (2 * 10 ^ 16)"
    using near by linarith
qed

lemma distributeCrumbs_spec:
  assumes "\<forall>(rr, e) \<in> set ps. e \<le> rr" and "distributeCrumbs rem ps = (es, r)"
  shows "length es = length ps
    \<and> (\<forall>j < length ps. es ! j \<le> fst (ps ! j))
    \<and> sum_list (map unat es) + unat r = sum_list (map (\<lambda>p. unat (snd p)) ps) + unat rem
    \<and> unat r = unat rem - sum_list (map (\<lambda>(rr, e). unat rr - unat e) ps)"
  using assms
proof (induction rem ps arbitrary: es r rule: distributeCrumbs.induct)
  case (1 rem)
  then show ?case by simp
next
  case (2 rem rr e rest)
  define dd where "dd = min64 (rr - e) rem"
  have le: "e \<le> rr" using "2.prems"(1) by simp
  have u: "unat dd = min (unat rr - unat e) (unat rem)"
    using le by (simp add: dd_def unat_min64 unat_sub)
  have ue: "unat (e + dd) = unat e + unat dd" and ele: "e + dd \<le> rr"
  proof -
    have "unat e + unat dd \<le> unat rr" using u le by (simp add: word_le_nat_alt)
    moreover have "unat rr < 2 ^ 64" using unsigned_less [of rr] by simp
    ultimately show "unat (e + dd) = unat e + unat dd" by (simp add: unat_word_ariths)
    then show "e + dd \<le> rr" using u le by (simp add: word_le_nat_alt)
  qed
  have ur: "unat (rem - dd) = unat rem - unat dd"
    using u by (simp add: unat_sub word_le_nat_alt)
  show ?case
  proof (cases "rem - dd = 0")
    case True
    then have "unat rem \<le> unat dd" using ur by simp
    with u have rem: "unat rem = unat dd" "unat rem \<le> unat rr - unat e" by auto
    from True "2.prems"(2) have "es = (e + dd) # map snd rest" "r = 0"
      by (auto simp: dd_def Let_def)
    with rem "2.prems"(1) ele ue show ?thesis
      by (auto simp: nth_Cons' o_def)
  next
    case False
    obtain es' r' where rec: "distributeCrumbs (rem - dd) rest = (es', r')" by fastforce
    with False "2.prems"(2) have es: "es = (e + dd) # es'" "r = r'"
      by (auto simp: dd_def Let_def)
    from "2.IH" [OF dd_def refl _ _ rec] False "2.prems"(1)
    have "length es' = length rest
      \<and> (\<forall>j < length rest. es' ! j \<le> fst (rest ! j))
      \<and> sum_list (map unat es') + unat r' = sum_list (map (\<lambda>p. unat (snd p)) rest) + unat (rem - dd)
      \<and> unat r' = unat (rem - dd) - sum_list (map (\<lambda>(rr, e). unat rr - unat e) rest)"
      by auto
    then have IH: "length es' = length rest" "\<forall>j < length rest. es' ! j \<le> fst (rest ! j)"
      "sum_list (map unat es') + unat r' = sum_list (map (\<lambda>p. unat (snd p)) rest) + unat (rem - dd)"
      "unat r' = unat (rem - dd) - sum_list (map (\<lambda>(rr, e). unat rr - unat e) rest)"
      by blast+
    have "\<forall>j < length ((rr, e) # rest). es ! j \<le> fst (((rr, e) # rest) ! j)"
      using IH(2) ele by (simp add: es(1) nth_Cons')
    moreover have "sum_list (map unat es) + unat r
      = sum_list (map (\<lambda>p. unat (snd p)) ((rr, e) # rest)) + unat rem"
      using IH(3) ue ur min.cobounded2 [of "unat rr - unat e" "unat rem"] unfolding u [symmetric]
      by (simp add: es)
    moreover have "unat r = unat rem - sum_list (map (\<lambda>(rr, e). unat rr - unat e) ((rr, e) # rest))"
      using IH(4) ur u by (simp add: es min_def split: if_splits)
    ultimately show ?thesis using IH(1) by (simp add: es(1))
  qed
qed


lemma sum_icebergShare:
  assumes "decimal_div ddiv" and "\<forall>rr \<in> set rs. unat rr < 2 ^ 63" and "unat tr < 2 ^ 63" and "0 < unat tr"
    and "unat tc \<le> unat tr"
  shows "of_nat (sum_list (map (\<lambda>rr. unat (icebergShare ddiv tc tr rr)) rs))
    \<le> (of_nat (sum_list (map unat rs)) * of_nat (unat tc) / of_nat (unat tr)
        + of_nat (length rs) / (2 * 10 ^ 16) :: rat)"
  using assms(2)
proof (induction rs)
  case Nil
  then show ?case by simp
next
  case (Cons rr rs)
  then have "of_nat (unat (icebergShare ddiv tc tr rr))
    \<le> (of_nat (unat rr) * of_nat (unat tc) / of_nat (unat tr) + 1 / (2 * 10 ^ 16) :: rat)"
    using icebergShare_bounds(2) [OF assms(1) _ assms(3-5), of rr] by simp
  moreover have "of_nat (sum_list (map (\<lambda>rr. unat (icebergShare ddiv tc tr rr)) rs))
    \<le> (of_nat (sum_list (map unat rs)) * of_nat (unat tc) / of_nat (unat tr)
        + of_nat (length rs) / (2 * 10 ^ 16) :: rat)"
    using Cons by simp
  ultimately show ?case
    by (simp add: distrib_right add_divide_distrib del: of_nat_unat)
qed

lemma sum_list_subtract_nat:
  fixes f g :: "'a \<Rightarrow> nat"
  shows "\<forall>x \<in> set xs. g x \<le> f x \<Longrightarrow>
    sum_list (map (\<lambda>x. f x - g x) xs) + sum_list (map g xs) = sum_list (map f xs)"
  by (induction xs) auto

lemma icebergExtra_spec:
  assumes "decimal_div ddiv" and total: "unat tr = sum_list (map unat rs)" and "unat tr < 2 ^ 63"
    and "0 < unat tr" and "unat tc \<le> unat tr" and "length rs < 2 * 10 ^ 16"
  obtains es where "icebergExtra ddiv tc tr rs = Ret es" and "length es = length rs"
    and "\<forall>j < length rs. es ! j \<le> rs ! j" and "sum_list (map unat es) = unat tc"
proof -
  let ?sh = "icebergShare ddiv tc tr"
  have each: "\<forall>rr \<in> set rs. unat rr < 2 ^ 63"
    using total assms(3) member_le_sum_list [of _ "map unat rs"] by force
  have sh_le: "\<forall>rr \<in> set rs. ?sh rr \<le> rr"
    using icebergShare_bounds(1) [OF assms(1) _ assms(3-5)] each by (auto simp: word_le_nat_alt)
  have pos: "(0 :: rat) < of_nat (unat tr)" using assms(4) by (simp only: of_nat_0_less_iff)
  have "of_nat (sum_list (map (\<lambda>rr. unat (?sh rr)) rs)) \<le> (of_nat (unat tc) + of_nat (length rs) / (2 * 10 ^ 16) :: rat)"
    using sum_icebergShare [OF assms(1) each assms(3-5)] pos
    by (simp flip: total del: of_nat_unat)
  also have "\<dots> < of_nat (unat tc + 1)"
    using assms(6) by (simp del: of_nat_unat)
  finally have "sum_list (map (\<lambda>rr. unat (?sh rr)) rs) < unat tc + 1"
    by (simp only: of_nat_less_iff)
  then have sum_le: "sum_list (map unat (map ?sh rs)) \<le> unat tc" by (simp add: o_def)
  have "sum_list (map unat (map ?sh rs)) < 2 ^ 64"
    using sum_le assms(3,5) by simp
  then have usum: "unat (sum_list (map ?sh rs)) = sum_list (map unat (map ?sh rs))"
    using unat_sum_list [of "map ?sh rs"] by simp
  have rem: "unat (tc - sum_list (map ?sh rs)) = unat tc - sum_list (map unat (map ?sh rs))"
    using usum sum_le by (simp add: unat_sub word_le_nat_alt)
  show ?thesis
  proof (cases "tc - sum_list (map ?sh rs) > 0")
    case False
    then have "unat tc - sum_list (map unat (map ?sh rs)) = 0"
      using rem by (simp add: word_less_nat_alt)
    with sum_le have "sum_list (map unat (map ?sh rs)) = unat tc" by linarith
    moreover have "icebergExtra ddiv tc tr rs = Ret (map ?sh rs)"
      using False by (simp add: icebergExtra_def Let_def)
    ultimately show ?thesis using that [of "map ?sh rs"] sh_le by simp
  next
    case True
    obtain es r where es: "distributeCrumbs (tc - sum_list (map ?sh rs)) (zip rs (map ?sh rs)) = (es, r)"
      by fastforce
    have zip: "zip rs (map ?sh rs) = map (\<lambda>rr. (rr, ?sh rr)) rs" by (simp add: zip_map2 zip_same_conv_map)
    have spec: "length es = length rs" "\<forall>j < length rs. es ! j \<le> rs ! j"
      "sum_list (map unat es) + unat r = sum_list (map (\<lambda>rr. unat (?sh rr)) rs) + unat (tc - sum_list (map ?sh rs))"
      "unat r = unat (tc - sum_list (map ?sh rs)) - sum_list (map (\<lambda>rr. unat rr - unat (?sh rr)) rs)"
      using distributeCrumbs_spec [OF _ es] sh_le by (auto simp: zip o_def)
    have "sum_list (map (\<lambda>rr. unat rr - unat (?sh rr)) rs) + sum_list (map (\<lambda>rr. unat (?sh rr)) rs)
      = sum_list (map unat rs)"
      using sh_le by (intro sum_list_subtract_nat) (simp add: word_le_nat_alt)
    then have "unat r = 0" using spec(4) rem total assms(5) by (simp add: o_def)
    then have r0: "r = 0" by (simp add: unat_eq_zero)
    have "sum_list (map unat es) = unat tc"
      using spec(3) \<open>unat r = 0\<close> rem sum_le by (simp add: o_def)
    moreover have "icebergExtra ddiv tc tr rs = Ret es"
      using True es r0 by (simp add: icebergExtra_def Let_def)
    ultimately show ?thesis using that spec(1,2) by blast
  qed
qed

end
