(* ===== verification/Price_Level_Props.thy ===== *)
theory Price_Level_Props
  imports Price_Level_Lemmas "HOL-Library.Sublist"
begin

text \<open>
  The contract of one price level: its invariant, and what an uncrossing promises to the side of
  the book that calls it (\<open>uncross_spec\<close>): nothing is lost or made up, the queue keeps its order,
  and the aggressive order or the level is exhausted.
\<close>

section \<open>The trades of the hidden volume\<close>

lemma tradedVolume_update:
  "k < length ts \<Longrightarrow>
   tradedVolume (ts[k := y]) + unat (t_Size (ts ! k)) = tradedVolume ts + unat (t_Size y)"
proof (induction ts arbitrary: k)
  case (Cons t ts)
  then show ?case by (cases k) auto
qed simp

lemma tradedVolume_nth_le: "k < length ts \<Longrightarrow> unat (t_Size (ts ! k)) \<le> tradedVolume ts"
  unfolding tradedVolume_def by (rule member_le_sum_list) auto

lemma newTrade_other_side:
  "o_Side ord \<noteq> o_Side agg \<Longrightarrow> \<exists>tr. newTrade agg ord sz = Ret tr"
  by (auto simp: newTrade_def Let_def)

definition paired :: "bool \<Rightarrow> trackIceberg \<times> uint64 \<Rightarrow> trackIceberg" where
  "paired fake p = (if fake then fst p else (fst p)\<lparr>ti_order := takeReserve (snd p) (ti_order (fst p))\<rparr>)"

lemma icebergTrades_spec:
  assumes "\<forall>p \<in> set ps. o_Side (ti_order (fst p)) \<noteq> o_Side (is_agg s)
      \<and> (case ti_trade (fst p) of None \<Rightarrow> True | Some j \<Rightarrow> j < length (is_trades s))"
    and "tradedVolume (is_trades s @ is_newTrades s) + sum_list (map (\<lambda>p. unat (snd p)) ps) < 2 ^ 64"
  shows "\<exists>s'. icebergTrades fake ps s = Ret s'
    \<and> is_agg s' = (is_agg s)\<lparr>o_Remaining := o_Remaining (is_agg s) - sum_list (map snd ps)\<rparr>
    \<and> is_volume s' = (if fake then is_volume s else is_volume s - sum_list (map snd ps))
    \<and> is_tracked s' = is_tracked s @ map (paired fake) ps
    \<and> tradedVolume (is_trades s' @ is_newTrades s')
        = tradedVolume (is_trades s @ is_newTrades s) + sum_list (map (\<lambda>p. unat (snd p)) ps)
    \<and> length (is_trades s') = length (is_trades s)
    \<and> is_newImpacted s' = is_newImpacted s @ map (\<lambda>p. ti_idx (fst p)) (filter (\<lambda>p. ti_trade (fst p) = None) ps)"
  using assms
proof (induction ps arbitrary: s)
  case Nil
  then show ?case by simp
next
  case (Cons p ps)
  obtain t e where p: "p = (t, e)" by fastforce
  define agg where "agg = (is_agg s)\<lparr>o_Remaining := o_Remaining (is_agg s) - e\<rparr>"
  define s1 where "s1 = s\<lparr>is_agg := agg, is_tracked := is_tracked s @ [paired fake p],
     is_volume := (if fake then is_volume s else is_volume s - e)\<rparr>"
  have side: "o_Side (ti_order t) \<noteq> o_Side agg" using Cons.prems(1) by (simp add: p agg_def)
  show ?case
  proof (cases "ti_trade t")
    case None
    obtain tr where tr: "newTrade agg (ti_order t) 0 = Ret tr" using newTrade_other_side [OF side] by blast
    have sz: "t_Size tr = 0" using newTrade_size [OF tr] .
    define s2 where "s2 = s1\<lparr>is_newTrades := is_newTrades s1 @ [tr\<lparr>t_Size := t_Size tr + e\<rparr>],
                    is_newImpacted := is_newImpacted s1 @ [ti_idx t]\<rparr>"
    have eq: "icebergTrades fake (p # ps) s = icebergTrades fake ps s2"
      by (simp add: p None Let_def agg_def [symmetric] tr s2_def s1_def paired_def)
    have "\<exists>s'. icebergTrades fake ps s2 = Ret s'
    \<and> is_agg s' = (is_agg s2)\<lparr>o_Remaining := o_Remaining (is_agg s2) - sum_list (map snd ps)\<rparr>
    \<and> is_volume s' = (if fake then is_volume s2 else is_volume s2 - sum_list (map snd ps))
    \<and> is_tracked s' = is_tracked s2 @ map (paired fake) ps
    \<and> tradedVolume (is_trades s' @ is_newTrades s')
        = tradedVolume (is_trades s2 @ is_newTrades s2) + sum_list (map (\<lambda>p. unat (snd p)) ps)
    \<and> length (is_trades s') = length (is_trades s2)
    \<and> is_newImpacted s' = is_newImpacted s2 @ map (\<lambda>p. ti_idx (fst p)) (filter (\<lambda>p. ti_trade (fst p) = None) ps)"
      by (rule Cons.IH) (use Cons.prems in \<open>auto simp: s2_def s1_def agg_def sz p split: option.splits\<close>)
    then show ?thesis unfolding eq
      by (auto simp: s2_def s1_def agg_def sz p None algebra_simps)
  next
    case (Some k)
    have k: "k < length (is_trades s)" using Cons.prems(1) by (simp add: p Some)
    let ?tr = "(is_trades s ! k)\<lparr>t_Size := t_Size (is_trades s ! k) + e\<rparr>"
    define s2 where "s2 = s1\<lparr>is_trades := (is_trades s)[k := ?tr]\<rparr>"
    have eq: "icebergTrades fake (p # ps) s = icebergTrades fake ps s2"
      by (simp add: p Some Let_def agg_def [symmetric] s2_def s1_def paired_def)
    have "unat (t_Size (is_trades s ! k)) + unat e < 2 ^ 64"
      using tradedVolume_nth_le [OF k] Cons.prems(2) by (simp add: p)
    then have "unat (t_Size ?tr) = unat (t_Size (is_trades s ! k)) + unat e"
      by (simp add: unat_word_ariths)
    then have tv: "tradedVolume ((is_trades s)[k := ?tr]) = tradedVolume (is_trades s) + unat e"
      using tradedVolume_update [OF k, of ?tr] by simp
    have "\<exists>s'. icebergTrades fake ps s2 = Ret s'
    \<and> is_agg s' = (is_agg s2)\<lparr>o_Remaining := o_Remaining (is_agg s2) - sum_list (map snd ps)\<rparr>
    \<and> is_volume s' = (if fake then is_volume s2 else is_volume s2 - sum_list (map snd ps))
    \<and> is_tracked s' = is_tracked s2 @ map (paired fake) ps
    \<and> tradedVolume (is_trades s' @ is_newTrades s')
        = tradedVolume (is_trades s2 @ is_newTrades s2) + sum_list (map (\<lambda>p. unat (snd p)) ps)
    \<and> length (is_trades s') = length (is_trades s2)
    \<and> is_newImpacted s' = is_newImpacted s2 @ map (\<lambda>p. ti_idx (fst p)) (filter (\<lambda>p. ti_trade (fst p) = None) ps)"
      by (rule Cons.IH) (use Cons.prems tv in \<open>auto simp: s2_def s1_def agg_def p split: option.splits\<close>)
    then show ?thesis unfolding eq
      by (auto simp: s2_def s1_def agg_def tv p Some diff_diff_eq)
  qed
qed

section \<open>Writing the tracked icebergs back\<close>

lemma length_writeTracked [simp]: "length (writeTracked ts ords) = length ords"
  by (induction ts arbitrary: ords) auto

lemma writeTracked_nth_other:
  "j \<notin> set (map ti_idx ts) \<Longrightarrow> writeTracked ts ords ! j = ords ! j"
  by (induction ts arbitrary: ords) auto

lemma writeTracked_nth:
  "distinct (map ti_idx ts) \<Longrightarrow> t \<in> set ts \<Longrightarrow> ti_idx t < length ords \<Longrightarrow>
   writeTracked ts ords ! ti_idx t = ti_order t"
  by (induction ts arbitrary: ords) (auto simp: writeTracked_nth_other)

lemma volumeOf_update:
  "j < length ords \<Longrightarrow> volumeOf (ords[j := y]) + trueRem (ords ! j) = volumeOf ords + trueRem y"
proof (induction ords arbitrary: j)
  case (Cons x xs)
  then show ?case by (cases j) auto
qed simp

lemma reserveOf_takeReserve:
  "unat e \<le> reserveOf ord \<Longrightarrow> reserveOf (takeReserve e ord) + unat e = reserveOf ord"
  by (auto simp: reserveOf_def takeReserve_def unat_sub word_le_nat_alt split: option.splits)

lemma trueRem_takeReserve:
  "unat e \<le> reserveOf ord \<Longrightarrow> trueRem (takeReserve e ord) + unat e = trueRem ord"
  using reserveOf_takeReserve [of e ord] by (auto simp: trueRem_def takeReserve_def split: option.splits)

lemma writeTracked_volume:
  assumes "distinct (map (\<lambda>p. ti_idx (fst p)) ps)"
    and "\<forall>p \<in> set ps. ti_idx (fst p) < length ords \<and> ti_order (fst p) = ords ! ti_idx (fst p)
      \<and> unat (snd p) \<le> reserveOf (ti_order (fst p))"
  shows "volumeOf (writeTracked (map (paired False) ps) ords) + sum_list (map (\<lambda>p. unat (snd p)) ps) = volumeOf ords"
  using assms
proof (induction ps arbitrary: ords)
  case Nil
  then show ?case by simp
next
  case (Cons p ps)
  obtain t e where p: "p = (t, e)" by fastforce
  have t: "ti_idx t < length ords" "ti_order t = ords ! ti_idx t" "unat e \<le> reserveOf (ti_order t)"
    using Cons.prems(2) by (auto simp: p)
  let ?y = "takeReserve e (ti_order t)"
  have "volumeOf (writeTracked (map (paired False) ps) (ords[ti_idx t := ?y])) + sum_list (map (\<lambda>p. unat (snd p)) ps)
    = volumeOf (ords[ti_idx t := ?y])"
    by (rule Cons.IH) (use Cons.prems in \<open>force simp: p nth_list_update\<close>)+
  moreover have "volumeOf (ords[ti_idx t := ?y]) + unat e = volumeOf ords"
    using volumeOf_update [OF t(1), of ?y] trueRem_takeReserve [OF t(3)] t(2) by simp
  moreover have "paired False p = t\<lparr>ti_order := ?y\<rparr>" by (simp add: p paired_def)
  ultimately show ?case by (simp add: p)
qed

section \<open>The hidden volume as a whole\<close>

lemma unat_reservedRemaining: "unat (reservedRemaining t) = reserveOf (ti_order t)"
  by (simp add: reservedRemaining_def reserveOf_def split: option.splits)

lemma sum_list_of_nat_unat: "sum_list ws = of_nat (sum_list (map unat ws))"
  by (induction ws) auto

definition hiddenVolume :: "trackIceberg list \<Rightarrow> nat" where
  "hiddenVolume ts = sum_list (map (\<lambda>t. reserveOf (ti_order t)) ts)"

lemma uncrossIcebergs_spec:
  assumes "decimal_div ddiv" and "0 < hiddenVolume ts" and "hiddenVolume ts < 2 ^ 63"
    and "length ts < 2 * 10 ^ 16"
    and sides: "\<forall>t \<in> set ts. o_Side (ti_order t) \<noteq> o_Side agg
      \<and> (case ti_trade t of None \<Rightarrow> True | Some j \<Rightarrow> j < length trades)"
    and bound: "tradedVolume trades + unat (o_Remaining agg) < 2 ^ 64"
  obtains s es where "uncrossIcebergs ddiv agg ts fake vol trades = Ret s"
    and "icebergExtra ddiv (min64 (o_Remaining agg) (sum_list (map reservedRemaining ts)))
      (sum_list (map reservedRemaining ts)) (map reservedRemaining ts) = Ret es"
    and "length es = length ts"
    and "sum_list (map unat es) = min (unat (o_Remaining agg)) (hiddenVolume ts)"
    and "\<forall>p \<in> set (zip ts es). unat (snd p) \<le> reserveOf (ti_order (fst p))"
    and "is_agg s = agg\<lparr>o_Remaining := o_Remaining agg - sum_list es\<rparr>"
    and "is_volume s = (if fake then vol else vol - sum_list es)"
    and "is_tracked s = map (paired fake) (zip ts es)"
    and "tradedVolume (is_trades s @ is_newTrades s) = tradedVolume trades + sum_list (map unat es)"
proof -
  let ?rs = "map reservedRemaining ts"
  have hv: "hiddenVolume ts = sum_list (map unat ?rs)"
    by (simp add: hiddenVolume_def o_def unat_reservedRemaining)
  have tr: "unat (sum_list ?rs) = sum_list (map unat ?rs)"
    using assms(3) hv by (intro unat_sum_list) simp
  have tc: "unat (min64 (o_Remaining agg) (sum_list ?rs)) = min (unat (o_Remaining agg)) (hiddenVolume ts)"
    by (simp add: unat_min64 tr hv)
  obtain es where es: "icebergExtra ddiv (min64 (o_Remaining agg) (sum_list ?rs)) (sum_list ?rs) ?rs = Ret es"
    "length es = length ?rs" "\<forall>j < length ?rs. es ! j \<le> ?rs ! j"
    "sum_list (map unat es) = unat (min64 (o_Remaining agg) (sum_list ?rs))"
    by (rule icebergExtra_spec [OF assms(1) tr, of "min64 (o_Remaining agg) (sum_list ?rs)"])
      (use assms(2-4) hv tr tc in auto)
  let ?s = "\<lparr>is_agg = agg, is_volume = vol, is_trades = trades, is_newTrades = [],
               is_newImpacted = [], is_tracked = []\<rparr>"
  have snds: "map snd (zip ts es) = es" "map (\<lambda>p. unat (snd p)) (zip ts es) = map unat es"
    using es(2) by (simp_all flip: map_map [of unat snd, unfolded o_def])
  have fsts: "fst p \<in> set ts" if "p \<in> set (zip ts es)" for p
    using that by (metis prod.collapse set_zip_leftD)
  have prem1: "\<forall>p \<in> set (zip ts es). o_Side (ti_order (fst p)) \<noteq> o_Side (is_agg ?s)
      \<and> (case ti_trade (fst p) of None \<Rightarrow> True | Some j \<Rightarrow> j < length (is_trades ?s))"
    using sides fsts by (simp split: option.splits) blast
  have prem2: "tradedVolume (is_trades ?s @ is_newTrades ?s)
      + sum_list (map (\<lambda>p. unat (snd p)) (zip ts es)) < 2 ^ 64"
    using bound es(4) tc by (simp add: snds)
  have "\<exists>s'. icebergTrades fake (zip ts es) ?s = Ret s'
    \<and> is_agg s' = agg\<lparr>o_Remaining := o_Remaining agg - sum_list es\<rparr>
    \<and> is_volume s' = (if fake then vol else vol - sum_list es)
    \<and> is_tracked s' = map (paired fake) (zip ts es)
    \<and> tradedVolume (is_trades s' @ is_newTrades s') = tradedVolume trades + sum_list (map unat es)"
    using icebergTrades_spec [OF prem1 prem2, of fake] by (force simp: snds)
  then obtain s where s: "icebergTrades fake (zip ts es) ?s = Ret s"
    "is_agg s = agg\<lparr>o_Remaining := o_Remaining agg - sum_list es\<rparr>"
    "is_volume s = (if fake then vol else vol - sum_list es)"
    "is_tracked s = map (paired fake) (zip ts es)"
    "tradedVolume (is_trades s @ is_newTrades s) = tradedVolume trades + sum_list (map unat es)"
    by blast
  have "sum_list ?rs \<noteq> 0" using tr hv assms(2) by (metis less_irrefl unat_0)
  then have "uncrossIcebergs ddiv agg ts fake vol trades = Ret s"
    using es(1) s(1) by (simp add: uncrossIcebergs_def Let_def)
  moreover have "unat (snd p) \<le> reserveOf (ti_order (fst p))" if "p \<in> set (zip ts es)" for p
  proof -
    from that obtain j where j: "j < length ts" "p = (ts ! j, es ! j)"
      using es(2) by (auto simp: set_zip)
    with es(3) have "unat (es ! j) \<le> unat (reservedRemaining (ts ! j))"
      by (simp add: word_le_nat_alt)
    with j show ?thesis by (simp add: unat_reservedRemaining)
  qed
  ultimately show ?thesis using that [OF _ es(1)] es(2,4) tc s by simp
qed

section \<open>The level invariant\<close>

text \<open>
  The volume of a level is the sum of what its orders have left, visible or hidden, every resting
  order has something left, and the total stays below the signed range that the pro-rata split
  converts it to.
\<close>

definition level_inv :: "PriceLevel \<Rightarrow> bool" where
  "level_inv l \<longleftrightarrow> unat (pl_volume l) = volumeOf (pl_orders l) \<and> volumeOf (pl_orders l) < 2 ^ 63
     \<and> (\<forall>ord \<in> set (pl_orders l). 0 < trueRem ord)"

lemma trueRem_le_volumeOf: "ord \<in> set ords \<Longrightarrow> trueRem ord \<le> volumeOf ords"
  unfolding volumeOf_def by (rule member_le_sum_list) auto

lemma level_inv_order_ok: "level_inv l \<Longrightarrow> \<forall>ord \<in> set (pl_orders l). order_ok ord"
  using trueRem_le_volumeOf [of _ "pl_orders l"] by (fastforce simp: level_inv_def order_ok_def)

lemma volumeOf_filter: "volumeOf (filter (\<lambda>ord. 0 < trueRem ord) ords) = volumeOf ords"
  by (induction ords) auto

lemma level_inv_NewPriceLevel [inv_intros]: "level_inv (NewPriceLevel price)"
  by (simp add: level_inv_def NewPriceLevel_def)

lemma level_inv_addOrder [inv_intros]:
  assumes "level_inv l" and "0 < trueRem ord" and "volumeOf (pl_orders l) + trueRem ord < 2 ^ 63"
  shows "level_inv (pl_addOrder ord l)"
proof -
  have "unat (TrueRemaining ord) = trueRem ord" using assms(3) by (intro unat_TrueRemaining) simp
  with assms show ?thesis
    by (auto simp: level_inv_def pl_addOrder_def unat_word_ariths)
qed

lemma volumeOf_remove_nth: "i < length ords \<Longrightarrow> volumeOf (remove_nth i ords) + trueRem (ords ! i) = volumeOf ords"
proof (induction ords arbitrary: i)
  case (Cons x xs)
  then show ?case by (cases i) auto
qed simp

lemma level_inv_removeOrder [inv_intros]:
  assumes "level_inv l" and "i < length (pl_orders l)"
  shows "\<exists>l'. pl_removeOrder i l = Ret l' \<and> level_inv l'"
proof -
  have v: "volumeOf (remove_nth i (pl_orders l)) + trueRem (pl_orders l ! i) = volumeOf (pl_orders l)"
    by (rule volumeOf_remove_nth [OF assms(2)])
  then have "unat (TrueRemaining (pl_orders l ! i)) = trueRem (pl_orders l ! i)"
    using assms(1) by (intro unat_TrueRemaining) (simp add: level_inv_def)
  with v assms show ?thesis
    using set_remove_nth_subset [of i "pl_orders l"]
    by (auto simp: pl_removeOrder_def level_inv_def unat_sub word_le_nat_alt)
qed

lemma level_inv_uncrossed:
  assumes "level_inv l" and "volumeOf ords' + n = volumeOf (pl_orders l)"
    and "v = pl_volume l - of_nat n"
  shows "level_inv (l\<lparr>pl_orders := filter (\<lambda>ord. 0 < trueRem ord) ords', pl_volume := v\<rparr>)"
proof -
  have "unat (of_nat n :: uint64) = n"
    using assms(1,2) by (simp add: unat_of_nat take_bit_nat_eq_self level_inv_def)
  then have "unat v = volumeOf ords'"
    using assms by (simp add: level_inv_def unat_sub word_le_nat_alt)
  with assms show ?thesis by (simp add: level_inv_def volumeOf_filter)
qed

lemma uncrossOrders_returns:
  "\<forall>ord \<in> set ords. 0 < trueRem ord \<and> o_Side ord \<noteq> o_Side agg \<Longrightarrow> 0 < o_Remaining agg \<Longrightarrow>
   \<exists>u. uncrossOrders chk agg vol i k ords = Ret u"
proof (induction ords arbitrary: agg vol i k)
  case Nil
  then show ?case by simp
next
  case (Cons ord rest)
  let ?sz = "getVolumeAllocation agg ord"
  obtain tr where tr: "newTrade agg ord ?sz = Ret tr"
    using newTrade_other_side [of ord agg] Cons.prems(1) by auto
  have "?sz = 0 \<Longrightarrow> hiddenOnly ord"
    using Cons.prems
    by (auto simp: getVolumeAllocation_def hiddenOnly_def trueRem_def reserveOf_def split: option.splits)
  moreover have "\<exists>u. uncrossOrders chk agg vol (Suc i) k rest = Ret u"
    by (rule Cons.IH) (use Cons.prems in auto)
  moreover have "\<exists>u. uncrossOrders chk (fill ?sz agg) (vol - ?sz) (Suc i) (Suc k) rest = Ret u"
    if "o_Remaining (fill ?sz agg) \<noteq> 0"
  proof (rule Cons.IH)
    show "0 < o_Remaining (fill ?sz agg)" using that by (simp only: word_neq_0_conv)
  qed (use Cons.prems in auto)
  ultimately show ?case using tr by (auto simp: Let_def)
qed

lemma run_same_agg: "uncross_run chk agg vol i k ords u \<Longrightarrow>
  uo_agg u = agg\<lparr>o_Remaining := o_Remaining (uo_agg u)\<rparr>"
  by (induction rule: uncross_run.induct) auto

lemma run_sides: "uncross_run chk agg vol i k ords u \<Longrightarrow> map o_Side (uo_orders u) = map o_Side ords"
  by (induction rule: uncross_run.induct) auto

lemma set_indices: "set (indices i P xs) = {j. i \<le> j \<and> j < i + length xs \<and> P (xs ! (j - i))}"
proof (induction xs arbitrary: i)
  case Nil
  then show ?case by simp
next
  case (Cons x xs)
  have "j \<in> set (indices i P (x # xs)) \<longleftrightarrow> i \<le> j \<and> j < i + length (x # xs) \<and> P ((x # xs) ! (j - i))"
    for j by (cases "j = i") (auto simp: Cons.IH nth_Cons')
  then show ?case by blast
qed

lemma sorted_indices: "sorted_wrt (<) (indices i P xs)"
  by (induction xs arbitrary: i) (auto simp: sorted_wrt_append set_indices)

section \<open>Uncrossing a level\<close>

lemma tracked_pairs:
  assumes "tracked_ok 0 0 n ords ts" and "length es = length ts"
  shows "distinct (map (\<lambda>p. ti_idx (fst p)) (zip ts es))"
    and "\<forall>p \<in> set (zip ts es). ti_idx (fst p) < length ords \<and> ti_order (fst p) = ords ! ti_idx (fst p)"
proof -
  have "map (\<lambda>p. ti_idx (fst p)) (zip ts es) = map ti_idx ts"
    using assms(2) by (simp flip: map_map [of ti_idx fst, unfolded o_def])
  then show "distinct (map (\<lambda>p. ti_idx (fst p)) (zip ts es))"
    using assms(1) by (simp add: tracked_ok_def strict_sorted_iff)
  show "\<forall>p \<in> set (zip ts es). ti_idx (fst p) < length ords \<and> ti_order (fst p) = ords ! ti_idx (fst p)"
    using assms(1) unfolding tracked_ok_def by (auto dest!: set_zip_leftD)
qed

lemma hiddenVolume_le:
  assumes "tracked_ok 0 0 n ords ts"
  shows "hiddenVolume ts \<le> volumeOf ords"
proof -
  let ?es = "map reservedRemaining ts"
  have "volumeOf (writeTracked (map (paired False) (zip ts ?es)) ords)
      + sum_list (map (\<lambda>p. unat (snd p)) (zip ts ?es)) = volumeOf ords"
    using tracked_pairs [OF assms, of ?es]
    by (intro writeTracked_volume) (auto simp: zip_map2 zip_same_conv_map unat_reservedRemaining)
  moreover have "sum_list (map (\<lambda>p. unat (snd p)) (zip ts ?es)) = hiddenVolume ts"
    by (simp add: zip_map2 zip_same_conv_map o_def hiddenVolume_def unat_reservedRemaining)
  ultimately show ?thesis by simp
qed

lemma hiddenVolume_pos:
  assumes "tracked_ok 0 0 n ords ts" and "ts \<noteq> []"
  shows "0 < hiddenVolume ts"
  using assms by (cases ts) (auto simp: tracked_ok_def hiddenVolume_def hasReserve_iff)

text \<open>The emptied and the depleted orders are exactly those with nothing left.\<close>

lemma removed_orders:
  assumes tr: "tracked_ok 0 0 n ords ts" and len: "length es = length ts"
    and small: "volumeOf ords < 2 ^ 63"
    and le: "\<forall>p \<in> set (zip ts es). unat (snd p) \<le> reserveOf (ti_order (fst p))"
    and ts': "ts' = map (paired False) (zip ts es)"
  shows "removeAll 0 (sort (indices 0 (\<lambda>ord. trueRem ord = 0) ords
        @ map ti_idx (filter (\<lambda>t. TrueRemaining (ti_order t) = 0) ts'))) (writeTracked ts' ords)
     = filter (\<lambda>ord. 0 < trueRem ord) (writeTracked ts' ords)" (is "removeAll 0 (sort (?a @ ?b)) ?w = _")
proof -
  have idx: "map ti_idx ts' = map ti_idx ts"
    using len by (simp add: ts' o_def paired_def flip: map_map [of ti_idx fst, unfolded o_def])
  have dist: "distinct (map ti_idx ts')"
    using tr by (simp add: idx tracked_ok_def strict_sorted_iff)
  have facts: "ti_idx t' < length ords \<and> 0 < trueRem (ords ! ti_idx t') \<and> ?w ! ti_idx t' = ti_order t'
      \<and> (TrueRemaining (ti_order t') = 0 \<longleftrightarrow> trueRem (ti_order t') = 0)" if "t' \<in> set ts'" for t'
  proof -
    from that obtain t e where te: "(t, e) \<in> set (zip ts es)" "t' = paired False (t, e)"
      by (auto simp: ts')
    then have t: "ti_idx t < length ords" "ti_order t = ords ! ti_idx t" "hasReserve (ti_order t)"
      "unat e \<le> reserveOf (ti_order t)"
      using tr le by (auto simp: tracked_ok_def dest: set_zip_leftD)
    have "trueRem (ti_order t) \<le> volumeOf ords"
      using t(1,2) by (simp add: trueRem_le_volumeOf)
    then have "trueRem (takeReserve e (ti_order t)) < 2 ^ 64"
      using trueRem_takeReserve [OF t(4)] small by simp
    then have "TrueRemaining (ti_order t') = 0 \<longleftrightarrow> trueRem (ti_order t') = 0"
      using TrueRemaining_0_iff te(2) by (simp add: paired_def)
    moreover have "?w ! ti_idx t' = ti_order t'"
      using writeTracked_nth [OF dist that] t(1) te(2) by (simp add: paired_def)
    moreover have "0 < trueRem (ords ! ti_idx t)" using t(2,3) by (simp add: hasReserve_iff trueRem_def)
    ultimately show ?thesis using t(1) te(2) by (simp add: paired_def)
  qed
  have seta: "set ?a = {j. j < length ords \<and> trueRem (ords ! j) = 0}" by (simp add: set_indices)
  have setb: "set ?b = {j. \<exists>t \<in> set ts'. ti_idx t = j \<and> trueRem (ti_order t) = 0}"
    using facts by auto
  have disj: "set ?a \<inter> set ?b = {}" unfolding seta using facts by fastforce
  have "distinct ?b" using dist by (simp add: distinct_map inj_on_def)
  then have "distinct (?a @ ?b)"
    using disj sorted_indices [of 0 "\<lambda>ord. trueRem ord = 0" ords] by (simp add: strict_sorted_iff)
  then have sorted: "sorted_wrt (<) (sort (?a @ ?b))" by (simp add: strict_sorted_iff)
  show ?thesis
  proof (rule removeAll_filter [OF sorted])
    show "\<forall>i \<in> set (sort (?a @ ?b)). i < length ?w" using facts by (auto simp: seta)
    show "\<forall>j < length ?w. j \<notin> set (sort (?a @ ?b)) \<longleftrightarrow> 0 < trueRem (?w ! j)"
    proof (intro allI impI)
      fix j assume j: "j < length ?w"
      show "j \<notin> set (sort (?a @ ?b)) \<longleftrightarrow> 0 < trueRem (?w ! j)"
      proof (cases "j \<in> ti_idx ` set ts'")
        case True
        then obtain t where t: "t \<in> set ts'" "ti_idx t = j" by auto
        have "j \<in> set ?b \<longleftrightarrow> trueRem (ti_order t) = 0"
          unfolding setb using t dist by (auto dest: inj_onD simp: distinct_map)
        moreover have "j \<notin> set ?a" using facts [OF t(1)] t(2) by (auto simp: seta)
        ultimately show ?thesis using facts [OF t(1)] t(2) by auto
      next
        case False
        then have "j \<notin> set ?b" by auto
        moreover have "?w ! j = ords ! j" using False by (intro writeTracked_nth_other) auto
        moreover have "j \<in> set ?a \<longleftrightarrow> trueRem (ords ! j) = 0" using j by (simp add: seta)
        ultimately show ?thesis by simp
      qed
    qed
  qed
qed

lemma removed_emptied:
  "removeAll 0 (indices 0 (\<lambda>ord. trueRem ord = 0) ords) ords = filter (\<lambda>ord. 0 < trueRem ord) ords"
  by (rule removeAll_filter [OF sorted_indices]) (auto simp: set_indices)

section \<open>What stays of an order\<close>

definition order_key :: "Order \<Rightarrow> string \<times> string \<times> Side \<times> Uint" where
  "order_key ord = (o_ID ord, o_Party ord, o_Side ord, o_Price ord)"

lemma order_key_simps [simp]:
  "order_key (ord\<lparr>o_Remaining := x\<rparr>) = order_key ord"
  "order_key (takeReserve e ord) = order_key ord"
  by (simp_all add: order_key_def takeReserve_def split: option.splits)

lemma run_keys: "uncross_run chk agg vol i k ords u \<Longrightarrow> map order_key (uo_orders u) = map order_key ords"
  by (induction rule: uncross_run.induct) auto

lemma writeTracked_map:
  "\<forall>t \<in> set ts. ti_idx t < length ords \<longrightarrow> f (ti_order t) = f (ords ! ti_idx t) \<Longrightarrow>
   map f (writeTracked ts ords) = map f ords"
proof (induction ts arbitrary: ords)
  case Nil
  then show ?case by simp
next
  case (Cons t ts)
  have same: "map f (ords[ti_idx t := ti_order t]) = map f ords"
    using Cons.prems by (cases "ti_idx t < length ords") (auto simp: map_update list_update_same_conv list_update_beyond)
  then have "f (ords[ti_idx t := ti_order t] ! j) = f (ords ! j)" if "j < length ords" for j
    using that by (metis length_list_update nth_map)
  with Cons.prems Cons.IH [of "ords[ti_idx t := ti_order t]"] same show ?case by simp
qed

definition at_prices :: "Uint set \<Rightarrow> Trade list \<Rightarrow> bool" where
  "at_prices ps ts \<longleftrightarrow> t_Price ` set ts \<subseteq> ps"

lemma at_prices_simps [simp]:
  "at_prices ps []" "at_prices ps (t # ts) \<longleftrightarrow> t_Price t \<in> ps \<and> at_prices ps ts"
  "at_prices ps (ts @ us) \<longleftrightarrow> at_prices ps ts \<and> at_prices ps us"
  by (auto simp: at_prices_def)

lemma at_prices_mono: "at_prices ps ts \<Longrightarrow> ps \<subseteq> qs \<Longrightarrow> at_prices qs ts"
  by (auto simp: at_prices_def)

lemma newTrade_price: "newTrade agg ord sz = Ret tr \<Longrightarrow> t_Price tr = o_Price ord"
  by (auto simp: newTrade_def Let_def split: if_splits)

lemma setTradeOrders_price [simp]: "t_Price (setTradeOrders agg ord tr) = t_Price tr"
  by (simp add: setTradeOrders_def)

lemma run_prices: "uncross_run chk agg vol i k ords u \<Longrightarrow> at_prices (o_Price ` set ords) (uo_trades u)"
  by (induction rule: uncross_run.induct) (auto simp: newTrade_price intro: at_prices_mono)

lemma icebergTrades_prices:
  "icebergTrades fake ps s = Ret s' \<Longrightarrow> at_prices qs (is_trades s @ is_newTrades s) \<Longrightarrow>
   \<forall>p \<in> set ps. o_Price (ti_order (fst p)) \<in> qs
     \<and> (case ti_trade (fst p) of None \<Rightarrow> True | Some j \<Rightarrow> j < length (is_trades s)) \<Longrightarrow>
   at_prices qs (is_trades s' @ is_newTrades s')"
proof (induction ps arbitrary: s)
  case Nil
  then show ?case by simp
next
  case (Cons p ps)
  obtain t e where p: "p = (t, e)" by fastforce
  show ?case
  proof (cases "ti_trade t")
    case None
    from Cons.prems(1) obtain tr where tr: "newTrade (fill e (is_agg s)) (ti_order t) 0 = Ret tr"
      by (auto simp: p None Let_def gbind_Ret_iff)
    show ?thesis
      using Cons.prems newTrade_price [OF tr]
      by (intro Cons.IH [of "s\<lparr>is_agg := fill e (is_agg s), is_tracked := is_tracked s @ [paired fake p],
         is_volume := (if fake then is_volume s else is_volume s - e),
         is_newTrades := is_newTrades s @ [tr\<lparr>t_Size := t_Size tr + e\<rparr>],
         is_newImpacted := is_newImpacted s @ [ti_idx t]\<rparr>"])
        (auto simp: p None tr paired_def Let_def split: option.splits)
  next
    case (Some k)
    let ?tr = "(is_trades s ! k)\<lparr>t_Size := t_Size (is_trades s ! k) + e\<rparr>"
    have k: "k < length (is_trades s)" using Cons.prems(3) by (simp add: p Some)
    have "at_prices qs (is_trades s)" using Cons.prems(2) by simp
    then have "at_prices qs ((is_trades s)[k := ?tr])"
      using k by (auto simp: at_prices_def dest!: subsetD [OF set_update_subset_insert])
    then show ?thesis
      using Cons.prems
      by (intro Cons.IH [of "s\<lparr>is_agg := fill e (is_agg s), is_tracked := is_tracked s @ [paired fake p],
         is_volume := (if fake then is_volume s else is_volume s - e),
         is_trades := (is_trades s)[k := ?tr]\<rparr>"])
        (auto simp: p Some paired_def Let_def split: option.splits)
  qed
qed

lemma uncrossIcebergs_prices:
  assumes "uncrossIcebergs ddiv agg ts fake vol trades = Ret s" and "at_prices qs trades"
    and "\<forall>t \<in> set ts. o_Price (ti_order t) \<in> qs
     \<and> (case ti_trade t of None \<Rightarrow> True | Some j \<Rightarrow> j < length trades)"
  shows "at_prices qs (is_trades s @ is_newTrades s)"
proof (cases "sum_list (map reservedRemaining ts) = 0")
  case True
  then show ?thesis using assms by (auto simp: uncrossIcebergs_def Let_def)
next
  case False
  let ?s = "\<lparr>is_agg = agg, is_volume = vol, is_trades = trades, is_newTrades = [],
               is_newImpacted = [], is_tracked = []\<rparr>"
  from False assms(1) obtain es where "icebergTrades fake (zip ts es) ?s = Ret s"
    by (auto simp: uncrossIcebergs_def Let_def gbind_Ret_iff)
  then show ?thesis
    by (rule icebergTrades_prices) (use assms(2,3) in \<open>auto dest!: set_zip_leftD split: option.splits\<close>)
qed

definition only_remaining :: "Order \<Rightarrow> Order \<Rightarrow> bool" where
  "only_remaining ord ord' \<longleftrightarrow> ord' = ord\<lparr>o_Remaining := o_Remaining ord'\<rparr>"

lemma run_only_remaining: "uncross_run chk agg vol i k ords u \<Longrightarrow> only_remaining agg (uo_agg u)"
  unfolding only_remaining_def by (rule run_same_agg)

text \<open>What one uncrossing of a level promises to its caller.\<close>

definition uncross_spec :: "Order \<Rightarrow> PriceLevel \<Rightarrow> uncrossResult \<Rightarrow> bool" where
  "uncross_spec agg l r \<longleftrightarrow>
     level_inv (ur_level r) \<and> pl_price (ur_level r) = pl_price l
     \<and> subseq (map order_key (pl_orders (ur_level r))) (map order_key (pl_orders l))
     \<and> only_remaining agg (ur_agg r)
     \<and> unat (o_Remaining (ur_agg r)) + tradedVolume (ur_trades r) = unat (o_Remaining agg)
     \<and> volumeOf (pl_orders (ur_level r)) + tradedVolume (ur_trades r) = volumeOf (pl_orders l)
     \<and> at_prices (o_Price ` set (pl_orders l)) (ur_trades r)
     \<and> ur_filled r = (o_Remaining (ur_agg r) = 0)
     \<and> ur_err r \<in> {None, Some ErrWashTrade}
     \<and> (ur_err r = None \<longrightarrow>
          tradedVolume (ur_trades r) = min (unat (o_Remaining agg)) (volumeOf (pl_orders l)))"

lemma subseq_filter_keys:
  "map order_key ords' = map order_key ords \<Longrightarrow> subseq (map order_key (filter P ords')) (map order_key ords)"
  by (metis subseq_filter_left subseq_map)

lemma run_exhausted_volume:
  assumes "uncross_run chk agg vol i k ords u" and "uo_err u = None" and "0 < o_Remaining (uo_agg u)"
  shows "hiddenVolume (uo_icebergs u) = volumeOf (uo_orders u)"
proof -
  have e: "\<forall>ord \<in> set (uo_orders u). o_Remaining ord = 0"
    "map ti_order (uo_icebergs u) = filter hasReserve (uo_orders u)"
    using run_exhausted [OF assms] by auto
  have "hiddenVolume (uo_icebergs u) = sum_list (map reserveOf (map ti_order (uo_icebergs u)))"
    by (simp add: hiddenVolume_def o_def)
  also have "\<dots> = sum_list (map reserveOf (filter hasReserve (uo_orders u)))" by (simp only: e(2))
  also have "\<dots> = sum_list (map reserveOf (uo_orders u))"
    by (rule sum_list_map_filter) (auto simp: hasReserve_iff)
  also have "\<dots> = volumeOf (uo_orders u)"
    unfolding volumeOf_def by (rule arg_cong [of _ _ sum_list]) (use e(1) in \<open>auto simp: trueRem_def\<close>)
  finally show ?thesis .
qed

lemma tracked_length:
  assumes "tracked_ok 0 0 n ords ts"
  shows "length ts \<le> length ords"
proof -
  have "length ts = card (set (map ti_idx ts))"
    using assms by (metis distinct_card length_map strict_sorted_iff tracked_ok_def)
  also have "\<dots> \<le> card {..<length ords}"
    by (rule card_mono) (use assms in \<open>auto simp: tracked_ok_def\<close>)
  finally show ?thesis by simp
qed


lemma run_visible_volume:
  assumes run: "uncross_run chk agg vol 0 0 ords u" and none: "uo_err u = None"
    and stop: "\<not> (o_Remaining (uo_agg u) > 0 \<and> uo_icebergs u \<noteq> [])"
  shows "tradedVolume (uo_trades u) = min (unat (o_Remaining agg)) (volumeOf ords)"
proof (cases "o_Remaining (uo_agg u) > 0")
  case True
  with stop have "uo_icebergs u = []" by simp
  with run_exhausted_volume [OF run none True] have "volumeOf (uo_orders u) = 0"
    by (simp add: hiddenVolume_def)
  with run_orders [OF run] run_agg [OF run] show ?thesis by linarith
next
  case False
  then have "unat (o_Remaining (uo_agg u)) = 0" by (simp add: word_less_nat_alt)
  with run_orders [OF run] run_agg [OF run] show ?thesis by linarith
qed

lemma run_tracked_orders:
  assumes "uncross_run chk agg vol 0 0 ords u" and "\<forall>ord \<in> set ords. o_Side ord \<noteq> o_Side agg"
  shows "\<forall>t \<in> set (uo_icebergs u). o_Side (ti_order t) \<noteq> o_Side (uo_agg u)
        \<and> (case ti_trade t of None \<Rightarrow> True | Some j \<Rightarrow> j < length (uo_trades u))"
    and "\<forall>t \<in> set (uo_icebergs u). o_Price (ti_order t) \<in> o_Price ` set ords
        \<and> (case ti_trade t of None \<Rightarrow> True | Some j \<Rightarrow> j < length (uo_trades u))"
proof -
  have side: "o_Side (uo_agg u) = o_Side agg" by (subst run_same_agg [OF assms(1)]) simp
  have t: "(case ti_trade t of None \<Rightarrow> True | Some j \<Rightarrow> j < length (uo_trades u))
      \<and> (\<exists>ord \<in> set ords. order_key (ti_order t) = order_key ord)" if "t \<in> set (uo_icebergs u)" for t
  proof -
    from that run_tracked [OF assms(1)] have "ti_order t \<in> set (uo_orders u)"
      and j: "case ti_trade t of None \<Rightarrow> True | Some j \<Rightarrow> j < length (uo_trades u)"
      by (auto simp: tracked_ok_def split: option.splits)
    then have "order_key (ti_order t) \<in> set (map order_key ords)"
      using run_keys [OF assms(1)] by (metis image_eqI list.set_map)
    with j show ?thesis by auto
  qed
  show "\<forall>t \<in> set (uo_icebergs u). o_Side (ti_order t) \<noteq> o_Side (uo_agg u)
        \<and> (case ti_trade t of None \<Rightarrow> True | Some j \<Rightarrow> j < length (uo_trades u))"
    using t assms(2) unfolding side order_key_def by fastforce
  show "\<forall>t \<in> set (uo_icebergs u). o_Price (ti_order t) \<in> o_Price ` set ords
        \<and> (case ti_trade t of None \<Rightarrow> True | Some j \<Rightarrow> j < length (uo_trades u))"
    using t unfolding order_key_def by fastforce
qed

lemma writeTracked_paired:
  assumes "tracked_ok 0 0 n ords ts" and "length es = length ts"
    and "\<forall>p \<in> set (zip ts es). unat (snd p) \<le> reserveOf (ti_order (fst p))"
  shows "volumeOf (writeTracked (map (paired False) (zip ts es)) ords) + sum_list (map unat es) = volumeOf ords"
    and "map order_key (writeTracked (map (paired False) (zip ts es)) ords) = map order_key ords"
proof -
  have "map (\<lambda>p. unat (snd p)) (zip ts es) = map unat es"
    using assms(2) by (simp flip: map_map [of unat snd, unfolded o_def])
  then show "volumeOf (writeTracked (map (paired False) (zip ts es)) ords) + sum_list (map unat es) = volumeOf ords"
    using writeTracked_volume [of "zip ts es" ords] tracked_pairs [OF assms(1,2)] assms(3) by simp
  show "map order_key (writeTracked (map (paired False) (zip ts es)) ords) = map order_key ords"
    by (rule writeTracked_map) (use tracked_pairs(2) [OF assms(1,2)] in \<open>auto simp: paired_def\<close>)
qed

lemma pl_uncross_hidden:
  assumes dd: "decimal_div ddiv" and inv: "level_inv l" and len: "length (pl_orders l) < 2 * 10 ^ 16"
    and sides: "\<forall>ord \<in> set (pl_orders l). o_Side ord \<noteq> o_Side agg" and nonempty: "pl_orders l \<noteq> []"
    and u: "uncrossOrders chk agg (pl_volume l) 0 0 (pl_orders l) = Ret u"
    and hidden: "o_Remaining (uo_agg u) > 0" "uo_icebergs u \<noteq> []"
  shows "\<exists>r. pl_uncross ddiv agg chk l = Ret r \<and> uncross_spec agg l r"
proof -
  let ?ords = "pl_orders l" and ?ts = "uo_icebergs u"
  have small: "volumeOf ?ords < 2 ^ 63" using inv by (simp add: level_inv_def)
  note run = uncrossOrders_run [OF u]
  note agg = run_agg [OF run] and vol = run_orders [OF run] and tracked = run_tracked [OF run]
    and tside = run_tracked_orders(1) [OF run sides] and tprice = run_tracked_orders(2) [OF run sides]
  have hv: "0 < hiddenVolume ?ts" "hiddenVolume ?ts \<le> volumeOf (uo_orders u)"
    using hiddenVolume_pos [OF tracked hidden(2)] hiddenVolume_le [OF tracked] by auto
  obtain s es where s: "uncrossIcebergs ddiv (uo_agg u) ?ts False (uo_volume u) (uo_trades u) = Ret s"
    "length es = length ?ts"
    "sum_list (map unat es) = min (unat (o_Remaining (uo_agg u))) (hiddenVolume ?ts)"
    "\<forall>p \<in> set (zip ?ts es). unat (snd p) \<le> reserveOf (ti_order (fst p))"
    "is_agg s = (uo_agg u)\<lparr>o_Remaining := o_Remaining (uo_agg u) - sum_list es\<rparr>"
    "is_volume s = uo_volume u - sum_list es"
    "is_tracked s = map (paired False) (zip ?ts es)"
    "tradedVolume (is_trades s @ is_newTrades s) = tradedVolume (uo_trades u) + sum_list (map unat es)"
    by (rule uncrossIcebergs_spec [OF dd hv(1) _ _ tside, of False "uo_volume u"])
      (use hv vol small tracked_length [OF tracked] run_length [OF run] len agg
        unat64_less [of "o_Remaining agg"] in auto)
  define w where "w = writeTracked (is_tracked s) (uo_orders u)"
  have wvol: "volumeOf w + sum_list (map unat es) = volumeOf (uo_orders u)"
    and wkeys: "map order_key w = map order_key ?ords"
    using writeTracked_paired [OF tracked s(2,4)] run_keys [OF run] by (simp_all add: w_def s(7))
  have rms: "removeAll 0 (sort (uo_toRemove u
        @ map ti_idx (filter (\<lambda>t. TrueRemaining (ti_order t) = 0) (is_tracked s)))) w
      = filter (\<lambda>ord. 0 < trueRem ord) w"
    unfolding run_toRemove [OF run level_inv_order_ok [OF inv]] w_def
    by (rule removed_orders [OF tracked s(2) _ s(4,7)]) (use vol small in simp)
  have isvol: "is_volume s = pl_volume l - of_nat (tradedVolume (uo_trades u) + sum_list (map unat es))"
    using s(6) run_volume [OF run] by (simp add: sum_list_of_nat_unat [of es] diff_diff_eq)
  have linv: "level_inv (l\<lparr>pl_orders := filter (\<lambda>ord. 0 < trueRem ord) w, pl_volume := is_volume s\<rparr>)"
    by (rule level_inv_uncrossed [OF inv _ isvol]) (use wvol vol in simp)
  have "unat (sum_list es) = sum_list (map unat es)"
    using s(3) unat64_less [of "o_Remaining (uo_agg u)"] by (intro unat_sum_list) simp
  then have rem: "unat (o_Remaining (is_agg s)) + sum_list (map unat es) = unat (o_Remaining (uo_agg u))"
    using s(3) by (simp add: s(5) unat_sub word_le_nat_alt)
  have all: "tradedVolume (uo_trades u) + sum_list (map unat es) = min (unat (o_Remaining agg)) (volumeOf ?ords)"
    if none: "uo_err u = None"
    using run_exhausted_volume [OF run none] hidden(1) s(3) vol agg by simp
  have same: "only_remaining agg (is_agg s)"
    unfolding only_remaining_def s(5) by (subst run_same_agg [OF run]) simp
  show ?thesis
    using hidden u all vol agg run_err [OF run] s(1,8) linv rem wvol same subseq_filter_keys [OF wkeys]
      uncrossIcebergs_prices [OF s(1) run_prices [OF run] tprice]
    by (auto simp: pl_uncross_def nonempty uncross_spec_def volumeOf_filter Let_def w_def [symmetric] rms)
qed

lemma pl_uncross_spec:
  assumes dd: "decimal_div ddiv" and inv: "level_inv l" and len: "length (pl_orders l) < 2 * 10 ^ 16"
    and sides: "\<forall>ord \<in> set (pl_orders l). o_Side ord \<noteq> o_Side agg" and pos: "0 < o_Remaining agg"
  shows "\<exists>r. pl_uncross ddiv agg chk l = Ret r \<and> uncross_spec agg l r"
proof (cases "pl_orders l = []")
  case True
  with inv pos show ?thesis by (auto simp: only_remaining_def pl_uncross_def uncross_spec_def word_neq_0_conv)
next
  case nonempty: False
  obtain u where u: "uncrossOrders chk agg (pl_volume l) 0 0 (pl_orders l) = Ret u"
    using uncrossOrders_returns [of "pl_orders l" agg chk "pl_volume l" 0 0] inv sides pos by (auto simp: level_inv_def)
  note run = uncrossOrders_run [OF u]
  show ?thesis
  proof (cases "o_Remaining (uo_agg u) > 0 \<and> uo_icebergs u \<noteq> []")
    case True
    then show ?thesis using pl_uncross_hidden [OF dd inv len sides nonempty u] by blast
  next
    case False
    have rm: "uo_toRemove u = indices 0 (\<lambda>ord. trueRem ord = 0) (uo_orders u)"
      by (rule run_toRemove [OF run level_inv_order_ok [OF inv]])
    have "level_inv (l\<lparr>pl_orders := filter (\<lambda>ord. 0 < trueRem ord) (uo_orders u), pl_volume := uo_volume u\<rparr>)"
      by (rule level_inv_uncrossed [OF inv run_orders [OF run]]) (rule run_volume [OF run])
    then show ?thesis
      using False u run_visible_volume [OF run _ False] run_orders [OF run] run_agg [OF run]
        run_err [OF run] run_prices [OF run] run_only_remaining [OF run] subseq_filter_keys [OF run_keys [OF run]]
      by (auto simp: pl_uncross_def nonempty uncross_spec_def rm removed_emptied volumeOf_filter)
  qed
qed

section \<open>The hypothetical uncrossing agrees with the real one\<close>

definition tracks_same :: "trackIceberg \<Rightarrow> trackIceberg \<Rightarrow> bool" where
  "tracks_same t t' \<longleftrightarrow> ti_trade t = ti_trade t' \<and> ti_idx t = ti_idx t'
     \<and> reservedRemaining t = reservedRemaining t' \<and> (ti_trade t = None \<longrightarrow> ti_order t = ti_order t')"

lemma tracks_same_fill [simp]:
  "tracks_same \<lparr>ti_order = ord\<lparr>o_Remaining := x\<rparr>, ti_trade = Some k, ti_idx = i\<rparr>
     \<lparr>ti_order = ord, ti_trade = Some k, ti_idx = i\<rparr>"
  by (simp add: tracks_same_def reservedRemaining_def)

lemma hasReserve_fill [simp]: "hasReserve (ord\<lparr>o_Remaining := x\<rparr>) = hasReserve ord"
  by (simp add: hasReserve_def)

lemma fakeUncrossOrders_run:
  "uncross_run chk agg vol i k ords u \<Longrightarrow>
   \<exists>f. fakeUncrossOrders chk agg i k ords = Ret f \<and> fs_agg f = uo_agg u \<and> fs_trades f = uo_trades u
     \<and> fs_err f = uo_err u \<and> list_all2 tracks_same (uo_icebergs u) (fs_icebergs f)"
proof (induction rule: uncross_run.induct)
  case (nil agg vol i k)
  then show ?case by simp
next
  case (wash ord agg vol i k rest)
  then show ?case by simp
next
  case (hidden ord agg vol i k rest u)
  have "getVolumeAllocation agg ord = 0"
    using hidden.hyps(2) by (auto simp: getVolumeAllocation_def hiddenOnly_def split: option.splits)
  with hidden show ?case by (auto simp: tracks_same_def)
next
  case (last ord agg sz tr vol i k rest)
  have "getVolumeAllocation agg ord = sz"
    using last by (auto simp: getVolumeAllocation_def min64_def)
  with last show ?case by (auto simp: Let_def)
next
  case (step ord agg sz tr vol i k rest u)
  have "getVolumeAllocation agg ord = sz"
    using step by (auto simp: getVolumeAllocation_def min64_def)
  moreover have "o_Remaining agg \<noteq> sz" using step by auto
  moreover obtain f where "fakeUncrossOrders chk (fill sz agg) (Suc i) (Suc k) rest = Ret f"
    "fs_agg f = uo_agg u" "fs_trades f = uo_trades u" "fs_err f = uo_err u"
    "list_all2 tracks_same (uo_icebergs u) (fs_icebergs f)" using step.IH by blast
  ultimately show ?case using step.hyps by (simp add: Let_def)
qed

lemma icebergTrades_same:
  "list_all2 tracks_same ts ts' \<Longrightarrow> icebergTrades False (zip ts es) s = Ret r \<Longrightarrow>
   is_agg s' = is_agg s \<Longrightarrow> is_trades s' = is_trades s \<Longrightarrow> is_newTrades s' = is_newTrades s \<Longrightarrow>
   \<exists>r'. icebergTrades True (zip ts' es) s' = Ret r' \<and> is_agg r' = is_agg r \<and> is_trades r' = is_trades r
     \<and> is_newTrades r' = is_newTrades r"
proof (induction ts ts' arbitrary: es s s' rule: list_all2_induct)
  case Nil
  then show ?case by auto
next
  case (Cons t ts t' ts')
  show ?case
  proof (cases es)
    case Nil
    with Cons.prems show ?thesis by auto
  next
    case es: (Cons e es')
    show ?thesis
    proof (cases "ti_trade t")
      case None
      then have t': "ti_trade t' = None" "ti_order t' = ti_order t" using Cons.hyps(1) by (auto simp: tracks_same_def)
      obtain tr where tr: "newTrade (fill e (is_agg s)) (ti_order t) 0 = Ret tr"
        using Cons.prems(1) by (auto simp: es None Let_def gbind_Ret_iff)
      show ?thesis
        using Cons.prems t' None tr by (auto simp: es Let_def intro!: Cons.IH)
    next
      case (Some j)
      then have t': "ti_trade t' = Some j" using Cons.hyps(1) by (auto simp: tracks_same_def)
      show ?thesis
        using Cons.prems t' Some by (auto simp: es Let_def intro!: Cons.IH)
    qed
  qed
qed

lemma uncrossIcebergs_same:
  assumes "list_all2 tracks_same ts ts'" and "uncrossIcebergs ddiv agg ts False vol trades = Ret r"
  shows "\<exists>r'. uncrossIcebergs ddiv agg ts' True vol' trades = Ret r' \<and> is_agg r' = is_agg r
     \<and> is_trades r' = is_trades r \<and> is_newTrades r' = is_newTrades r"
proof -
  have rs: "map reservedRemaining ts' = map reservedRemaining ts"
    using assms(1) by (induction rule: list_all2_induct) (auto simp: tracks_same_def)
  show ?thesis
  proof (cases "sum_list (map reservedRemaining ts) = 0")
    case True
    then show ?thesis using assms(2) rs by (auto simp: uncrossIcebergs_def Let_def)
  next
    case False
    then obtain es where "icebergExtra ddiv (min64 (o_Remaining agg) (sum_list (map reservedRemaining ts)))
        (sum_list (map reservedRemaining ts)) (map reservedRemaining ts) = Ret es"
      "icebergTrades False (zip ts es) \<lparr>is_agg = agg, is_volume = vol, is_trades = trades, is_newTrades = [],
               is_newImpacted = [], is_tracked = []\<rparr> = Ret r"
      using assms(2) by (auto simp: uncrossIcebergs_def Let_def gbind_Ret_iff)
    from this(1) icebergTrades_same [OF assms(1) this(2)] False show ?thesis
      by (auto simp: uncrossIcebergs_def Let_def rs)
  qed
qed

lemma run_no_reserve: "uncross_run chk agg vol i k ords u \<Longrightarrow> \<forall>ord \<in> set ords. \<not> hasReserve ord \<Longrightarrow> uo_icebergs u = []"
  by (induction rule: uncross_run.induct) (auto simp: hasReserve_def hiddenOnly_def word_gt_0 split: option.splits)

lemma pl_fakeUncross_eq:
  assumes "pl_uncross ddiv agg chk l = Ret r" and "ur_err r = None \<or> (\<forall>ord \<in> set (pl_orders l). \<not> hasReserve ord)"
  shows "pl_fakeUncross ddiv agg chk l = Ret (ur_agg r, ur_trades r, ur_err r)"
proof (cases "pl_orders l = []")
  case True
  with assms show ?thesis by (auto simp: pl_uncross_def pl_fakeUncross_def)
next
  case False
  with assms(1) obtain u where u: "uncrossOrders chk agg (pl_volume l) 0 0 (pl_orders l) = Ret u"
    by (auto simp: pl_uncross_def gbind_Ret_iff)
  obtain f where f: "fakeUncrossOrders chk agg 0 0 (pl_orders l) = Ret f" "fs_agg f = uo_agg u"
    "fs_trades f = uo_trades u" "fs_err f = uo_err u" "list_all2 tracks_same (uo_icebergs u) (fs_icebergs f)"
    using fakeUncrossOrders_run [OF uncrossOrders_run [OF u]] by blast
  have nil: "fs_icebergs f = [] \<longleftrightarrow> uo_icebergs u = []" using f(5) by auto
  show ?thesis
  proof (cases "o_Remaining (uo_agg u) > 0 \<and> uo_icebergs u \<noteq> []")
    case True
    with assms(1) u False obtain s where s: "uncrossIcebergs ddiv (uo_agg u) (uo_icebergs u) False (uo_volume u)
        (uo_trades u) = Ret s" "ur_agg r = is_agg s" "ur_trades r = is_trades s @ is_newTrades s" "ur_err r = uo_err u"
      by (auto simp: pl_uncross_def gbind_Ret_iff Let_def)
    have "ur_err r = None" using assms(2) run_no_reserve [OF uncrossOrders_run [OF u]] True by blast
    with uncrossIcebergs_same [OF f(5) s(1), of "pl_volume l"] s True f nil False show ?thesis
      by (auto simp: pl_fakeUncross_def)
  next
    case stop: False
    with assms u False f nil show ?thesis
      by (auto simp: pl_uncross_def pl_fakeUncross_def word_neq_0_conv)
  qed
qed


section \<open>Price-time priority\<close>

text \<open>
  The reference: orders are filled in the order of the queue, each one before the next, up to the
  first order that stops the matching.
\<close>

fun fifo_fill :: "(Order \<Rightarrow> bool) \<Rightarrow> nat \<Rightarrow> Order list \<Rightarrow> (Order \<times> nat) list \<times> Order list" where
  "fifo_fill stop r [] = ([], [])"
| "fifo_fill stop r (ord # rest) =
     (if r = 0 \<or> stop ord then ([], ord # rest)
      else if r < unat (o_Remaining ord) then ([(ord, r)], fill (of_nat r) ord # rest)
      else
        (let (fs, rest') = fifo_fill stop (r - unat (o_Remaining ord)) rest
         in ((ord, unat (o_Remaining ord)) # fs, rest')))"

definition washes :: "bool \<Rightarrow> Order \<Rightarrow> Order \<Rightarrow> bool" where
  "washes chk agg ord \<longleftrightarrow> chk \<and> o_Party ord = o_Party agg"

lemma washes_agg [simp]: "washes chk (agg\<lparr>o_Remaining := x\<rparr>) = washes chk agg"
  by (simp add: washes_def fun_eq_iff)

definition trade_fill :: "Order \<Rightarrow> Trade \<Rightarrow> string \<times> nat \<times> Uint" where
  "trade_fill agg t =
     ((if o_Side agg = SideBuy then t_SellOrder t else t_BuyOrder t), unat (t_Size t), t_Price t)"

lemma trade_fill_agg [simp]: "trade_fill (agg\<lparr>o_Remaining := x\<rparr>) = trade_fill agg"
  by (simp add: trade_fill_def fun_eq_iff)

lemma trade_fill_new:
  assumes "newTrade agg ord sz = Ret tr"
  shows "trade_fill agg (setTradeOrders agg ord tr) = (o_ID ord, unat sz, o_Price ord)"
  using assms by (auto simp: trade_fill_def setTradeOrders_def newTrade_def Let_def split: if_splits)

lemma run_fifo:
  assumes "uncross_run chk agg vol i k ords u" and "0 < o_Remaining agg"
    and "\<forall>ord \<in> set ords. o_IcebergOrder ord = None \<and> 0 < o_Remaining ord"
  shows "uo_icebergs u = []
    \<and> map (trade_fill agg) (uo_trades u)
        = map (\<lambda>(ord, n). (o_ID ord, n, o_Price ord)) (fst (fifo_fill (washes chk agg) (unat (o_Remaining agg)) ords))
    \<and> filter (\<lambda>ord. 0 < trueRem ord) (uo_orders u) = snd (fifo_fill (washes chk agg) (unat (o_Remaining agg)) ords)
    \<and> uo_err u = (if o_Remaining (uo_agg u) \<noteq> 0 \<and> filter (\<lambda>ord. 0 < trueRem ord) (uo_orders u) \<noteq> []
                  then Some ErrWashTrade else None)"
  using assms
proof (induction rule: uncross_run.induct)
  case (wash ord agg vol i k rest)
  have "filter (\<lambda>ord. 0 < trueRem ord) (ord # rest) = ord # rest"
    using wash.prems(2) unfolding filter_id_conv by (auto simp: trueRem_def word_less_nat_alt)
  with wash show ?case by (auto simp: washes_def)
next
  case (hidden ord agg vol i k rest u)
  then show ?case by (simp add: hiddenOnly_def)
next
  case (last ord agg sz tr vol i k rest)
  have rest: "filter (\<lambda>ord. 0 < trueRem ord) rest = rest"
    using last.prems by (auto simp: filter_id_conv trueRem_def word_less_nat_alt)
  have left: "trueRem (fill sz ord) = unat (o_Remaining ord) - unat sz"
    using last by (simp add: trueRem_def reserveOf_def unat_sub)
  have le: "unat sz \<le> unat (o_Remaining ord)" "0 < unat sz" "\<not> washes chk agg ord"
    using last by (auto simp: word_le_nat_alt unat_gt_0 washes_def)
  show ?case
  proof (cases "unat sz < unat (o_Remaining ord)")
    case True
    with last rest left le show ?thesis by (auto simp: trade_fill_new hasReserve_def)
  next
    case False
    with last rest left le show ?thesis by (cases rest) (auto simp: trade_fill_new hasReserve_def)
  qed
next
  case (step ord agg sz tr vol i k rest u)
  have lt: "\<not> unat (o_Remaining agg) < unat sz" "unat (o_Remaining agg) \<noteq> 0" "\<not> washes chk agg ord"
    using step.hyps by (auto simp: word_less_nat_alt washes_def)
  have sub: "unat (o_Remaining agg - sz) = unat (o_Remaining agg) - unat sz"
    using step.hyps by (simp add: unat_sub)
  moreover have "unat sz < unat (o_Remaining agg)" using step.hyps(3) by (simp add: word_less_nat_alt)
  ultimately have pos: "0 < o_Remaining agg - sz" by (simp add: word_less_nat_alt)
  have "trueRem (fill sz ord) = 0"
    using step by (simp add: trueRem_def reserveOf_def)
  with step lt sub pos show ?case
    by (auto simp: trade_fill_new hasReserve_def Let_def split: prod.splits)
qed auto

text \<open>
  C6: price-time priority within a level, with and without the check for wash trades. Against a
  queue of plain orders an aggressive order is matched in queue order, each resting order in full
  before the next one, up to the first order of its own party if wash trades are checked: the trades
  name the resting orders, sizes and prices of the reference \<open>fifo_fill\<close>, the level keeps exactly the
  reference's rest of the queue, and a wash trade is reported exactly when the order is not filled
  although the queue is not empty.
\<close>

theorem pl_uncross_fifo:
  assumes "\<forall>ord \<in> set (pl_orders l). o_IcebergOrder ord = None \<and> 0 < o_Remaining ord \<and> o_Side ord \<noteq> o_Side agg"
    and "0 < o_Remaining agg"
  shows "\<exists>r. pl_uncross ddiv agg chk l = Ret r
    \<and> map (trade_fill agg) (ur_trades r) = map (\<lambda>(ord, n). (o_ID ord, n, o_Price ord))
        (fst (fifo_fill (washes chk agg) (unat (o_Remaining agg)) (pl_orders l)))
    \<and> pl_orders (ur_level r) = snd (fifo_fill (washes chk agg) (unat (o_Remaining agg)) (pl_orders l))
    \<and> ur_err r = (if o_Remaining (ur_agg r) \<noteq> 0 \<and> pl_orders (ur_level r) \<noteq> [] then Some ErrWashTrade else None)"
proof (cases "pl_orders l = []")
  case True
  then show ?thesis by (simp add: pl_uncross_def)
next
  case False
  have plain: "\<forall>ord \<in> set (pl_orders l). o_IcebergOrder ord = None \<and> 0 < o_Remaining ord"
    and ok: "\<forall>ord \<in> set (pl_orders l). order_ok ord"
    using assms(1) unat64_less by (auto simp: order_ok_def trueRem_def reserveOf_def word_less_nat_alt)
  obtain u where u: "uncrossOrders chk agg (pl_volume l) 0 0 (pl_orders l) = Ret u"
    using uncrossOrders_returns [of "pl_orders l" agg chk "pl_volume l" 0 0] assms ok
    by (auto simp: order_ok_def)
  note run = uncrossOrders_run [OF u]
  have "uo_toRemove u = indices 0 (\<lambda>ord. trueRem ord = 0) (uo_orders u)" by (rule run_toRemove [OF run ok])
  with run_fifo [OF run assms(2) plain] u False show ?thesis
    by (simp add: pl_uncross_def removed_emptied)
qed

section \<open>A concrete division and a concrete level\<close>

definition dec_round :: "rat \<Rightarrow> rat \<Rightarrow> rat" where
  "dec_round a b = of_int (round (a / b * 10 ^ 16)) / 10 ^ 16"

lemma decimal_div_dec_round: "decimal_div dec_round"
  unfolding decimal_div_def
proof (intro allI impI conjI)
  fix a b :: rat
  show "\<exists>n. dec_round a b = of_int n / 10 ^ 16" by (auto simp: dec_round_def)
  have "\<bar>of_int (round (a / b * 10 ^ 16)) - a / b * 10 ^ 16\<bar> \<le> 1 / 2" by (rule of_int_round_abs_le)
  then have "\<bar>of_int (round (a / b * 10 ^ 16)) - a / b * 10 ^ 16\<bar> / 10 ^ 16 \<le> 1 / 2 / 10 ^ 16"
    by (rule divide_right_mono) simp
  moreover have "dec_round a b - a / b = (of_int (round (a / b * 10 ^ 16)) - a / b * 10 ^ 16) / 10 ^ 16"
    by (simp add: dec_round_def diff_divide_distrib)
  ultimately show "\<bar>dec_round a b - a / b\<bar> \<le> 1 / (2 * 10 ^ 16)" by (simp only: abs_divide) simp
qed

definition sell_plain :: Order where
  "sell_plain = zero_Order\<lparr>o_ID := ''a'', o_Party := ''p1'', o_Side := SideSell, o_Price := 100,
     o_Size := 3, o_Remaining := 3\<rparr>"

definition sell_iceberg :: Order where
  "sell_iceberg = zero_Order\<lparr>o_ID := ''b'', o_Party := ''p2'', o_Side := SideSell, o_Price := 100,
     o_Size := 12, o_Remaining := 2, o_IcebergOrder := Some
       \<lparr>ice_ReservedRemaining = 10, ice_PeakSize = 2, ice_MinimumVisibleSize = 1\<rparr>\<rparr>"

definition buy_aggressor :: Order where
  "buy_aggressor = zero_Order\<lparr>o_ID := ''c'', o_Party := ''p3'', o_Side := SideBuy, o_Price := 100,
     o_Size := 9, o_Remaining := 9\<rparr>"

definition sell_level :: PriceLevel where
  "sell_level = pl_addOrder sell_iceberg (pl_addOrder sell_plain (NewPriceLevel 100))"

lemmas level_example_defs = sell_plain_def sell_iceberg_def buy_aggressor_def zero_Order_def

lemma sell_level_simps [simp]:
  "pl_orders sell_level = [sell_plain, sell_iceberg]" "pl_volume sell_level = 15" "pl_price sell_level = 100"
  by (simp_all add: sell_level_def pl_addOrder_def NewPriceLevel_def TrueRemaining_def level_example_defs)

lemma level_inv_sell_level: "level_inv sell_level"
  by (simp add: level_inv_def trueRem_def reserveOf_def level_example_defs)

section \<open>Properties of the level\<close>

text \<open>
  C4: uncrossing a level that satisfies its invariant against an aggressive order of the other side
  returns, whatever mix of plain and iceberg orders it holds. The volume the aggressive order loses
  is the volume of the trades and the volume the level loses, and without a wash trade it is the
  smaller of the two; the level keeps its invariant (stored volume equal to the sum over its orders,
  no order left without volume) and the queue order, and every trade is at a resting order's price.
\<close>

theorem pl_uncross_sound:
  assumes "decimal_div ddiv" and "level_inv l" and "length (pl_orders l) < 2 * 10 ^ 16"
    and "\<forall>ord \<in> set (pl_orders l). o_Side ord \<noteq> o_Side agg" and "0 < o_Remaining agg"
  shows "\<exists>r. pl_uncross ddiv agg chk l = Ret r
    \<and> level_inv (ur_level r)
    \<and> subseq (map order_key (pl_orders (ur_level r))) (map order_key (pl_orders l))
    \<and> unat (o_Remaining (ur_agg r)) + tradedVolume (ur_trades r) = unat (o_Remaining agg)
    \<and> volumeOf (pl_orders (ur_level r)) + tradedVolume (ur_trades r) = volumeOf (pl_orders l)
    \<and> (ur_err r = None \<longrightarrow>
         tradedVolume (ur_trades r) = min (unat (o_Remaining agg)) (volumeOf (pl_orders l)))
    \<and> t_Price ` set (ur_trades r) \<subseteq> o_Price ` set (pl_orders l)"
proof -
  obtain r where "pl_uncross ddiv agg chk l = Ret r" "uncross_spec agg l r"
    using pl_uncross_spec [OF assms, of chk] by (elim exE conjE)
  then show ?thesis by (intro exI [of _ r]) (simp add: uncross_spec_def at_prices_def)
qed

theorem pl_uncross_sound_witness:
  "\<exists>r. pl_uncross dec_round buy_aggressor True sell_level = Ret r
    \<and> level_inv (ur_level r)
    \<and> subseq (map order_key (pl_orders (ur_level r))) (map order_key (pl_orders sell_level))
    \<and> unat (o_Remaining (ur_agg r)) + tradedVolume (ur_trades r) = unat (o_Remaining buy_aggressor)
    \<and> volumeOf (pl_orders (ur_level r)) + tradedVolume (ur_trades r) = volumeOf (pl_orders sell_level)
    \<and> (ur_err r = None \<longrightarrow>
         tradedVolume (ur_trades r) = min (unat (o_Remaining buy_aggressor)) (volumeOf (pl_orders sell_level)))
    \<and> t_Price ` set (ur_trades r) \<subseteq> o_Price ` set (pl_orders sell_level)"
  by (rule pl_uncross_sound [OF decimal_div_dec_round level_inv_sell_level])
    (simp_all add: level_example_defs)

text \<open>
  C8: the crossed volume is split over the hidden reserves exactly. However the pro-rata shares are
  rounded, the rounding crumbs can always be placed: the split returns, gives no reserve more than
  it has, and its parts add up to the crossed volume.
\<close>

theorem icebergExtra_exact:
  assumes "decimal_div ddiv" and "sum_list (map unat reserves) < 2 ^ 63" and "0 < sum_list (map unat reserves)"
    and "crossed \<le> sum_list reserves" and "length reserves < 2 * 10 ^ 16"
  shows "\<exists>extra. icebergExtra ddiv crossed (sum_list reserves) reserves = Ret extra
    \<and> list_all2 (\<le>) extra reserves \<and> sum_list (map unat extra) = unat crossed"
proof -
  have tot: "unat (sum_list reserves) = sum_list (map unat reserves)"
    using assms(2) by (intro unat_sum_list) simp
  obtain es where "icebergExtra ddiv crossed (sum_list reserves) reserves = Ret es"
    "length es = length reserves" "\<forall>j < length reserves. es ! j \<le> reserves ! j"
    "sum_list (map unat es) = unat crossed"
    by (rule icebergExtra_spec [OF assms(1) tot, of crossed])
      (use assms tot in \<open>simp_all add: word_le_nat_alt\<close>)
  then show ?thesis by (auto simp: list_all2_conv_all_nth)
qed

theorem icebergExtra_exact_witness:
  "\<exists>extra. icebergExtra dec_round 4 (sum_list [3, 5, 2]) [3, 5, 2] = Ret extra
    \<and> list_all2 (\<le>) extra [3, 5, 2] \<and> sum_list (map unat extra) = unat (4 :: uint64)"
  by (rule icebergExtra_exact [OF decimal_div_dec_round]) simp_all

text \<open>
  C11: the hypothetical uncrossing of a level (\<^verbatim>\<open>fakeUncross\<close>, which the side uses to preview trades)
  returns the same trades and the same error, and leaves the same remaining volume on the aggressive
  order, as the real uncrossing of the same level, whenever the latter meets no wash trade or no
  order of the level has a hidden reserve. (Behind a wash trade the real uncrossing still takes the
  reserves of the icebergs ahead of it and the hypothetical one does not.)
\<close>

theorem fakeUncross_agrees:
  assumes "pl_uncross ddiv agg chk l = Ret r" and "ur_err r = None \<or> (\<forall>ord \<in> set (pl_orders l). \<not> hasReserve ord)"
  shows "pl_fakeUncross ddiv agg chk l = Ret (ur_agg r, ur_trades r, ur_err r)"
  by (rule pl_fakeUncross_eq [OF assms])

theorem fakeUncross_agrees_witness:
  "pl_fakeUncross dec_round buy_aggressor True (sell_level\<lparr>pl_orders := [sell_plain]\<rparr>)
    = Ret (buy_aggressor\<lparr>o_Remaining := 6\<rparr>,
        [setTradeOrders buy_aggressor sell_plain
          \<lparr>t_ID = [], t_MarketID = [], t_Price = 100, t_MarketPrice = 0, t_Size = 3, t_Buyer = ''p3'',
           t_Seller = ''p1'', t_Aggressor = SideBuy, t_BuyOrder = [], t_SellOrder = [], t_Timestamp = 0,
           t_Type = TradeTypeDefault, t_BuyerAuctionBatch = 0, t_SellerAuctionBatch = 0\<rparr>], None)"
  using fakeUncross_agrees [of dec_round buy_aggressor True "sell_level\<lparr>pl_orders := [sell_plain]\<rparr>"]
  by (simp add: pl_uncross_def getVolumeAllocation_def min64_def newTrade_def Let_def TrueRemaining_def
      hasReserve_def level_example_defs)

theorem pl_uncross_fifo_witness:
  "\<exists>r. pl_uncross dec_round buy_aggressor True
        (sell_level\<lparr>pl_orders := [sell_plain, sell_plain\<lparr>o_ID := ''d'', o_Party := ''p3''\<rparr>]\<rparr>) = Ret r
    \<and> map (trade_fill buy_aggressor) (ur_trades r) = [(''a'', 3, 100)]
    \<and> pl_orders (ur_level r) = [sell_plain\<lparr>o_ID := ''d'', o_Party := ''p3''\<rparr>]
    \<and> ur_err r = (if o_Remaining (ur_agg r) \<noteq> 0 \<and> pl_orders (ur_level r) \<noteq> [] then Some ErrWashTrade else None)"
  using pl_uncross_fifo [of "sell_level\<lparr>pl_orders := [sell_plain, sell_plain\<lparr>o_ID := ''d'', o_Party := ''p3''\<rparr>]\<rparr>"
      buy_aggressor dec_round True]
  by (simp add: level_example_defs washes_def)

end
