(* ===== verification/Priced_Store.thy ===== *)
theory Priced_Store
  imports Vega_Prelude
begin

text \<open>
  The two contracts that the sides of the book and the auction's price levels share: a list sorted
  by a price, in which binary search finds and inserts, and a store whose updates act on one key
  only. The components interpret both on their own operations.
\<close>

section \<open>Price-ordered lists and binary search\<close>

definition lookup_by :: "('l \<Rightarrow> 'p) \<Rightarrow> 'l list \<Rightarrow> 'p \<Rightarrow> 'l option" where
  "lookup_by key xs p = map_of (map (\<lambda>x. (key x, x)) xs) p"

lemma lookup_by_None: "lookup_by key xs p = None \<longleftrightarrow> p \<notin> key ` set xs"
  by (simp add: lookup_by_def map_of_eq_None_iff image_image)

lemma lookup_by_Some:
  "distinct (map key xs) \<Longrightarrow> lookup_by key xs p = Some x \<longleftrightarrow> x \<in> set xs \<and> key x = p"
  unfolding lookup_by_def by (subst map_of_eq_Some_iff) (auto simp: comp_def)

lemma lookup_by_eq:
  assumes "distinct (map key xs)" and "distinct (map key ys)"
    and "\<And>x. x \<in> set ys \<longleftrightarrow> key x \<noteq> key y \<and> x \<in> set xs \<or> x = y"
  shows "lookup_by key ys = (lookup_by key xs)(key y \<mapsto> y)"
proof
  fix p
  show "lookup_by key ys p = ((lookup_by key xs)(key y \<mapsto> y)) p"
  proof (cases "p = key y")
    case True
    thus ?thesis using assms(3) by (simp add: lookup_by_Some [OF assms(2)])
  next
    case False
    hence "lookup_by key ys p = Some x \<longleftrightarrow> lookup_by key xs p = Some x" for x
      using assms(3) by (auto simp: lookup_by_Some [OF assms(1)] lookup_by_Some [OF assms(2)])
    thus ?thesis using False by (metis fun_upd_other option.exhaust)
  qed
qed

locale priced =
  fixes key :: "'l \<Rightarrow> 'p" and before :: "'p \<Rightarrow> 'p \<Rightarrow> bool"
  assumes irrefl: "\<not> before p p"
    and trans: "before p q \<Longrightarrow> before q r \<Longrightarrow> before p r"
    and total: "p \<noteq> q \<Longrightarrow> before p q \<or> before q p"
begin

lemma sorted_nth:
  "sorted_wrt before (map key xs) \<Longrightarrow> i < j \<Longrightarrow> j < length xs \<Longrightarrow> before (key (xs ! i)) (key (xs ! j))"
  using sorted_wrt_nth_less [of before "map key xs" i j] by simp

lemma search_spec:
  fixes xs :: "'l list" and p :: 'p
  assumes "sorted_wrt before (map key xs)"
  defines "i \<equiv> sort_Search (length xs) (\<lambda>i. \<not> before (key (xs ! i)) p)"
  shows "i \<le> length xs" and "\<And>j. j < i \<Longrightarrow> before (key (xs ! j)) p"
    and "\<And>j. i \<le> j \<Longrightarrow> j < length xs \<Longrightarrow> \<not> before (key (xs ! j)) p"
proof -
  have mono: "\<not> before (key (xs ! b)) p" if "a \<le> b" "b < length xs" "\<not> before (key (xs ! a)) p" for a b
    using that sorted_nth [OF assms(1), of a b] trans [of "key (xs ! a)" "key (xs ! b)" p]
    by (cases "a = b") auto
  show "i \<le> length xs" and "\<And>j. j < i \<Longrightarrow> before (key (xs ! j)) p"
    and "\<And>j. i \<le> j \<Longrightarrow> j < length xs \<Longrightarrow> \<not> before (key (xs ! j)) p"
    using sort_Search_spec [of "length xs" "\<lambda>i. \<not> before (key (xs ! i)) p"] mono
    unfolding i_def by blast+
qed

lemma search_found:
  fixes xs :: "'l list" and x :: 'l
  assumes "sorted_wrt before (map key xs)" and "x \<in> set xs"
  defines "i \<equiv> sort_Search (length xs) (\<lambda>i. \<not> before (key (xs ! i)) (key x))"
  shows "i < length xs" and "xs ! i = x"
proof -
  obtain j where j: "j < length xs" "xs ! j = x" using assms(2) by (auto simp: in_set_conv_nth)
  note S = search_spec [OF assms(1), where p = "key x", folded i_def]
  have ij: "i \<le> j" using S(2) [of j] j irrefl by (cases "j < i") auto
  then show lt: "i < length xs" using j by simp
  have "\<not> i < j"
    using sorted_nth [OF assms(1), of i j] S(3) [of i] lt j by auto
  with ij j show "xs ! i = x" by simp
qed

lemma search_found_iff:
  fixes xs :: "'l list" and p :: 'p
  assumes "sorted_wrt before (map key xs)"
  defines "i \<equiv> sort_Search (length xs) (\<lambda>i. \<not> before (key (xs ! i)) p)"
  shows "i < length xs \<and> key (xs ! i) = p \<longleftrightarrow> p \<in> key ` set xs"
  using search_found [OF assms(1)] unfolding i_def by (auto simp: image_iff) (metis nth_mem)

lemma search_insert:
  fixes xs :: "'l list" and y :: 'l
  assumes "sorted_wrt before (map key xs)" and "key y \<notin> key ` set xs"
  defines "i \<equiv> sort_Search (length xs) (\<lambda>i. \<not> before (key (xs ! i)) (key y))"
  shows "sorted_wrt before (map key (insert_nth i y xs))"
proof -
  note S = search_spec [OF assms(1), where p = "key y", folded i_def]
  have "before (key y) (key x)" if "x \<in> set (drop i xs)" for x
  proof -
    from that obtain k where k: "k < length xs - i" "x = drop i xs ! k"
      by (auto simp: in_set_conv_nth)
    then have "x = xs ! (i + k)" "i + k < length xs" using S(1) by simp_all
    moreover from this have "key y \<noteq> key x" using assms(2) by (metis imageI nth_mem)
    ultimately show ?thesis using S(3) [of "i + k"] total [of "key y" "key x"] by auto
  qed
  moreover have "before (key x) (key y)" if "x \<in> set (take i xs)" for x
    using that S(1,2) by (auto simp: in_set_conv_nth)
  moreover have "sorted_wrt before (map key (take i xs)) \<and> sorted_wrt before (map key (drop i xs))
      \<and> (\<forall>x \<in> set (take i xs). \<forall>z \<in> set (drop i xs). before (key x) (key z))"
  proof -
    have "map key xs = map key (take i xs) @ map key (drop i xs)"
      by (simp only: append_take_drop_id flip: map_append)
    with assms(1) show ?thesis by (simp only: sorted_wrt_append) simp
  qed
  ultimately show ?thesis by (simp add: insert_nth_def sorted_wrt_append)
qed

lemma sorted_distinct: "sorted_wrt before (map key xs) \<Longrightarrow> distinct (map key xs)"
  by (induction xs) (auto, metis irrefl)

lemma lookup_insert:
  fixes xs :: "'l list" and y :: 'l
  assumes "sorted_wrt before (map key xs)" and "key y \<notin> key ` set xs"
  defines "i \<equiv> sort_Search (length xs) (\<lambda>i. \<not> before (key (xs ! i)) (key y))"
  shows "lookup_by key (insert_nth i y xs) = (lookup_by key xs)(key y \<mapsto> y)"
  by (rule lookup_by_eq)
    (use assms(2) sorted_distinct [OF assms(1)]
      sorted_distinct [OF search_insert [OF assms(1,2)]] i_def in \<open>auto simp: image_iff\<close>)

lemma lookup_update:
  assumes "sorted_wrt before (map key xs)" and "i < length xs" and "key y = key (xs ! i)"
  shows "lookup_by key (xs[i := y]) = (lookup_by key xs)(key y \<mapsto> y)"
    and "sorted_wrt before (map key (xs[i := y]))"
proof -
  have same: "map key (xs[i := y]) = map key xs"
    using assms(2,3) by (simp add: map_update list_update_same_conv)
  then show "sorted_wrt before (map key (xs[i := y]))" using assms(1) by simp
  note d = sorted_distinct [OF assms(1)]
  have "x \<in> set (xs[i := y]) \<longleftrightarrow> key x \<noteq> key y \<and> x \<in> set xs \<or> x = y" for x
  proof -
    have "distinct xs" using d by (simp add: distinct_map)
    hence "set (xs[i := y]) = insert y (set xs - {xs ! i})"
      using assms(2) by (simp add: set_update_distinct)
    moreover have "x \<in> set xs \<Longrightarrow> key x = key y \<longleftrightarrow> x = xs ! i"
      using d assms(2,3) by (auto simp: distinct_map dest: inj_onD)
    ultimately show ?thesis using assms(3) by auto
  qed
  thus "lookup_by key (xs[i := y]) = (lookup_by key xs)(key y \<mapsto> y)"
    using d same by (intro lookup_by_eq) simp_all
qed

end

section \<open>The contract of a keyed store\<close>

text \<open>
  A store that an update changes at one key only, as the side of a book under added orders and the
  volumes of an auction under added volume are. A sequence of updates acts on each key as the
  subsequence of the updates that target it: updates of different prices do not interfere.
\<close>

locale keyed_store =
  fixes inv :: "'st \<Rightarrow> bool" and ok :: "'a \<Rightarrow> 'st \<Rightarrow> bool"
    and look :: "'k \<Rightarrow> 'st \<Rightarrow> 'v" and upd :: "'a \<Rightarrow> 'st \<Rightarrow> 'st"
    and target :: "'a \<Rightarrow> 'k" and act :: "'a \<Rightarrow> 'v \<Rightarrow> 'v"
  assumes upd_inv: "inv s \<Longrightarrow> ok a s \<Longrightarrow> inv (upd a s)"
    and upd_ok: "inv s \<Longrightarrow> ok a s \<Longrightarrow> ok b s \<Longrightarrow> ok b (upd a s)"
    and upd_look: "inv s \<Longrightarrow> ok a s \<Longrightarrow>
      look k (upd a s) = (if k = target a then act a (look k s) else look k s)"
begin

lemma fold_inv: "inv s \<Longrightarrow> \<forall>a \<in> set as. ok a s \<Longrightarrow> inv (fold upd as s)"
  by (induction "as" arbitrary: s) (auto simp: upd_inv upd_ok)

lemma fold_look:
  "inv s \<Longrightarrow> \<forall>a \<in> set as. ok a s \<Longrightarrow>
   look k (fold upd as s) = fold act (filter (\<lambda>a. target a = k) as) (look k s)"
  by (induction "as" arbitrary: s) (auto simp: upd_inv upd_ok upd_look)

end

end
