(* ===== verification/Book_Side_Store.thy ===== *)
theory Book_Side_Store
  imports Book_Side Price_Level_Props Priced_Store
begin

text \<open>
  A side as a store of queues keyed by price: its levels stay sorted, binary search finds them,
  added orders queue up in time order and a removed order leaves no trace.
\<close>

text \<open>The order of the levels of a side: ascending when buying, descending otherwise.\<close>

definition before :: "Side \<Rightarrow> Uint \<Rightarrow> Uint \<Rightarrow> bool" where
  "before sd p q = (if sd = SideBuy then p < q else q < p)"

interpretation side_order: priced pl_price "before sd" for sd
  by unfold_locales (auto simp: before_def split: if_splits)

lemma searchLevel_before:
  "searchLevel sd levels price = sort_Search (length levels) (\<lambda>i. \<not> before sd (pl_price (levels ! i)) price)"
  unfolding searchLevel_def atOrPast_def before_def
  by (rule arg_cong [of _ _ "sort_Search (length levels)"]) auto


section \<open>The structure of a side\<close>

definition levels_ok :: "Side \<Rightarrow> PriceLevel list \<Rightarrow> bool" where
  "levels_ok sd ls \<longleftrightarrow> sorted_wrt (before sd) (map pl_price ls)
     \<and> (\<forall>l \<in> set ls. pl_orders l \<noteq> []
          \<and> (\<forall>ord \<in> set (pl_orders l). o_Side ord = sd \<and> o_Price ord = pl_price l))"

definition queueAt :: "Uint \<Rightarrow> OrderBookSide \<Rightarrow> Order list" where
  "queueAt p s = (case find (\<lambda>l. pl_price l = p) (s_levels s) of None \<Rightarrow> [] | Some l \<Rightarrow> pl_orders l)"

lemma sorted_prices_distinct: "sorted_wrt (before sd) (map pl_price ls) \<Longrightarrow> distinct (map pl_price ls)"
  by (rule side_order.sorted_distinct)

lemma queueAt_mem:
  assumes "sorted_wrt (before sd) (map pl_price (s_levels s))" and "l \<in> set (s_levels s)"
  shows "queueAt (pl_price l) s = pl_orders l"
proof -
  have "\<exists>l'. find (\<lambda>x. pl_price x = pl_price l) (s_levels s) = Some l'"
    using assms(2) by (metis (mono_tags, lifting) find_None_iff option.exhaust)
  then obtain l' where l': "find (\<lambda>x. pl_price x = pl_price l) (s_levels s) = Some l'" ..
  then have "l' \<in> set (s_levels s)" "pl_price l' = pl_price l"
    by (auto simp: find_Some_iff)
  then have "l' = l"
    using sorted_prices_distinct [OF assms(1)] assms(2) by (auto simp: distinct_map dest: inj_onD)
  with l' show ?thesis by (simp add: queueAt_def)
qed

lemma queueAt_none: "p \<notin> pl_price ` set (s_levels s) \<Longrightarrow> queueAt p s = []"
  by (auto simp: queueAt_def find_None_iff split: option.splits dest: find_None_iff [THEN iffD1])
    (metis (mono_tags, lifting) find_Some_iff image_eqI nth_mem)

lemma s_addOrder_cases:
  assumes sorted: "sorted_wrt (before (s_side s)) (map pl_price (s_levels s))"
  obtains (there) l i where "l \<in> set (s_levels s)" "pl_price l = o_Price ord" "i < length (s_levels s)"
      "s_levels s ! i = l" "s_levels (s_addOrder ord s) = (s_levels s)[i := pl_addOrder ord l]"
  | (fresh) i where "o_Price ord \<notin> pl_price ` set (s_levels s)" "i \<le> length (s_levels s)"
      "s_levels (s_addOrder ord s) = insert_nth i (pl_addOrder ord (NewPriceLevel (o_Price ord))) (s_levels s)"
      "sorted_wrt (before (s_side s)) (map pl_price (s_levels (s_addOrder ord s)))"
proof -
  let ?p = "o_Price ord" and ?ls = "s_levels s"
  define i where "i = searchLevel (s_side s) ?ls ?p"
  note found = side_order.search_found_iff [OF sorted, of ?p, folded searchLevel_before i_def]
  show thesis
  proof (cases "i < length ?ls \<and> pl_price (?ls ! i) = ?p")
    case True
    then show thesis
      by (intro there [of "?ls ! i" i]) (auto simp: s_addOrder_def getPriceLevel_def Let_def i_def)
  next
    case False
    let ?new = "pl_addOrder ord (NewPriceLevel ?p)"
    have price: "pl_price ?new = ?p" by (simp add: pl_addOrder_def NewPriceLevel_def)
    have le: "i \<le> length ?ls" unfolding i_def searchLevel_before by (rule side_order.search_spec(1) [OF sorted])
    have eq: "s_levels (s_addOrder ord s) = insert_nth i ?new ?ls"
      using False le by (auto simp: s_addOrder_def getPriceLevel_def Let_def i_def insert_nth_def nth_append
          list_update_append)
    moreover have "sorted_wrt (before (s_side s)) (map pl_price (insert_nth i ?new ?ls))"
      using side_order.search_insert [OF sorted, of ?new] found False
      unfolding price searchLevel_before [symmetric] i_def [symmetric] by blast
    ultimately show thesis using found False le by (intro fresh [of i]) auto
  qed
qed

lemma s_side_addOrder [simp]: "s_side (s_addOrder ord s) = s_side s"
  by (simp add: s_addOrder_def getPriceLevel_def Let_def)

lemma levels_ok_addOrder [inv_intros]:
  assumes "levels_ok (s_side s) (s_levels s)" and "o_Side ord = s_side s"
  shows "levels_ok (s_side s) (s_levels (s_addOrder ord s))"
proof -
  have sorted: "sorted_wrt (before (s_side s)) (map pl_price (s_levels s))"
    using assms(1) by (simp add: levels_ok_def)
  show ?thesis
  proof (cases rule: s_addOrder_cases [OF sorted, of ord])
    case (1 l i)
    have "map pl_price ((s_levels s)[i := pl_addOrder ord l]) = map pl_price (s_levels s)"
      using 1(3,4) by (simp add: map_update pl_addOrder_def list_update_same_conv)
    moreover have "\<forall>x \<in> set (pl_orders l). o_Side x = s_side s \<and> o_Price x = o_Price ord"
      using assms(1) 1(1,2) by (auto simp: levels_ok_def)
    ultimately show ?thesis
      using 1(2,5) assms sorted
      by (auto simp: levels_ok_def pl_addOrder_def dest!: subsetD [OF set_update_subset_insert])
  next
    case (2 i)
    with assms show ?thesis by (auto simp: levels_ok_def pl_addOrder_def NewPriceLevel_def)
  qed
qed

lemma queueAt_addOrder:
  assumes "levels_ok (s_side s) (s_levels s)" and "o_Side ord = s_side s"
  shows "queueAt p (s_addOrder ord s) = (if p = o_Price ord then queueAt p s @ [ord] else queueAt p s)"
proof -
  have sorted: "sorted_wrt (before (s_side s)) (map pl_price (s_levels s))"
    using assms(1) by (simp add: levels_ok_def)
  have sorted': "sorted_wrt (before (s_side s)) (map pl_price (s_levels (s_addOrder ord s)))"
    using levels_ok_addOrder [OF assms] by (simp add: levels_ok_def)
  show ?thesis
  proof (cases rule: s_addOrder_cases [OF sorted, of ord])
    case (1 l i)
    show ?thesis
    proof (cases "p = o_Price ord")
      case True
      have "pl_addOrder ord l \<in> set (s_levels (s_addOrder ord s))" using 1 by (simp add: set_update_memI)
      from queueAt_mem [OF sorted' this] queueAt_mem [OF sorted 1(1)] 1(2) True show ?thesis
        by (simp add: pl_addOrder_def)
    next
      case False
      show ?thesis
      proof (cases "p \<in> pl_price ` set (s_levels s)")
        case True
        then obtain l' where l': "l' \<in> set (s_levels s)" "pl_price l' = p" by auto
        then have "l' \<in> set (s_levels (s_addOrder ord s))"
          using 1 False by (auto simp: in_set_conv_nth) (metis nth_list_update_neq)
        from queueAt_mem [OF sorted' this] queueAt_mem [OF sorted l'(1)] l'(2) False show ?thesis by simp
      next
        case none: False
        then have "p \<notin> pl_price ` set (s_levels (s_addOrder ord s))"
          using 1 False by (auto simp: pl_addOrder_def dest!: subsetD [OF set_update_subset_insert])
        with queueAt_none [OF none] queueAt_none [OF this] False show ?thesis by simp
      qed
    qed
  next
    case (2 i)
    let ?new = "pl_addOrder ord (NewPriceLevel (o_Price ord))"
    have set: "set (s_levels (s_addOrder ord s)) = insert ?new (set (s_levels s))" using 2 by simp
    have new: "pl_price ?new = o_Price ord" "pl_orders ?new = [ord]"
      by (simp_all add: pl_addOrder_def NewPriceLevel_def)
    show ?thesis
    proof (cases "p \<in> pl_price ` set (s_levels s)")
      case True
      then obtain l' where l': "l' \<in> set (s_levels s)" "pl_price l' = p" by auto
      have "p \<noteq> o_Price ord" using 2(1) True by blast
      with l' queueAt_mem [OF sorted', of l'] queueAt_mem [OF sorted l'(1)] set show ?thesis by simp
    next
      case none: False
      with queueAt_none [OF none] queueAt_none [of p "s_addOrder ord s"] queueAt_mem [OF sorted', of ?new] new set
      show ?thesis by auto
    qed
  qed
qed

interpretation side_store: keyed_store "\<lambda>s. levels_ok (s_side s) (s_levels s)" "\<lambda>ord s. o_Side ord = s_side s"
  queueAt s_addOrder o_Price "\<lambda>ord q. q @ [ord]"
  by unfold_locales (simp_all add: levels_ok_addOrder queueAt_addOrder)

section \<open>Removing an order\<close>

lemma searchLevel_at:
  assumes "sorted_wrt (before sd) (map pl_price ls)" and "i < length ls"
  shows "searchLevel sd ls (pl_price (ls ! i)) = i"
proof -
  let ?k = "searchLevel sd ls (pl_price (ls ! i))"
  have k: "?k < length ls" "ls ! ?k = ls ! i"
    unfolding searchLevel_before using side_order.search_found [OF assms(1), of "ls ! i"] assms(2) by simp_all
  then have "map pl_price ls ! ?k = map pl_price ls ! i" using assms(2) by simp
  with k(1) assms(2) sorted_prices_distinct [OF assms(1)] show ?thesis
    by (metis length_map nth_eq_iff_index_eq)
qed

lemma RemoveOrder_at:
  assumes "sorted_wrt (before (o_Side ord)) (map pl_price (s_levels s))"
    and "i < length (s_levels s)" and "pl_price (s_levels s ! i) = o_Price ord"
    and "find_index (\<lambda>x. o_ID x = o_ID ord) (pl_orders (s_levels s ! i)) = Some j"
  shows "RemoveOrder ord s = Ret (Inr (pl_orders (s_levels s ! i) ! j),
     s\<lparr>s_levels :=
       (let l = (s_levels s ! i)\<lparr>
              pl_volume := pl_volume (s_levels s ! i) - TrueRemaining (pl_orders (s_levels s ! i) ! j),
              pl_orders := remove_nth j (pl_orders (s_levels s ! i))\<rparr>
        in if pl_orders l = [] then remove_nth i (s_levels s) else (s_levels s)[i := l])\<rparr>)"
proof -
  have "searchLevel (o_Side ord) (s_levels s) (o_Price ord) = i"
    using searchLevel_at [OF assms(1,2)] assms(3) by simp
  moreover have "j < length (pl_orders (s_levels s ! i))" using find_index_Some [OF assms(4)] by simp
  ultimately show ?thesis using assms(2,4) by (simp add: RemoveOrder_def pl_removeOrder_def Let_def)
qed

lemma find_index_snoc:
  "\<forall>x \<in> set xs. \<not> P x \<Longrightarrow> P y \<Longrightarrow> find_index P (xs @ [y]) = Some (length xs)"
  by (induction xs) auto

lemma remove_nth_length [simp]: "remove_nth (length xs) (xs @ [y]) = xs"
  by (simp add: remove_nth_def)

lemma remove_insert_nth [simp]: "i \<le> length xs \<Longrightarrow> remove_nth i (insert_nth i y xs) = xs"
  by (simp add: remove_nth_def insert_nth_def min_def)

lemma nth_insert_nth [simp]: "i \<le> length xs \<Longrightarrow> insert_nth i y xs ! i = y"
  by (simp add: insert_nth_def nth_append)

text \<open>
  C9: adding an order to a side and removing it again gives back the side exactly as it was, every
  level, queue and stored volume included, and returns the order itself; the level that the order
  needed is created and deleted with it.
\<close>

theorem RemoveOrder_addOrder:
  assumes ok: "levels_ok (s_side s) (s_levels s)" and side: "o_Side ord = s_side s"
    and fresh: "\<forall>l \<in> set (s_levels s). \<forall>x \<in> set (pl_orders l). o_ID x \<noteq> o_ID ord"
  shows "RemoveOrder ord (s_addOrder ord s) = Ret (Inr ord, s)"
proof -
  have sorted: "sorted_wrt (before (s_side s)) (map pl_price (s_levels s))"
    using ok by (simp add: levels_ok_def)
  let ?s = "s_addOrder ord s"
  have sorted': "sorted_wrt (before (o_Side ord)) (map pl_price (s_levels ?s))"
    using levels_ok_addOrder [OF ok side] side by (simp add: levels_ok_def)
  have put: "?s\<lparr>s_levels := s_levels s\<rparr> = s"
    by (cases s) (simp add: s_addOrder_def getPriceLevel_def Let_def)
  show ?thesis
  proof (cases rule: s_addOrder_cases [OF sorted, of ord])
    case (1 l i)
    have at: "s_levels ?s ! i = pl_addOrder ord l" "i < length (s_levels ?s)" using 1 by simp_all
    have idx: "find_index (\<lambda>x. o_ID x = o_ID ord) (pl_orders (s_levels ?s ! i)) = Some (length (pl_orders l))"
      using fresh 1(1) by (simp add: at pl_addOrder_def find_index_snoc)
    have "pl_orders l \<noteq> []" using ok 1(1) by (auto simp: levels_ok_def)
    moreover have "(s_levels ?s)[i := l] = s_levels s" using 1 by (simp add: list_update_same_conv)
    ultimately show ?thesis
      using RemoveOrder_at [OF sorted' at(2) _ idx] 1(2) put by (simp add: at pl_addOrder_def)
  next
    case (2 i)
    have at: "s_levels ?s ! i = pl_addOrder ord (NewPriceLevel (o_Price ord))" "i < length (s_levels ?s)"
      using 2 by simp_all
    have idx: "find_index (\<lambda>x. o_ID x = o_ID ord) (pl_orders (s_levels ?s ! i)) = Some 0"
      by (simp add: at pl_addOrder_def NewPriceLevel_def)
    have "remove_nth i (s_levels ?s) = s_levels s" using 2 by simp
    then show ?thesis
      using RemoveOrder_at [OF sorted' at(2) _ idx] put by (simp add: at pl_addOrder_def NewPriceLevel_def)
  qed
qed

text \<open>
  C10: time priority of a side. After any sequence of added orders, the queue at every price is the
  earlier queue followed by the added orders of that price in the order they came, and the side is
  still sorted with no empty level.
\<close>

theorem addOrders_queue:
  assumes "levels_ok (s_side s) (s_levels s)" and "\<forall>ord \<in> set ords. o_Side ord = s_side s"
  shows "queueAt p (fold s_addOrder ords s) = queueAt p s @ filter (\<lambda>ord. o_Price ord = p) ords
    \<and> levels_ok (s_side s) (s_levels (fold s_addOrder ords s))"
proof -
  have app: "fold (\<lambda>ord q. q @ [ord]) xs q = q @ xs" for xs q :: "Order list"
    by (induction xs arbitrary: q) auto
  have "s_side (fold s_addOrder xs s) = s_side s" for xs
    by (induction xs arbitrary: s) auto
  then show ?thesis using side_store.fold_look [OF assms] side_store.fold_inv [OF assms] app by simp
qed

end
