(* ===== verification/Book_Side_Uncross.thy ===== *)
theory Book_Side_Uncross
  imports Book_Side_Store
begin

text \<open>
  The uncrossing of a side without an off-book source: the loop over the levels returns, best
  prices trade first and within the limit, volume is conserved, a fill-or-kill order is filled in
  full or not at all, and the preview of an order's trades agrees with its execution.
\<close>

section \<open>Uncrossing a side\<close>

definition crosses :: "Order \<Rightarrow> Uint \<Rightarrow> bool" where
  "crosses agg p \<longleftrightarrow> checkLimit agg p \<or> anyPrice agg"

definition sideVolume :: "PriceLevel list \<Rightarrow> nat" where
  "sideVolume ls = sum_list (map (\<lambda>l. volumeOf (pl_orders l)) ls)"

lemma sideVolume_simps [simp]:
  "sideVolume [] = 0" "sideVolume (l # ls) = volumeOf (pl_orders l) + sideVolume ls"
  "sideVolume (ls @ ms) = sideVolume ls + sideVolume ms"
  by (simp_all add: sideVolume_def)

text \<open>What every level of a side satisfies when an order of the other side arrives.\<close>

definition level_ready :: "Order \<Rightarrow> PriceLevel \<Rightarrow> bool" where
  "level_ready agg l \<longleftrightarrow> level_inv l \<and> pl_orders l \<noteq> [] \<and> length (pl_orders l) < 2 * 10 ^ 16
     \<and> (\<forall>ord \<in> set (pl_orders l). o_Side ord \<noteq> o_Side agg \<and> o_Price ord = pl_price l)"

definition best_first :: "Side \<Rightarrow> Trade list \<Rightarrow> bool" where
  "best_first sd ts \<longleftrightarrow> sorted_wrt (\<lambda>t t'. t_Price t = t_Price t' \<or> before sd (t_Price t') (t_Price t)) ts"

text \<open>
  The outcome on the levels \<open>L\<close>: the levels \<open>K\<close> that stay are a prefix of \<open>L\<close> in which only the last
  one may have changed.
\<close>

definition kept_levels :: "Order \<Rightarrow> PriceLevel list \<Rightarrow> PriceLevel list \<Rightarrow> bool" where
  "kept_levels agg L K \<longleftrightarrow> (\<forall>l \<in> set K. level_ready agg l) \<and> length K \<le> length L
     \<and> map pl_price K = take (length K) (map pl_price L)
     \<and> butlast K = take (length K - 1) L
     \<and> (K \<noteq> [] \<longrightarrow> subseq (map order_key (pl_orders (last K))) (map order_key (pl_orders (L ! (length K - 1)))))"

definition uncrossed ::
  "Side \<Rightarrow> Order \<Rightarrow> PriceLevel list \<Rightarrow> PriceLevel list \<Rightarrow> Trade list \<Rightarrow> Order \<Rightarrow> BookError option \<Rightarrow> bool" where
  "uncrossed sd agg L K ts agg' err \<longleftrightarrow> kept_levels agg L K \<and> only_remaining agg agg'
     \<and> unat (o_Remaining agg') + tradedVolume ts = unat (o_Remaining agg)
     \<and> sideVolume K + tradedVolume ts = sideVolume L
     \<and> at_prices {p \<in> pl_price ` set L. crosses agg p} ts \<and> best_first sd ts
     \<and> err \<in> {None, Some ErrWashTrade}
     \<and> (err = None \<longrightarrow> o_Remaining agg' = 0 \<or> K = [] \<or> \<not> crosses agg (pl_price (last K)))"

lemma only_remaining_iff: "only_remaining agg agg' \<longleftrightarrow> (\<exists>x. agg' = agg\<lparr>o_Remaining := x\<rparr>)"
  by (auto simp: only_remaining_def)

lemma crosses_only_remaining: "only_remaining agg agg' \<Longrightarrow> crosses agg' = crosses agg"
  by (auto simp: only_remaining_iff crosses_def checkLimit_def anyPrice_def fun_eq_iff)

lemma level_ready_only_remaining: "only_remaining agg agg' \<Longrightarrow> level_ready agg' = level_ready agg"
  by (auto simp: only_remaining_iff level_ready_def fun_eq_iff)

lemma only_remaining_trans: "only_remaining a b \<Longrightarrow> only_remaining b c \<Longrightarrow> only_remaining a c"
  by (auto simp: only_remaining_iff)

lemma only_remaining_refl [simp]: "only_remaining a a"
  by (simp add: only_remaining_def)

lemma kept_levels_refl: "\<forall>l \<in> set L. level_ready agg l \<Longrightarrow> kept_levels agg L L"
  by (simp add: kept_levels_def butlast_conv_take last_conv_nth)

lemma kept_levels_snoc: "kept_levels agg L K \<Longrightarrow> kept_levels agg (L @ [l]) K"
  by (cases K rule: rev_cases) (auto simp: kept_levels_def nth_append)

lemma uncrossed_stop:
  assumes "\<forall>l \<in> set L. level_ready agg l" and "err \<in> {None, Some ErrWashTrade}"
    and "err = None \<Longrightarrow> o_Remaining agg = 0 \<or> L = [] \<or> \<not> crosses agg (pl_price (last L))"
  shows "uncrossed sd agg L L [] agg err"
  using assms by (simp add: uncrossed_def kept_levels_refl best_first_def)

lemma spec_prices:
  assumes "uncross_spec agg l r" and "level_ready agg l"
  shows "at_prices {pl_price l} (ur_trades r)"
proof (rule at_prices_mono)
  show "at_prices (o_Price ` set (pl_orders l)) (ur_trades r)" using assms(1) by (simp add: uncross_spec_def)
  show "o_Price ` set (pl_orders l) \<subseteq> {pl_price l}" using assms(2) by (auto simp: level_ready_def)
qed

lemma spec_ready:
  assumes "uncross_spec agg l r" and "level_ready agg l" and "pl_orders (ur_level r) \<noteq> []"
  shows "level_ready agg (ur_level r)"
proof -
  have keys: "subseq (map order_key (pl_orders (ur_level r))) (map order_key (pl_orders l))"
    and price: "pl_price (ur_level r) = pl_price l" and inv: "level_inv (ur_level r)"
    using assms(1) by (simp_all add: uncross_spec_def)
  have "o_Side ord \<noteq> o_Side agg \<and> o_Price ord = pl_price l" if "ord \<in> set (pl_orders (ur_level r))" for ord
  proof -
    have "order_key ord \<in> set (map order_key (pl_orders (ur_level r)))" using that by simp
    then obtain k where "k \<in> set (map order_key (pl_orders l))" "order_key ord = k"
      by (rule list_emb_set [OF keys])
    then obtain ord' where "ord' \<in> set (pl_orders l)" "order_key ord = order_key ord'" by auto
    with assms(2) show ?thesis by (auto simp: level_ready_def order_key_def)
  qed
  moreover have "length (pl_orders (ur_level r)) \<le> length (pl_orders l)"
    using list_emb_length [OF keys] by simp
  moreover have "length (pl_orders l) < 2 * 10 ^ 16" using assms(2) by (simp add: level_ready_def)
  ultimately show ?thesis using inv price assms(3) unfolding level_ready_def by simp
qed

lemma best_first_const: "at_prices {p} ts \<Longrightarrow> best_first sd ts"
  by (induction ts) (auto simp: best_first_def at_prices_def)

lemma uncrossed_last:
  assumes spec: "uncross_spec agg l r" and ready: "\<forall>x \<in> set (L @ [l]). level_ready agg x"
    and cr: "crosses agg (pl_price l)" and ne: "pl_orders (ur_level r) \<noteq> []"
    and full: "ur_err r = None \<Longrightarrow> o_Remaining (ur_agg r) = 0"
  shows "uncrossed sd agg (L @ [l]) (L @ [ur_level r]) (ur_trades r) (ur_agg r) (ur_err r)"
proof -
  have "level_ready agg (ur_level r)" using spec_ready [OF spec _ ne] ready by simp
  then have "kept_levels agg (L @ [l]) (L @ [ur_level r])"
    using ready spec by (auto simp: kept_levels_def uncross_spec_def)
  moreover have "at_prices {p \<in> pl_price ` set (L @ [l]). crosses agg p} (ur_trades r)"
    using spec_prices [OF spec] ready cr by (auto elim!: at_prices_mono)
  moreover have "best_first sd (ur_trades r)"
    using spec_prices [OF spec] ready by (intro best_first_const) simp
  ultimately show ?thesis using spec full by (simp add: uncrossed_def uncross_spec_def)
qed


lemma uncrossed_next:
  assumes spec: "uncross_spec agg l r" and ready: "\<forall>x \<in> set (L @ [l]). level_ready agg x"
    and sorted: "sorted_wrt (before sd) (map pl_price (L @ [l]))"
    and cr: "crosses agg (pl_price l)" and empty: "pl_orders (ur_level r) = []"
    and rest: "uncrossed sd (ur_agg r) L K ts agg' err"
  shows "uncrossed sd agg (L @ [l]) K (ur_trades r @ ts) agg' err"
proof -
  have only: "only_remaining agg (ur_agg r)"
    and rem: "unat (o_Remaining (ur_agg r)) + tradedVolume (ur_trades r) = unat (o_Remaining agg)"
    and vol: "tradedVolume (ur_trades r) = volumeOf (pl_orders l)"
    using spec empty by (simp_all add: uncross_spec_def)
  note same = crosses_only_remaining [OF only] level_ready_only_remaining [OF only]
  note R = rest [unfolded uncrossed_def kept_levels_def same, folded kept_levels_def]
  have kept: "kept_levels agg L K" using R unfolding kept_levels_def by simp
  have p1: "at_prices {pl_price l} (ur_trades r)" using spec_prices [OF spec] ready by simp
  have p2: "at_prices {p \<in> pl_price ` set L. crosses agg p} ts" using R by simp
  have "before sd (t_Price t') (t_Price t)" if "t \<in> set (ur_trades r)" "t' \<in> set ts" for t t'
  proof -
    have "t_Price t = pl_price l" "t_Price t' \<in> pl_price ` set L"
      using that p1 p2 by (auto simp: at_prices_def)
    with sorted show ?thesis by (auto simp: sorted_wrt_append)
  qed
  moreover have "best_first sd ts" using R by simp
  ultimately have "best_first sd (ur_trades r @ ts)"
    using best_first_const [OF p1, of sd] by (simp add: best_first_def sorted_wrt_append)
  moreover have "at_prices {p \<in> pl_price ` set (L @ [l]). crosses agg p} (ur_trades r @ ts)"
    using p1 p2 cr by (auto elim!: at_prices_mono)
  moreover have "only_remaining agg agg'" using only_remaining_trans [OF only] R by simp
  ultimately show ?thesis
    using kept_levels_snoc [OF kept] R rem vol by (simp add: uncrossed_def)
qed

lemma spec_exhausted:
  assumes "uncross_spec agg l r" and "ur_err r = None" and "o_Remaining (ur_agg r) \<noteq> 0"
  shows "pl_orders (ur_level r) = []"
proof -
  have "unat (o_Remaining (ur_agg r)) \<noteq> 0" using assms(3) by (simp add: unat_eq_zero)
  with assms have "volumeOf (pl_orders (ur_level r)) = 0"
    by (auto simp: uncross_spec_def min_def split: if_splits)
  moreover have "\<forall>ord \<in> set (pl_orders (ur_level r)). 0 < trueRem ord"
    using assms(1) by (simp add: uncross_spec_def level_inv_def)
  ultimately show ?thesis
    using trueRem_le_volumeOf [of _ "pl_orders (ur_level r)"] by (cases "pl_orders (ur_level r)") fastforce+
qed

lemma dropEmptied_full:
  assumes "n \<le> length ls" and "\<forall>l \<in> set (take n ls). pl_orders l \<noteq> []"
  shows "dropEmptied n ls = take n ls"
  using assms by (cases n) (auto simp: dropEmptied_def take_Suc_conv_app_nth)

text \<open>One visit of the loop at the level \<open>levels ! m\<close>, when no off-book source is set.\<close>

lemma uncrossLevels_visit:
  assumes "sl_n s = Suc m" and "o_Remaining (sl_agg s) \<noteq> 0"
    and "crosses (sl_agg s) (pl_price (sl_levels s ! m))"
    and "pl_uncross ddiv (sl_agg s) chk (sl_levels s ! m) = Ret r"
  defines "s' \<equiv> s\<lparr>sl_levels := (sl_levels s)[m := ur_level r], sl_agg := ur_agg r,
      sl_trades := sl_trades s @ ur_trades r, sl_impacted := sl_impacted s @ ur_impacted r, sl_err := ur_err r\<rparr>"
  shows "uncrossLevels (Suc fuel) ddiv None chk s =
    (if ur_err r = Some ErrWashTrade then Ret s'
     else uncrossLevels fuel ddiv None chk (s'\<lparr>sl_n := (if pl_orders (ur_level r) = [] then m else Suc m)\<rparr>))"
  unfolding s'_def using assms(1-4) by (cases s) (simp add: crosses_def uncrossOffbook_def Let_def)

lemma uncrossLevels_done:
  "o_Remaining (sl_agg s) = 0 \<Longrightarrow> 0 < fuel \<Longrightarrow> uncrossLevels fuel ddiv ob chk s = Ret s"
  by (cases fuel) simp_all

lemma dropEmptied_update:
  assumes "m < length ls" and "\<forall>l \<in> set (take m ls). pl_orders l \<noteq> []"
  shows "pl_orders l' \<noteq> [] \<Longrightarrow> dropEmptied (Suc m) (ls[m := l']) = take m ls @ [l']"
    and "pl_orders l' = [] \<Longrightarrow> dropEmptied (Suc m) (ls[m := l']) = take m ls"
    and "dropEmptied m (ls[m := l']) = take m ls"
proof -
  show "pl_orders l' \<noteq> [] \<Longrightarrow> dropEmptied (Suc m) (ls[m := l']) = take m ls @ [l']"
    using assms(1) by (simp add: dropEmptied_def take_Suc_conv_app_nth)
  show "pl_orders l' = [] \<Longrightarrow> dropEmptied (Suc m) (ls[m := l']) = take m ls"
    using assms(1) by (simp add: dropEmptied_def)
  show "dropEmptied m (ls[m := l']) = take m ls"
    using dropEmptied_full [of m "ls[m := l']"] assms by simp
qed

definition loop_ok :: "Side \<Rightarrow> 's sideLoop \<Rightarrow> (string, 's sideLoop) go \<Rightarrow> bool" where
  "loop_ok sd s res \<longleftrightarrow> (\<exists>s' ts. res = Ret s' \<and> sl_trades s' = sl_trades s @ ts \<and> sl_st s' = sl_st s
      \<and> uncrossed sd (sl_agg s) (take (sl_n s) (sl_levels s)) (dropEmptied (sl_n s') (sl_levels s')) ts
          (sl_agg s') (sl_err s'))"

definition loop_ready :: "Side \<Rightarrow> 's sideLoop \<Rightarrow> bool" where
  "loop_ready sd s \<longleftrightarrow> sl_n s \<le> length (sl_levels s) \<and> sl_err s = None
     \<and> (\<forall>l \<in> set (take (sl_n s) (sl_levels s)). level_ready (sl_agg s) l)
     \<and> sorted_wrt (before sd) (map pl_price (take (sl_n s) (sl_levels s)))"

lemma uncrossLevels_idle:
  "o_Remaining (sl_agg s) = 0 \<or> sl_n s = 0 \<or> \<not> crosses (sl_agg s) (pl_price (sl_levels s ! (sl_n s - 1))) \<Longrightarrow>
   uncrossLevels (Suc fuel) ddiv ob chk s = Ret s"
  by (auto simp: crosses_def Let_def)

lemma uncrossLevels_stop:
  assumes ready: "loop_ready sd s"
    and stop: "o_Remaining (sl_agg s) = 0 \<or> sl_n s = 0 \<or> \<not> crosses (sl_agg s) (pl_price (sl_levels s ! (sl_n s - 1)))"
  shows "loop_ok sd s (uncrossLevels (Suc fuel) ddiv None chk s)"
proof -
  let ?L = "take (sl_n s) (sl_levels s)"
  have "uncrossLevels (Suc fuel) ddiv None chk s = Ret s" by (rule uncrossLevels_idle [OF stop])
  moreover have "dropEmptied (sl_n s) (sl_levels s) = ?L"
    using ready by (intro dropEmptied_full) (auto simp: loop_ready_def level_ready_def)
  moreover have "last ?L = sl_levels s ! (sl_n s - 1)" if "sl_n s \<noteq> 0"
    using that ready by (cases "sl_n s") (simp_all add: take_Suc_conv_app_nth loop_ready_def)
  then have "uncrossed sd (sl_agg s) ?L ?L [] (sl_agg s) None"
    using ready stop by (intro uncrossed_stop) (cases "sl_n s = 0"; auto simp: loop_ready_def)+
  ultimately show ?thesis using ready by (auto simp: loop_ok_def loop_ready_def)
qed

lemma uncrossLevels_step:
  fixes s :: "'s sideLoop"
  assumes n: "sl_n s = Suc m" and loop: "loop_ready sd s"
    and cr: "crosses (sl_agg s) (pl_price (sl_levels s ! m))" and rem: "o_Remaining (sl_agg s) \<noteq> 0"
    and r: "pl_uncross ddiv (sl_agg s) chk (sl_levels s ! m) = Ret r"
    and spec: "uncross_spec (sl_agg s) (sl_levels s ! m) r" and fuel: "0 < fuel"
    and IH: "\<And>s' :: 's sideLoop. sl_n s' = m \<Longrightarrow> loop_ready sd s' \<Longrightarrow> loop_ok sd s' (uncrossLevels fuel ddiv None chk s')"
  shows "loop_ok sd s (uncrossLevels (Suc fuel) ddiv None chk s)"
proof -
  let ?agg = "sl_agg s" and ?ls = "sl_levels s"
  define L where "L = take m ?ls"
  define l where "l = ?ls ! m"
  define s' where "s' = s\<lparr>sl_levels := ?ls[m := ur_level r], sl_agg := ur_agg r,
      sl_trades := sl_trades s @ ur_trades r, sl_impacted := sl_impacted s @ ur_impacted r, sl_err := ur_err r\<rparr>"
  have m: "m < length ?ls" using loop n by (simp add: loop_ready_def)
  have take: "take (Suc m) ?ls = L @ [l]" using m by (simp add: L_def l_def take_Suc_conv_app_nth)
  have ready: "\<forall>x \<in> set (L @ [l]). level_ready ?agg x"
    and sorted: "sorted_wrt (before sd) (map pl_price (L @ [l]))"
    using loop n take by (simp_all add: loop_ready_def)
  have drop: "dropEmptied (Suc m) (?ls[m := l']) = (if pl_orders l' = [] then L else L @ [l'])"
    "dropEmptied m (?ls[m := l']) = L" for l'
    using dropEmptied_update [OF m] ready by (simp_all add: L_def level_ready_def)
  have readyL: "\<forall>x \<in> set L. level_ready (ur_agg r) x"
    using ready level_ready_only_remaining [of ?agg "ur_agg r"] spec by (simp add: uncross_spec_def)
  note nxt = uncrossed_next [OF spec [folded l_def] ready sorted cr [folded l_def]]
    and final = uncrossed_last [OF spec [folded l_def] ready cr [folded l_def]]
  have visit: "uncrossLevels (Suc fuel) ddiv None chk s =
    (if ur_err r = Some ErrWashTrade then Ret s'
     else uncrossLevels fuel ddiv None chk (s'\<lparr>sl_n := (if pl_orders (ur_level r) = [] then m else Suc m)\<rparr>))"
    using uncrossLevels_visit [OF n rem cr r, of fuel] by (simp only: s'_def)
  have err: "ur_err r \<in> {None, Some ErrWashTrade}" using spec by (simp add: uncross_spec_def)
  consider (wash) "ur_err r = Some ErrWashTrade" | (left) "ur_err r = None" "pl_orders (ur_level r) \<noteq> []"
    | (gone) "ur_err r = None" "pl_orders (ur_level r) = []" using err by auto
  then show ?thesis
  proof cases
    case wash
    have "uncrossed sd ?agg (L @ [l]) (dropEmptied (Suc m) (?ls[m := ur_level r])) (ur_trades r) (ur_agg r) (ur_err r)"
      using final [of sd] nxt [of L "[]" "ur_agg r" "ur_err r"] uncrossed_stop [OF readyL err, of sd] wash
      by (auto simp: drop)
    then show ?thesis using visit wash by (auto simp: loop_ok_def s'_def n take)
  next
    case left
    then have "o_Remaining (ur_agg r) = 0" using spec_exhausted [OF spec] by blast
    with visit left fuel have "uncrossLevels (Suc fuel) ddiv None chk s = Ret (s'\<lparr>sl_n := Suc m\<rparr>)"
      by (simp add: uncrossLevels_done s'_def)
    with final [of sd] left \<open>o_Remaining (ur_agg r) = 0\<close> show ?thesis by (auto simp: loop_ok_def s'_def n take drop)
  next
    case gone
    have "loop_ready sd (s'\<lparr>sl_n := m\<rparr>)"
      using readyL sorted m gone by (simp add: loop_ready_def s'_def L_def [symmetric] sorted_wrt_append)
    then have "loop_ok sd (s'\<lparr>sl_n := m\<rparr>) (uncrossLevels fuel ddiv None chk (s'\<lparr>sl_n := m\<rparr>))"
      by (intro IH) simp
    then show ?thesis
      using visit gone nxt by (auto simp: loop_ok_def s'_def n take L_def [symmetric])
  qed
qed

lemma uncrossLevels_spec:
  assumes "decimal_div ddiv"
  shows "sl_n s < fuel \<Longrightarrow> loop_ready sd s \<Longrightarrow> loop_ok sd s (uncrossLevels fuel ddiv None chk s)"
proof (induction fuel arbitrary: s)
  case 0
  then show ?case by simp
next
  case (Suc fuel)
  show ?case
  proof (cases "o_Remaining (sl_agg s) = 0 \<or> sl_n s = 0
      \<or> \<not> crosses (sl_agg s) (pl_price (sl_levels s ! (sl_n s - 1)))")
    case True
    then show ?thesis by (rule uncrossLevels_stop [OF Suc.prems(2)])
  next
    case False
    then obtain m where n: "sl_n s = Suc m" by (cases "sl_n s") auto
    let ?l = "sl_levels s ! m"
    have "m < length (sl_levels s)" using Suc.prems(2) n by (simp add: loop_ready_def)
    then have "level_ready (sl_agg s) ?l"
      using Suc.prems(2) n by (simp add: loop_ready_def take_Suc_conv_app_nth)
    then obtain r where "pl_uncross ddiv (sl_agg s) chk ?l = Ret r" "uncross_spec (sl_agg s) ?l r"
      using pl_uncross_spec [OF assms, of ?l "sl_agg s" chk] False
      by (auto simp: level_ready_def word_neq_0_conv)
    then show ?thesis
      using False n Suc.prems Suc.IH by (intro uncrossLevels_step [OF n]) auto
  qed
qed

section \<open>Fill or kill\<close>

definition visibleOf :: "Order list \<Rightarrow> nat" where
  "visibleOf ords = sum_list (map (\<lambda>ord. unat (o_Remaining ord)) ords)"

lemma visibleOf_simps [simp]:
  "visibleOf [] = 0" "visibleOf (x # xs) = unat (o_Remaining x) + visibleOf xs"
  "visibleOf (xs @ ys) = visibleOf xs + visibleOf ys"
  by (simp_all add: visibleOf_def)

definition visibleVolume :: "PriceLevel list \<Rightarrow> nat" where
  "visibleVolume ls = sum_list (map (\<lambda>l. visibleOf (pl_orders l)) ls)"

lemma visibleVolume_simps [simp]:
  "visibleVolume [] = 0" "visibleVolume (l # ls) = visibleOf (pl_orders l) + visibleVolume ls"
  "visibleVolume (ls @ ms) = visibleVolume ls + visibleVolume ms"
  by (simp_all add: visibleVolume_def)

lemma visibleOf_le: "visibleOf ords \<le> volumeOf ords"
  by (induction ords) (auto simp: trueRem_def)

lemma run_wash:
  "uncross_run chk agg vol i k ords u \<Longrightarrow> uo_err u = Some ErrWashTrade \<Longrightarrow> 0 < unat (o_Remaining agg) \<Longrightarrow>
   \<exists>pre own post. ords = pre @ own # post \<and> o_Party own = o_Party agg \<and> visibleOf pre < unat (o_Remaining agg)"
proof (induction rule: uncross_run.induct)
  case (wash ord agg vol i k rest)
  then show ?case by (intro exI [of _ "[]"]) auto
next
  case (hidden ord agg vol i k rest u)
  then obtain pre own post where "rest = pre @ own # post" "o_Party own = o_Party agg"
    "visibleOf pre < unat (o_Remaining agg)" by auto
  moreover have "o_Remaining ord = 0" using hidden.hyps(2) by (auto simp: hiddenOnly_def split: option.splits)
  ultimately show ?case by (intro exI [of _ "ord # pre"]) auto
next
  case (step ord agg sz tr vol i k rest u)
  have sub: "unat (o_Remaining agg - sz) = unat (o_Remaining agg) - unat sz" "unat sz < unat (o_Remaining agg)"
    using step.hyps(3) by (simp_all add: unat_sub word_less_nat_alt word_le_nat_alt)
  then obtain pre own post where "rest = pre @ own # post" "o_Party own = o_Party agg"
    "visibleOf pre < unat (o_Remaining agg) - unat sz" using step by auto
  with step.hyps(2) sub show ?case by (intro exI [of _ "ord # pre"]) auto
qed auto

lemma pl_uncross_wash:
  assumes "pl_uncross ddiv agg chk l = Ret r" and "ur_err r = Some ErrWashTrade" and "o_Remaining agg \<noteq> 0"
  shows "\<exists>pre own post. pl_orders l = pre @ own # post \<and> o_Party own = o_Party agg
    \<and> visibleOf pre < unat (o_Remaining agg)"
proof -
  have "pl_orders l \<noteq> []" using assms(1,2) by (auto simp: pl_uncross_def)
  with assms(1,2) obtain u where "uncrossOrders chk agg (pl_volume l) 0 0 (pl_orders l) = Ret u"
    "uo_err u = Some ErrWashTrade"
    by (auto simp: pl_uncross_def gbind_Ret_iff Let_def split: if_splits)
  with run_wash [OF uncrossOrders_run] assms(3) show ?thesis by (auto simp: unat_gt_0)
qed

lemma fokOffbook_None [simp]: "fokOffbook None levels i fs = Ret fs"
  by (simp add: fokOffbook_def uncrossOffbook_def)

lemma fokOrders_bounds:
  assumes "fokOrders None levels i agg ords fs = Ret (w, fs')" and "unat (fk_total fs) + visibleOf ords < 2 ^ 64"
  shows "unat (fk_total fs') \<le> unat (fk_total fs) + visibleOf ords"
  using assms
proof (induction ords arbitrary: fs)
  case (Cons ord ords)
  have u: "unat (fk_total fs + o_Remaining ord) = unat (fk_total fs) + unat (o_Remaining ord)"
    using Cons.prems(2) by (simp add: unat_word_ariths)
  show ?case
    using Cons.prems Cons.IH [of "fs\<lparr>fk_total := fk_total fs + o_Remaining ord\<rparr>"] u
    by (auto split: if_splits)
qed auto

lemma fokOrders_wash:
  assumes "o_Party own = o_Party agg" and "unat (fk_total fs) + visibleOf pre < unat (o_Remaining agg)"
  shows "\<exists>fs'. fokOrders None levels i agg (pre @ own # post) fs = Ret (True, fs')"
  using assms
proof (induction pre arbitrary: fs)
  case (Cons ord pre)
  have u: "unat (fk_total fs + o_Remaining ord) = unat (fk_total fs) + unat (o_Remaining ord)"
    using Cons.prems(2) unat64_less [of "o_Remaining agg"] by (simp add: unat_word_ariths)
  show ?case
    using Cons.prems Cons.IH [of "fs\<lparr>fk_total := fk_total fs + o_Remaining ord\<rparr>"] u
    by (auto simp: word_le_nat_alt)
qed auto

lemma fokLevels_none_crosses:
  assumes "\<forall>i < n. \<not> trading (pl_price (levels ! i))"
  shows "fokLevels None trading agg levels n fs = Ret (False, fs)"
  using assms by (induction n) auto

lemma fokOrders_returns: "\<exists>w fs'. fokOrders None levels i agg ords fs = Ret (w, fs')"
  by (induction ords arbitrary: fs) auto

lemma fokLevels_returns: "\<exists>w fs'. fokLevels None trading agg levels n fs = Ret (w, fs')"
proof (induction n arbitrary: fs)
  case (Suc n)
  obtain w fs' where "fokOrders None levels n agg (pl_orders (levels ! n)) fs = Ret (w, fs')"
    using fokOrders_returns by blast
  with Suc show ?case by auto
qed auto


lemma crosses_below:
  assumes "sorted_wrt (before sd) (map pl_price ls)" and "i < j" and "j < length ls"
    and "\<not> crosses agg (pl_price (ls ! j))" and "(sd = SideBuy) = (o_Side agg = SideSell)"
  shows "\<not> crosses agg (pl_price (ls ! i))"
  using side_order.sorted_nth [OF assms(1-3)] assms(4,5)
  by (auto simp: crosses_def checkLimit_def before_def split: if_splits)

lemma loop_ready_next:
  assumes "loop_ready sd s" and "sl_n s = Suc m" and "only_remaining (sl_agg s) agg'"
  shows "loop_ready sd (s\<lparr>sl_levels := (sl_levels s)[m := l'], sl_agg := agg', sl_trades := ts,
     sl_impacted := imp, sl_err := None, sl_n := m\<rparr>)"
proof -
  have "m < length (sl_levels s)" using assms(1,2) by (simp add: loop_ready_def)
  then show ?thesis
    using assms level_ready_only_remaining [OF assms(3)]
    by (auto simp: loop_ready_def take_Suc_conv_app_nth sorted_wrt_append)
qed

text \<open>
  The check and the loop run side by side: as long as the check has counted no more than the loop
  has traded, a wash trade of the loop is one of the check, and what the check counted the loop
  trades.
\<close>

lemma fok_level_no_wash:
  assumes "pl_uncross ddiv agg' chk l = Ret r" and "uncross_spec agg' l r" and "o_Remaining agg' \<noteq> 0"
    and "only_remaining agg agg'"
    and "unat (fk_total fs) + unat (o_Remaining agg') \<le> unat (o_Remaining agg)"
    and "fokOrders None levels m agg (pl_orders l) fs = Ret (False, fs1)"
  shows "ur_err r = None"
proof (rule ccontr)
  assume "ur_err r \<noteq> None"
  then have "ur_err r = Some ErrWashTrade" using assms(2) by (auto simp: uncross_spec_def)
  then obtain pre own post where "pl_orders l = pre @ own # post" "o_Party own = o_Party agg'"
    "visibleOf pre < unat (o_Remaining agg')" using pl_uncross_wash [OF assms(1) _ assms(3)] by blast
  moreover have "o_Party agg' = o_Party agg" using assms(4) by (auto simp: only_remaining_iff)
  ultimately show False using fokOrders_wash [of own agg fs pre levels m post] assms(5,6) by auto
qed

lemma fok_run:
  fixes s :: "'s sideLoop"
  assumes dd: "decimal_div ddiv" and sides: "(sd = SideBuy) = (o_Side agg = SideSell)"
  shows "sl_n s < fuel \<Longrightarrow> loop_ready sd s \<Longrightarrow> only_remaining agg (sl_agg s) \<Longrightarrow>
    sl_levels s = take (sl_n s) levels @ suf \<Longrightarrow> sl_n s \<le> length levels \<Longrightarrow>
    fokLevels None (crosses agg) agg levels (sl_n s) fs = Ret (False, fs') \<Longrightarrow>
    unat (fk_total fs) + visibleVolume (take (sl_n s) levels) < 2 ^ 64 \<Longrightarrow>
    unat (fk_total fs) + unat (o_Remaining (sl_agg s)) \<le> unat (o_Remaining agg) \<Longrightarrow>
    o_Remaining agg \<le> fk_total fs' \<Longrightarrow>
    \<exists>s'. uncrossLevels fuel ddiv None chk s = Ret s' \<and> sl_err s' = None \<and> o_Remaining (sl_agg s') = 0"
proof (induction fuel arbitrary: s fs suf)
  case 0
  then show ?case by simp
next
  case (Suc fuel)
  show ?case
  proof (cases "o_Remaining (sl_agg s) = 0 \<or> sl_n s = 0 \<or> \<not> crosses agg (pl_price (levels ! (sl_n s - 1)))")
    case True
    have "o_Remaining (sl_agg s) = 0"
    proof (rule ccontr)
      assume rem: "o_Remaining (sl_agg s) \<noteq> 0"
      have sorted: "sorted_wrt (before sd) (map pl_price (take (sl_n s) levels))"
        using Suc.prems(2,4,5) by (simp add: loop_ready_def)
      have "\<not> crosses agg (pl_price (levels ! i))" if i: "i < sl_n s" for i
      proof (cases "i = sl_n s - 1")
        case last: True
        then show ?thesis using True rem i by auto
      next
        case below: False
        have "\<not> crosses agg (pl_price (levels ! (sl_n s - 1)))" using True rem i by auto
        with crosses_below [OF sorted, of i "sl_n s - 1" agg] i below Suc.prems(5) sides show ?thesis
          by simp
      qed
      then have "fs' = fs" using Suc.prems(6) by (simp add: fokLevels_none_crosses)
      moreover have "unat (o_Remaining (sl_agg s)) \<noteq> 0" using rem by (simp add: unat_eq_zero)
      ultimately show False using Suc.prems(8,9) by (simp add: word_le_nat_alt)
    qed
    with Suc.prems(2) show ?thesis by (simp add: loop_ready_def)
  next
    case False
    then obtain m where n: "sl_n s = Suc m" by (cases "sl_n s") auto
    define l where "l = sl_levels s ! m"
    have l: "levels ! m = l" "m < length (sl_levels s)" "m < length levels"
      using Suc.prems(4,5) n by (simp_all add: l_def nth_append)
    have "level_ready (sl_agg s) l"
      using Suc.prems(2) n l by (simp add: loop_ready_def take_Suc_conv_app_nth l_def)
    then obtain r where r: "pl_uncross ddiv (sl_agg s) chk l = Ret r" and spec: "uncross_spec (sl_agg s) l r"
      using pl_uncross_spec [OF dd, of l "sl_agg s" chk] False
      by (auto simp: level_ready_def word_neq_0_conv)
    obtain w fs1 where fok: "fokOrders None levels m agg (pl_orders l) fs = Ret (w, fs1)"
      using fokOrders_returns by blast
    have w: "\<not> w" using Suc.prems(6) fok False n l by auto
    have err: "ur_err r = None"
      using fok_level_no_wash [OF r spec _ Suc.prems(3,8)] fok w False by auto
    have cr: "crosses (sl_agg s) (pl_price (sl_levels s ! m))" "o_Remaining (sl_agg s) \<noteq> 0"
      using False n l crosses_only_remaining [OF Suc.prems(3)] by (auto simp: l_def)
    note visit = uncrossLevels_visit [OF n cr(2,1) r [unfolded l_def], of fuel]
    show ?thesis
    proof (cases "o_Remaining (ur_agg r) = 0")
      case True
      then show ?thesis using visit err Suc.prems(1) n by (auto simp: uncrossLevels_done)
    next
      case rem: False
      then have empty: "pl_orders (ur_level r) = []" by (rule spec_exhausted [OF spec err])
      have vol: "unat (o_Remaining (ur_agg r)) + volumeOf (pl_orders l) = unat (o_Remaining (sl_agg s))"
        and only: "only_remaining (sl_agg s) (ur_agg r)"
        using spec empty by (auto simp: uncross_spec_def)
      have vis: "visibleVolume (take (Suc m) levels) = visibleVolume (take m levels) + visibleOf (pl_orders l)"
        using l by (simp add: take_Suc_conv_app_nth)
      have tot: "unat (fk_total fs1) \<le> unat (fk_total fs) + visibleOf (pl_orders l)"
        using fokOrders_bounds [OF fok] Suc.prems(7) vis n by simp
      have le: "unat (fk_total fs1) + unat (o_Remaining (ur_agg r)) \<le> unat (o_Remaining agg)"
        using tot vol Suc.prems(8) visibleOf_le [of "pl_orders l"] by linarith
      moreover have "0 < unat (o_Remaining (ur_agg r))" using rem by (simp add: unat_gt_0)
      ultimately have "\<not> o_Remaining agg \<le> fk_total fs1" by (simp add: word_le_nat_alt)
      then have cont: "fokLevels None (crosses agg) agg levels m fs1 = Ret (False, fs')"
        using Suc.prems(6) fok w False n l by auto
      define s2 where "s2 = s\<lparr>sl_levels := (sl_levels s)[m := ur_level r], sl_agg := ur_agg r,
        sl_trades := sl_trades s @ ur_trades r, sl_impacted := sl_impacted s @ ur_impacted r, sl_err := None, sl_n := m\<rparr>"
      have "\<exists>s'. uncrossLevels fuel ddiv None chk s2 = Ret s' \<and> sl_err s' = None \<and> o_Remaining (sl_agg s') = 0"
      proof (rule Suc.IH [where suf = "ur_level r # suf"])
        show "loop_ready sd s2" unfolding s2_def by (rule loop_ready_next [OF Suc.prems(2) n only])
        show "sl_levels s2 = take (sl_n s2) levels @ ur_level r # suf"
          using Suc.prems(4) l(3) n by (simp add: s2_def take_Suc_conv_app_nth list_update_append)
        show "only_remaining agg (sl_agg s2)" using only_remaining_trans [OF Suc.prems(3) only] by (simp add: s2_def)
      qed (use Suc.prems(1,7,9) n l(3) cont le tot vis in \<open>simp_all add: s2_def\<close>)
      then show ?thesis using visit err empty by (simp add: s2_def)
    qed
  qed
qed

section \<open>The whole uncrossing\<close>

text \<open>A side that an order of the other side can be matched against.\<close>

definition side_ready :: "Order \<Rightarrow> OrderBookSide \<Rightarrow> bool" where
  "side_ready agg s \<longleftrightarrow> (\<forall>l \<in> set (s_levels s). level_ready agg l)
     \<and> sorted_wrt (before (s_side s)) (map pl_price (s_levels s))"

text \<open>What is left of the uncrossing once no off-book source answers: the loop and its outcome.\<close>

definition loop_start :: "Order \<Rightarrow> OrderBookSide \<Rightarrow> 's \<Rightarrow> 's sideLoop" where
  "loop_start agg s st = \<lparr>sl_levels = s_levels s, sl_n = length (s_levels s), sl_agg = agg,
     sl_trades = [], sl_impacted = [], sl_err = None, sl_st = st\<rparr>"

definition outcome :: "OrderBookSide \<Rightarrow> 's sideLoop \<Rightarrow> 's uncrossOutcome" where
  "outcome s r = \<lparr>un_side = s\<lparr>s_levels := dropEmptied (sl_n r) (sl_levels r)\<rparr>,
     un_agg = (sl_agg r)\<lparr>o_Price := networkPrice (sl_trades r) (sl_agg r)\<rparr>,
     un_trades = sl_trades r, un_impacted = sl_impacted r,
     un_lastPrice = (if sl_trades r = [] then 0 else t_Price (last (sl_trades r))),
     un_err = sl_err r, un_st = sl_st r\<rparr>"

lemma s_uncross_plain:
  "o_TimeInForce agg \<noteq> OrderTimeInForceFOK \<Longrightarrow>
   s_uncross fuel ddiv None agg chk s st
     = gbind (uncrossLevels fuel ddiv None chk (loop_start agg s st)) (\<lambda>r. Ret (outcome s r))"
  by (simp add: s_uncross_def uncrossOffbook_def Let_def loop_start_def outcome_def)

lemma s_uncross_fok:
  assumes "o_TimeInForce agg = OrderTimeInForceFOK"
    and "fokLevels None (crosses agg) agg (s_levels s) (length (s_levels s))
      \<lparr>fk_fake = agg, fk_total = 0, fk_st = st\<rparr> = Ret (w, fs)"
  shows "s_uncross fuel ddiv None agg chk s st =
    (if w then Ret \<lparr>un_side = s, un_agg = agg\<lparr>o_Status := OrderStatusStopped\<rparr>, un_trades = [], un_impacted = [],
       un_lastPrice = 0, un_err = Some ErrWashTrade, un_st = fk_st fs\<rparr>
     else if fk_total fs < o_Remaining agg then Ret \<lparr>un_side = s, un_agg = agg, un_trades = [], un_impacted = [],
       un_lastPrice = 0, un_err = None, un_st = fk_st fs\<rparr>
     else gbind (uncrossLevels fuel ddiv None chk (loop_start agg s (fk_st fs))) (\<lambda>r. Ret (outcome s r)))"
proof -
  have "(\<lambda>p. checkLimit agg p \<or> anyPrice agg) = crosses agg" by (simp add: crosses_def fun_eq_iff)
  then show ?thesis
    using assms by (simp add: s_uncross_def uncrossOffbook_def uncrossFinished_def Let_def loop_start_def outcome_def)
qed

lemma loop_ready_start: "side_ready agg s \<Longrightarrow> loop_ready (s_side s) (loop_start agg s st)"
  by (simp add: loop_ready_def loop_start_def side_ready_def)

lemma loop_outcome:
  assumes "decimal_div ddiv" and "side_ready agg s" and "length (s_levels s) < fuel"
  obtains r where "uncrossLevels fuel ddiv None chk (loop_start agg s st) = Ret r"
    and "uncrossed (s_side s) agg (s_levels s) (s_levels (un_side (outcome s r))) (un_trades (outcome s r))
      ((un_agg (outcome s r))\<lparr>o_Price := o_Price agg\<rparr>) (un_err (outcome s r))"
    and "s_side (un_side (outcome s r)) = s_side s"
    and "o_Remaining (un_agg (outcome s r)) = o_Remaining (sl_agg r)" and "un_err (outcome s r) = sl_err r"
proof -
  have "loop_ok (s_side s) (loop_start agg s st) (uncrossLevels fuel ddiv None chk (loop_start agg s st))"
    by (rule uncrossLevels_spec [OF assms(1) _ loop_ready_start [OF assms(2)]])
      (use assms(3) in \<open>simp add: loop_start_def\<close>)
  then obtain r where r: "uncrossLevels fuel ddiv None chk (loop_start agg s st) = Ret r"
    and un: "uncrossed (s_side s) agg (s_levels s) (dropEmptied (sl_n r) (sl_levels r)) (sl_trades r) (sl_agg r) (sl_err r)"
    by (auto simp: loop_ok_def loop_start_def)
  have "only_remaining agg (sl_agg r)" using un by (simp add: uncrossed_def)
  then have "(un_agg (outcome s r))\<lparr>o_Price := o_Price agg\<rparr> = sl_agg r"
    by (auto simp: only_remaining_iff outcome_def)
  with r un show thesis by (intro that [OF r]) (simp_all add: outcome_def)
qed

text \<open>
  C3: uncrossing a side with an order that is not fill-or-kill returns whenever its fuel exceeds the
  number of levels, and what comes back is right: the levels that stay are a prefix of the sorted levels of which at most the last one has
  changed, every trade is at a price of a level that the limit allows, better prices trade first,
  the volume of the trades is what the order and the side each lose, and without a wash trade the
  order is filled or no level within its limit is left.
\<close>

theorem s_uncross_sound:
  assumes "decimal_div ddiv" and "side_ready agg s" and "length (s_levels s) < fuel"
    and "o_TimeInForce agg \<noteq> OrderTimeInForceFOK"
  shows "\<exists>r. s_uncross fuel ddiv None agg chk s st = Ret r
    \<and> kept_levels agg (s_levels s) (s_levels (un_side r))
    \<and> unat (o_Remaining (un_agg r)) + tradedVolume (un_trades r) = unat (o_Remaining agg)
    \<and> sideVolume (s_levels (un_side r)) + tradedVolume (un_trades r) = sideVolume (s_levels s)
    \<and> at_prices {p \<in> pl_price ` set (s_levels s). crosses agg p} (un_trades r)
    \<and> best_first (s_side s) (un_trades r)
    \<and> (un_err r = None \<longrightarrow> o_Remaining (un_agg r) = 0 \<or> s_levels (un_side r) = []
         \<or> \<not> crosses agg (pl_price (last (s_levels (un_side r)))))"
proof -
  obtain r where "uncrossLevels fuel ddiv None chk (loop_start agg s st) = Ret r"
    "uncrossed (s_side s) agg (s_levels s) (s_levels (un_side (outcome s r))) (un_trades (outcome s r))
      ((un_agg (outcome s r))\<lparr>o_Price := o_Price agg\<rparr>) (un_err (outcome s r))"
    by (rule loop_outcome [OF assms(1-3)])
  then show ?thesis
    by (intro exI [of _ "outcome s r"]) (simp add: s_uncross_plain [OF assms(4)] uncrossed_def)
qed

lemma fok_all_or_nothing:
  assumes "decimal_div ddiv" and "side_ready agg s" and "length (s_levels s) < fuel"
    and "o_TimeInForce agg = OrderTimeInForceFOK" and "(s_side s = SideBuy) = (o_Side agg = SideSell)"
    and "visibleVolume (s_levels s) < 2 ^ 64"
  shows "\<exists>r. s_uncross fuel ddiv None agg chk s st = Ret r
    \<and> (un_err r = None \<and> o_Remaining (un_agg r) = 0 \<and> tradedVolume (un_trades r) = unat (o_Remaining agg)
       \<or> un_side r = s \<and> un_trades r = [] \<and> un_impacted r = [] \<and> o_Remaining (un_agg r) = o_Remaining agg)"
proof -
  obtain w fs where fok: "fokLevels None (crosses agg) agg (s_levels s) (length (s_levels s))
      \<lparr>fk_fake = agg, fk_total = 0, fk_st = st\<rparr> = Ret (w, fs)"
    using fokLevels_returns by blast
  show ?thesis
  proof (cases "w \<or> fk_total fs < o_Remaining agg")
    case True
    then show ?thesis using s_uncross_fok [OF assms(4) fok, of fuel ddiv chk] by auto
  next
    case False
    obtain r where r: "uncrossLevels fuel ddiv None chk (loop_start agg s (fk_st fs)) = Ret r"
      and un: "uncrossed (s_side s) agg (s_levels s) (s_levels (un_side (outcome s r))) (un_trades (outcome s r))
        ((un_agg (outcome s r))\<lparr>o_Price := o_Price agg\<rparr>) (un_err (outcome s r))"
      and rem: "o_Remaining (un_agg (outcome s r)) = o_Remaining (sl_agg r)" and err: "un_err (outcome s r) = sl_err r"
      by (rule loop_outcome [OF assms(1-3)])
    have "\<exists>s'. uncrossLevels fuel ddiv None chk (loop_start agg s (fk_st fs)) = Ret s' \<and> sl_err s' = None
        \<and> o_Remaining (sl_agg s') = 0"
      by (rule fok_run [OF assms(1,5), where levels = "s_levels s" and suf = "[]"
            and fs = "\<lparr>fk_fake = agg, fk_total = 0, fk_st = st\<rparr>" and fs' = fs])
        (use assms(3,6) loop_ready_start [OF assms(2)] fok False in \<open>auto simp: loop_start_def\<close>)
    then have "sl_err r = None" "o_Remaining (sl_agg r) = 0" using r by auto
    then show ?thesis
      using un rem err r False
      by (intro exI [of _ "outcome s r"]) (simp add: s_uncross_fok [OF assms(4) fok] uncrossed_def)
  qed
qed

text \<open>
  C5: a fill-or-kill order trades completely or not at all. Either it is filled in full with no
  error, or nothing is traded and the side and the remaining volume of the order are untouched,
  because the visible volume within its limit is too small or one of the orders it would meet is
  its own party's.
\<close>

theorem s_uncross_fok_all_or_nothing:
  assumes "decimal_div ddiv" and "side_ready agg s" and "length (s_levels s) < fuel"
    and "o_TimeInForce agg = OrderTimeInForceFOK" and "(s_side s = SideBuy) = (o_Side agg = SideSell)"
    and "visibleVolume (s_levels s) < 2 ^ 64"
  shows "\<exists>r. s_uncross fuel ddiv None agg chk s st = Ret r
    \<and> (un_err r = None \<and> o_Remaining (un_agg r) = 0 \<and> tradedVolume (un_trades r) = unat (o_Remaining agg)
       \<or> un_side r = s \<and> un_trades r = [] \<and> un_impacted r = [] \<and> o_Remaining (un_agg r) = o_Remaining agg)"
  by (rule fok_all_or_nothing [OF assms])

section \<open>The preview of an order's trades\<close>

lemma beyondLimit_crosses:
  assumes "o_Type agg \<noteq> OrderTypeNetwork" and "o_Side agg \<noteq> SideUnspecified"
  shows "(o_Type agg \<noteq> OrderTypeMarket \<and> beyondLimit agg p) \<longleftrightarrow> \<not> crosses agg p"
  using assms by (cases "o_Side agg") (auto simp: beyondLimit_def crosses_def checkLimit_def anyPrice_def)

lemma fake_run:
  fixes s :: "'s sideLoop"
  assumes dd: "decimal_div ddiv" and type: "o_Type agg \<noteq> OrderTypeNetwork" "o_Side agg \<noteq> SideUnspecified"
  shows "loop_ready sd s \<Longrightarrow> only_remaining agg (sl_agg s) \<Longrightarrow>
    sl_levels s = take (sl_n s) levels @ suf \<Longrightarrow> sl_n s \<le> length levels \<Longrightarrow>
    uncrossLevels fuel ddiv None chk s = Ret s' \<Longrightarrow> sl_err s' = None \<Longrightarrow>
    \<exists>ts. sl_trades s' = sl_trades s @ ts
      \<and> fakeUncrossLevels ddiv None agg chk levels (sl_n s) (sl_agg s) None st = Ret (ts, None, st)"
proof (induction fuel arbitrary: s suf)
  case 0
  then show ?case by simp
next
  case (Suc fuel)
  note same = crosses_only_remaining [OF Suc.prems(2)] and limit = beyondLimit_crosses [OF type]
  show ?case
  proof (cases "o_Remaining (sl_agg s) = 0 \<or> sl_n s = 0 \<or> \<not> crosses agg (pl_price (levels ! (sl_n s - 1)))")
    case True
    have at: "sl_levels s ! (sl_n s - 1) = levels ! (sl_n s - 1)" if "sl_n s \<noteq> 0"
      using that Suc.prems(3,4) by (simp add: nth_append)
    have "uncrossLevels (Suc fuel) ddiv None chk s = Ret s"
      using True at same by (intro uncrossLevels_idle) auto
    then have "s' = s" using Suc.prems(5) by simp
    moreover have "fakeUncrossLevels ddiv None agg chk levels (sl_n s) (sl_agg s) None st = Ret ([], None, st)"
      using True limit by (cases "sl_n s") auto
    ultimately show ?thesis by simp
  next
    case False
    then obtain m where n: "sl_n s = Suc m" by (cases "sl_n s") auto
    define l where "l = sl_levels s ! m"
    have l: "levels ! m = l" "m < length (sl_levels s)" "m < length levels"
      using Suc.prems(3,4) n by (simp_all add: l_def nth_append)
    have "level_ready (sl_agg s) l"
      using Suc.prems(1) n l by (simp add: loop_ready_def take_Suc_conv_app_nth l_def)
    then obtain r where r: "pl_uncross ddiv (sl_agg s) chk l = Ret r" and spec: "uncross_spec (sl_agg s) l r"
      using pl_uncross_spec [OF dd, of l "sl_agg s" chk] False
      by (auto simp: level_ready_def word_neq_0_conv)
    have cr: "crosses (sl_agg s) (pl_price (sl_levels s ! m))" "o_Remaining (sl_agg s) \<noteq> 0"
      using False n l same by (auto simp: l_def)
    note visit = uncrossLevels_visit [OF n cr(2,1) r [unfolded l_def], of fuel]
    have err: "ur_err r = None"
      using spec visit Suc.prems(5,6) by (auto simp: uncross_spec_def)
    have fake: "pl_fakeUncross ddiv (sl_agg s) chk (levels ! m) = Ret (ur_agg r, ur_trades r, None)"
      using pl_fakeUncross_eq [OF r disjI1 [OF err]] err l by simp
    have lim: "\<not> (o_Type agg \<noteq> OrderTypeMarket \<and> beyondLimit agg (pl_price (levels ! m)))"
      using False limit n by auto
    have unfold: "fakeUncrossLevels ddiv None agg chk levels (sl_n s) (sl_agg s) None st
      = gbind (fakeUncrossLevels ddiv None agg chk levels m (ur_agg r) None st)
          (\<lambda>(trades, err2, st''). Ret (ur_trades r @ trades, err2, st''))"
      using cr(2) lim fake by (auto simp: n uncrossOffbook_def)
    show ?thesis
    proof (cases "o_Remaining (ur_agg r) = 0")
      case True
      have "fakeUncrossLevels ddiv None agg chk levels m (ur_agg r) None st = Ret ([], None, st)"
        using True by (cases m) auto
      moreover have "sl_trades s' = sl_trades s @ ur_trades r"
        using visit err True Suc.prems(5) by (cases fuel) auto
      ultimately show ?thesis using unfold by simp
    next
      case rem: False
      then have empty: "pl_orders (ur_level r) = []" by (rule spec_exhausted [OF spec err])
      have only: "only_remaining (sl_agg s) (ur_agg r)" using spec by (simp add: uncross_spec_def)
      define s2 where "s2 = s\<lparr>sl_levels := (sl_levels s)[m := ur_level r], sl_agg := ur_agg r,
        sl_trades := sl_trades s @ ur_trades r, sl_impacted := sl_impacted s @ ur_impacted r, sl_err := None, sl_n := m\<rparr>"
      have "\<exists>ts. sl_trades s' = sl_trades s2 @ ts
        \<and> fakeUncrossLevels ddiv None agg chk levels (sl_n s2) (sl_agg s2) None st = Ret (ts, None, st)"
      proof (rule Suc.IH [where suf = "ur_level r # suf"])
        show "loop_ready sd s2" unfolding s2_def by (rule loop_ready_next [OF Suc.prems(1) n only])
        show "sl_levels s2 = take (sl_n s2) levels @ ur_level r # suf"
          using Suc.prems(3) l(3) n by (simp add: s2_def take_Suc_conv_app_nth list_update_append)
        show "only_remaining agg (sl_agg s2)" using only_remaining_trans [OF Suc.prems(2) only] by (simp add: s2_def)
        show "uncrossLevels fuel ddiv None chk s2 = Ret s'"
          using visit err empty Suc.prems(5) by (simp add: s2_def)
      qed (use l(3) Suc.prems(6) in \<open>simp_all add: s2_def\<close>)
      then show ?thesis using unfold by (auto simp: s2_def)
    qed
  qed
qed

text \<open>
  C7: the preview of an order is exact, for an order that is neither fill-or-kill nor a network
  order and whose real uncrossing meets no wash trade. The hypothetical uncrossing of a side, from
  which the fees and the price monitoring of an order are computed, then returns the very trades
  that the real uncrossing makes.
\<close>

theorem s_fakeUncross_agrees:
  assumes "decimal_div ddiv" and "side_ready agg s" and "o_Type agg \<noteq> OrderTypeNetwork"
    and "o_Side agg \<noteq> SideUnspecified" and "o_TimeInForce agg \<noteq> OrderTimeInForceFOK"
    and "s_uncross fuel ddiv None agg chk s st = Ret r" and "un_err r = None"
  shows "s_fakeUncross ddiv None agg chk s st = Ret (un_trades r, None, st)"
proof -
  from assms(6) obtain s' where s': "uncrossLevels fuel ddiv None chk (loop_start agg s st) = Ret s'" "r = outcome s s'"
    by (auto simp: s_uncross_plain [OF assms(5)] gbind_Ret_iff)
  have "\<exists>ts. sl_trades s' = sl_trades (loop_start agg s st) @ ts
      \<and> fakeUncrossLevels ddiv None agg chk (s_levels s) (sl_n (loop_start agg s st)) (sl_agg (loop_start agg s st)) None st
        = Ret (ts, None, st)"
    by (rule fake_run [OF assms(1,3,4) loop_ready_start [OF assms(2)] _ _ _ s'(1), where suf = "[]"])
      (use assms(7) s'(2) in \<open>simp_all add: loop_start_def outcome_def\<close>)
  then show ?thesis
    using s'(2) assms(5)
    by (simp add: s_fakeUncross_def uncrossOffbook_def uncrossFinished_def Let_def loop_start_def outcome_def)
qed

section \<open>Where the preview and the uncrossing differ\<close>

definition reservesOf :: "Order list \<Rightarrow> nat" where
  "reservesOf ords = sum_list (map reserveOf ords)"

lemma run_to_own:
  "uncross_run True agg vol i k (pre @ own # post) u \<Longrightarrow> o_Party own = o_Party agg \<Longrightarrow>
   \<forall>ord \<in> set pre. o_Party ord \<noteq> o_Party agg \<Longrightarrow> visibleOf pre < unat (o_Remaining agg) \<Longrightarrow>
   uo_err u = Some ErrWashTrade \<and> tradedVolume (uo_trades u) = visibleOf pre
     \<and> hiddenVolume (uo_icebergs u) = reservesOf pre"
proof (induction pre arbitrary: agg vol i k u)
  case Nil
  then show ?case by (auto simp: hiddenVolume_def reservesOf_def elim: uncross_run.cases)
next
  case (Cons ord pre)
  have nw: "o_Party ord \<noteq> o_Party agg" using Cons.prems(3) by simp
  from Cons.prems(1) show ?case
  proof (cases rule: uncross_run.cases)
    case (hidden x rest u')
    have "o_Remaining ord = 0" using hidden by (auto simp: hiddenOnly_def split: option.splits)
    thus ?thesis
      using hidden Cons.IH [of agg vol "Suc i" k u'] Cons.prems by (auto simp: hiddenVolume_def reservesOf_def)
  next
    case (step x sz tr rest u')
    have sub: "unat (o_Remaining agg - sz) = unat (o_Remaining agg) - unat sz"
      using step by (simp add: unat_sub)
    have "visibleOf pre < unat (o_Remaining agg) - unat sz" using step Cons.prems(4) by auto
    hence "uo_err u' = Some ErrWashTrade \<and> tradedVolume (uo_trades u') = visibleOf pre
        \<and> hiddenVolume (uo_icebergs u') = reservesOf pre"
      using Cons.IH [of "fill sz agg" "vol - sz" "Suc i" "Suc k" u'] Cons.prems(2,3) step sub by simp
    moreover have "reserveOf ord = 0" if "\<not> hasReserve ord"
      using that by (auto simp: reserveOf_def hasReserve_def unat_eq_zero word_gt_0 split: option.splits)
    moreover have "reserveOf (ord\<lparr>o_Remaining := 0\<rparr>) = reserveOf ord" by (simp add: reserveOf_def)
    ultimately show ?thesis using step by (auto simp: hiddenVolume_def reservesOf_def newTrade_size)
  qed (use Cons.prems(4) nw in \<open>auto simp: word_le_nat_alt\<close>)
qed

text \<open>
  C12: behind a wash trade the preview of a level and its uncrossing differ by the hidden volume. When
  an order meets an order of its own party after orders of other parties that show less than it asks
  for, both stop there with the error, but the real uncrossing then also takes the reserves of the
  icebergs ahead, as far as the order still needs them, and the preview does not.
\<close>

theorem preview_misses_hidden_volume:
  assumes "decimal_div ddiv" and "level_ready agg l" and "pl_orders l = pre @ own # post"
    and "o_Party own = o_Party agg" and "\<forall>ord \<in> set pre. o_Party ord \<noteq> o_Party agg"
    and "visibleOf pre < unat (o_Remaining agg)"
  shows "\<exists>r a ts. pl_uncross ddiv agg True l = Ret r \<and> ur_err r = Some ErrWashTrade
    \<and> tradedVolume (ur_trades r)
        = visibleOf pre + min (unat (o_Remaining agg) - visibleOf pre) (reservesOf pre)
    \<and> pl_fakeUncross ddiv agg True l = Ret (a, ts, Some ErrWashTrade) \<and> tradedVolume ts = visibleOf pre"
proof -
  have pos: "0 < o_Remaining agg" using assms(6) by (simp add: word_less_nat_alt)
  have lr: "level_inv l" "length (pl_orders l) < 2 * 10 ^ 16" "\<forall>ord \<in> set (pl_orders l). o_Side ord \<noteq> o_Side agg"
    using assms(2) by (auto simp: level_ready_def)
  obtain u where u: "uncrossOrders True agg (pl_volume l) 0 0 (pl_orders l) = Ret u"
    using uncrossOrders_returns [of "pl_orders l" agg True "pl_volume l" 0 0] lr(1,3) pos by (auto simp: level_inv_def)
  note run = uncrossOrders_run [OF u]
  have w: "uo_err u = Some ErrWashTrade" "tradedVolume (uo_trades u) = visibleOf pre"
    "hiddenVolume (uo_icebergs u) = reservesOf pre"
    using run_to_own [OF run [unfolded assms(3)] assms(4-6)] by auto
  have left: "unat (o_Remaining (uo_agg u)) = unat (o_Remaining agg) - visibleOf pre"
    using run_agg [OF run] w(2) by simp
  hence gt: "0 < o_Remaining (uo_agg u)" using assms(6) by (simp add: word_less_nat_alt)
  obtain f where f: "fakeUncrossOrders True agg 0 0 (pl_orders l) = Ret f" "fs_agg f = uo_agg u"
    "fs_trades f = uo_trades u" "fs_err f = uo_err u"
    using fakeUncrossOrders_run [OF run] by blast
  have fake: "pl_fakeUncross ddiv agg True l = Ret (uo_agg u, uo_trades u, Some ErrWashTrade)"
    using f w(1) assms(3) by (simp add: pl_fakeUncross_def)
  obtain r where r: "pl_uncross ddiv agg True l = Ret r" "uncross_spec agg l r"
    using pl_uncross_spec [OF assms(1) lr pos] by blast
  have "ur_err r = Some ErrWashTrade \<and> tradedVolume (ur_trades r)
        = visibleOf pre + min (unat (o_Remaining agg) - visibleOf pre) (reservesOf pre)"
  proof (cases "uo_icebergs u = []")
    case True
    hence "reservesOf pre = 0" using w(3) by (simp add: hiddenVolume_def)
    thus ?thesis using r(1) u True w assms(3) by (auto simp: pl_uncross_def)
  next
    case False
    note tracked = run_tracked [OF run]
    have hv: "0 < hiddenVolume (uo_icebergs u)" "hiddenVolume (uo_icebergs u) \<le> volumeOf (uo_orders u)"
      using hiddenVolume_pos [OF tracked False] hiddenVolume_le [OF tracked] by auto
    obtain s and es :: "uint64 list" where s: "uncrossIcebergs ddiv (uo_agg u) (uo_icebergs u) False (uo_volume u) (uo_trades u) = Ret s"
      "sum_list (map unat es) = min (unat (o_Remaining (uo_agg u))) (hiddenVolume (uo_icebergs u))"
      "tradedVolume (is_trades s @ is_newTrades s) = tradedVolume (uo_trades u) + sum_list (map unat es)"
    proof (rule uncrossIcebergs_spec [OF assms(1) hv(1) _ _ run_tracked_orders(1) [OF run lr(3)], of False "uo_volume u"])
      show "hiddenVolume (uo_icebergs u) < 2 ^ 63" using hv(2) run_orders [OF run] lr(1) by (simp add: level_inv_def)
      show "length (uo_icebergs u) < 2 * 10 ^ 16" using tracked_length [OF tracked] run_length [OF run] lr(2) by simp
      show "tradedVolume (uo_trades u) + unat (o_Remaining (uo_agg u)) < 2 ^ 64"
        using run_agg [OF run] unat64_less [of "o_Remaining agg"] by simp
    qed (rule that, assumption+)
    thus ?thesis using r(1) u False gt w left assms(3) by (auto simp: pl_uncross_def Let_def)
  qed
  thus ?thesis using r(1) fake w(2) by blast
qed

section \<open>Witnesses\<close>

definition sell_side :: OrderBookSide where
  "sell_side = \<lparr>s_side = SideSell, s_levels = [sell_level]\<rparr>"

lemma sell_side_simps [simp]: "s_side sell_side = SideSell" "s_levels sell_side = [sell_level]"
  by (simp_all add: sell_side_def)

lemma level_ready_sell_level: "o_Side agg = SideBuy \<Longrightarrow> level_ready agg sell_level"
  using level_inv_sell_level by (simp add: level_ready_def level_example_defs)

lemma side_ready_sell_side: "o_Side agg = SideBuy \<Longrightarrow> side_ready agg sell_side"
  by (simp add: side_ready_def level_ready_sell_level)

lemma levels_ok_sell_side: "levels_ok SideSell [sell_level]"
  by (simp add: levels_ok_def level_example_defs)

theorem RemoveOrder_addOrder_witness:
  "RemoveOrder (sell_plain\<lparr>o_ID := ''d'', o_Price := 99\<rparr>) (s_addOrder (sell_plain\<lparr>o_ID := ''d'', o_Price := 99\<rparr>) sell_side)
    = Ret (Inr (sell_plain\<lparr>o_ID := ''d'', o_Price := 99\<rparr>), sell_side)"
  by (rule RemoveOrder_addOrder) (simp_all add: levels_ok_sell_side level_example_defs)

theorem addOrders_queue_witness:
  "queueAt 100 (fold s_addOrder [sell_plain\<lparr>o_ID := ''d''\<rparr>, sell_plain\<lparr>o_ID := ''e'', o_Price := 99\<rparr>] sell_side)
      = queueAt 100 sell_side
        @ filter (\<lambda>ord. o_Price ord = 100) [sell_plain\<lparr>o_ID := ''d''\<rparr>, sell_plain\<lparr>o_ID := ''e'', o_Price := 99\<rparr>]
    \<and> levels_ok (s_side sell_side)
        (s_levels (fold s_addOrder [sell_plain\<lparr>o_ID := ''d''\<rparr>, sell_plain\<lparr>o_ID := ''e'', o_Price := 99\<rparr>] sell_side))"
  by (rule addOrders_queue) (simp_all add: levels_ok_sell_side level_example_defs)

theorem s_uncross_sound_witness:
  "\<exists>r. s_uncross 2 dec_round None buy_aggressor True sell_side () = Ret r
    \<and> kept_levels buy_aggressor (s_levels sell_side) (s_levels (un_side r))
    \<and> unat (o_Remaining (un_agg r)) + tradedVolume (un_trades r) = unat (o_Remaining buy_aggressor)
    \<and> sideVolume (s_levels (un_side r)) + tradedVolume (un_trades r) = sideVolume (s_levels sell_side)
    \<and> at_prices {p \<in> pl_price ` set (s_levels sell_side). crosses buy_aggressor p} (un_trades r)
    \<and> best_first (s_side sell_side) (un_trades r)
    \<and> (un_err r = None \<longrightarrow> o_Remaining (un_agg r) = 0 \<or> s_levels (un_side r) = []
         \<or> \<not> crosses buy_aggressor (pl_price (last (s_levels (un_side r)))))"
  by (rule s_uncross_sound [OF decimal_div_dec_round side_ready_sell_side])
    (simp_all add: level_example_defs)

theorem s_uncross_fok_witness:
  "\<exists>r. s_uncross 2 dec_round None (buy_aggressor\<lparr>o_TimeInForce := OrderTimeInForceFOK\<rparr>) True sell_side () = Ret r
    \<and> (un_err r = None \<and> o_Remaining (un_agg r) = 0
         \<and> tradedVolume (un_trades r) = unat (o_Remaining (buy_aggressor\<lparr>o_TimeInForce := OrderTimeInForceFOK\<rparr>))
       \<or> un_side r = sell_side \<and> un_trades r = [] \<and> un_impacted r = []
         \<and> o_Remaining (un_agg r) = o_Remaining (buy_aggressor\<lparr>o_TimeInForce := OrderTimeInForceFOK\<rparr>))"
  by (rule s_uncross_fok_all_or_nothing [OF decimal_div_dec_round side_ready_sell_side])
    (simp_all add: level_example_defs)

theorem s_fakeUncross_agrees_witness:
  "s_fakeUncross dec_round None (sell_plain\<lparr>o_Side := SideBuy, o_Party := ''p3'', o_Remaining := 2, o_Size := 2\<rparr>) True sell_side ()
    = Ret ([setTradeOrders (sell_plain\<lparr>o_Side := SideBuy, o_Party := ''p3'', o_Remaining := 2, o_Size := 2\<rparr>) sell_plain
          \<lparr>t_ID = [], t_MarketID = [], t_Price = 100, t_MarketPrice = 0, t_Size = 2, t_Buyer = ''p3'',
           t_Seller = ''p1'', t_Aggressor = SideBuy, t_BuyOrder = [], t_SellOrder = [], t_Timestamp = 0,
           t_Type = TradeTypeDefault, t_BuyerAuctionBatch = 0, t_SellerAuctionBatch = 0\<rparr>], None, ())"
  using s_fakeUncross_agrees [OF decimal_div_dec_round side_ready_sell_side,
      of "sell_plain\<lparr>o_Side := SideBuy, o_Party := ''p3'', o_Remaining := 2, o_Size := 2\<rparr>" "Suc (Suc 0)" True "()"]
  by (simp add: s_uncross_plain gbind_Ret_iff loop_start_def outcome_def pl_uncross_def getVolumeAllocation_def min64_def
      newTrade_def Let_def TrueRemaining_def hasReserve_def level_example_defs checkLimit_def)

theorem preview_misses_hidden_volume_witness:
  "\<exists>r a ts. pl_uncross dec_round buy_aggressor True
        (sell_level\<lparr>pl_orders := [sell_iceberg, sell_plain\<lparr>o_Party := ''p3''\<rparr>]\<rparr>) = Ret r
    \<and> ur_err r = Some ErrWashTrade \<and> tradedVolume (ur_trades r) = 9
    \<and> pl_fakeUncross dec_round buy_aggressor True
        (sell_level\<lparr>pl_orders := [sell_iceberg, sell_plain\<lparr>o_Party := ''p3''\<rparr>]\<rparr>) = Ret (a, ts, Some ErrWashTrade)
    \<and> tradedVolume ts = 2"
proof -
  let ?l = "sell_level\<lparr>pl_orders := [sell_iceberg, sell_plain\<lparr>o_Party := ''p3''\<rparr>]\<rparr>"
  have "level_ready buy_aggressor ?l"
    by (simp add: level_ready_def level_inv_def trueRem_def reserveOf_def level_example_defs)
  thus ?thesis
    using preview_misses_hidden_volume [OF decimal_div_dec_round, of buy_aggressor ?l "[sell_iceberg]"
        "sell_plain\<lparr>o_Party := ''p3''\<rparr>" "[]"]
    by (simp add: reservesOf_def reserveOf_def level_example_defs)
qed

end
