(* ===== verification/Indicative_Props.thy ===== *)
theory Indicative_Props
  imports Indicative Book_Side_Uncross
begin

text \<open>
  Reference definitions for the cumulative volumes of an auction, the correctness of the two-ended
  loop against them, and the order and lookup laws of the sorted volume levels.
\<close>

section \<open>The cumulative volumes, defined level by level\<close>

definition bidAt :: "ipvPriceLevel \<Rightarrow> uint64" where
  "bidAt l = iv_volume (ip_buypl l)"

definition askAt :: "ipvPriceLevel \<Rightarrow> uint64" where
  "askAt l = iv_volume (ip_sellpl l)"

definition bidOffbookAt :: "ipvPriceLevel \<Rightarrow> uint64" where
  "bidOffbookAt l = (if bidAt l > 0 then iv_offbookVolume (ip_buypl l) else 0)"

definition askOffbookAt :: "ipvPriceLevel \<Rightarrow> uint64" where
  "askOffbookAt l = (if askAt l > 0 then iv_offbookVolume (ip_sellpl l) else 0)"

definition downTo :: "('l \<Rightarrow> uint64) \<Rightarrow> 'l list \<Rightarrow> nat \<Rightarrow> uint64" where
  "downTo f R k = sum_list (map f (take k R))"

definition upFrom :: "('l \<Rightarrow> uint64) \<Rightarrow> 'l list \<Rightarrow> nat \<Rightarrow> uint64" where
  "upFrom f R k = sum_list (map f (drop k R))"

definition tradableAt :: "ipvPriceLevel list \<Rightarrow> nat \<Rightarrow> uint64" where
  "tradableAt R k = min64 (upFrom askAt R k) (downTo bidAt R (Suc k))"

definition cumulativeAt :: "ipvPriceLevel list \<Rightarrow> nat \<Rightarrow> CumulativeVolumeLevel" where
  "cumulativeAt R k =
     \<lparr>cv_price = ip_price (R ! k), cv_bidVolume = bidAt (R ! k), cv_askVolume = askAt (R ! k),
      cv_cumulativeBidVolume = downTo bidAt R (Suc k), cv_cumulativeAskVolume = upFrom askAt R k,
      cv_maxTradableAmount = tradableAt R k,
      cv_cumulativeBidOffbook = downTo bidOffbookAt R (Suc k),
      cv_cumulativeAskOffbook = upFrom askOffbookAt R k\<rparr>"

definition cumulativeLevels :: "ipvPriceLevel list \<Rightarrow> CumulativeVolumeLevel list" where
  "cumulativeLevels R = map (cumulativeAt R) [0..<length R]"

definition maxTradableOf :: "ipvPriceLevel list \<Rightarrow> uint64" where
  "maxTradableOf R = Max (insert 0 (tradableAt R ` {0..<length R}))"

lemma downTo_0 [simp]: "downTo f R 0 = 0"
  by (simp add: downTo_def)

lemma downTo_Suc: "k < length R \<Longrightarrow> downTo f R (Suc k) = downTo f R k + f (R ! k)"
  by (simp add: downTo_def take_Suc_conv_app_nth)

lemma upFrom_length [simp]: "upFrom f R (length R) = 0"
  by (simp add: upFrom_def)

lemma upFrom_step: "k < length R \<Longrightarrow> upFrom f R k = upFrom f R (Suc k) + f (R ! k)"
  by (simp add: upFrom_def Cons_nth_drop_Suc [symmetric] add.commute)

section \<open>The two-ended loop\<close>

lemma length_upd_nth [simp]: "length (upd_nth i f xs) = length xs"
  by (simp add: upd_nth_def)

lemma nth_upd_nth [simp]:
  "k < length xs \<Longrightarrow> upd_nth i f xs ! k = (if k = i then f (xs ! k) else xs ! k)"
  by (auto simp: upd_nth_def nth_list_update)

text \<open>What holds of an entry of the buffer after \<open>J\<close> iterations.\<close>

definition entry_ok :: "ipvPriceLevel list \<Rightarrow> nat \<Rightarrow> nat \<Rightarrow> CumulativeVolumeLevel \<Rightarrow> bool" where
  "entry_ok R J k v \<longleftrightarrow>
     (k < J \<longrightarrow> cv_bidVolume v = bidAt (R ! k)
        \<and> cv_cumulativeBidVolume v = downTo bidAt R (Suc k)
        \<and> cv_cumulativeBidOffbook v = downTo bidOffbookAt R (Suc k)) \<and>
     (length R \<le> k + J \<longrightarrow> cv_price v = ip_price (R ! k) \<and> cv_askVolume v = askAt (R ! k)
        \<and> cv_cumulativeAskVolume v = upFrom askAt R k
        \<and> cv_cumulativeAskOffbook v = upFrom askOffbookAt R k) \<and>
     (length R \<le> k + J \<and> J \<le> k \<longrightarrow> cv_cumulativeBidVolume v = 0) \<and>
     (k < J \<and> k + J < length R \<longrightarrow> cv_cumulativeAskVolume v = 0) \<and>
     (k < J \<and> length R \<le> k + J \<longrightarrow> cv_maxTradableAmount v = tradableAt R k)"

definition totals_ok :: "ipvPriceLevel list \<Rightarrow> nat \<Rightarrow> cumulation \<Rightarrow> bool" where
  "totals_ok R J c \<longleftrightarrow>
     cu_buy c = downTo bidAt R J \<and> cu_offbookBuy c = downTo bidOffbookAt R J
     \<and> cu_sell c = upFrom askAt R (length R - J)
     \<and> cu_offbookSell c = upFrom askOffbookAt R (length R - J)"

definition filled :: "nat \<Rightarrow> nat \<Rightarrow> nat set" where
  "filled n J = {k. k < J \<and> n \<le> k + J \<and> k < n}"

definition cumulate_inv :: "ipvPriceLevel list \<Rightarrow> nat \<Rightarrow> cumulation \<Rightarrow> bool" where
  "cumulate_inv R J c \<longleftrightarrow>
     length (cu_vols c) = length R \<and> totals_ok R J c
     \<and> (\<forall>k < length R. entry_ok R J k (cu_vols c ! k))
     \<and> cu_maxTradable c = Max (insert 0 (tradableAt R ` filled (length R) J))"

lemma word_pos: "(x :: uint64) > 0 \<longleftrightarrow> x \<noteq> 0"
  by (simp add: word_gt_0)

lemmas at_defs = bidAt_def askAt_def bidOffbookAt_def askOffbookAt_def

lemma step_totals:
  assumes n: "length R = Suc (i + J)" and "totals_ok R J c"
  shows "totals_ok R (Suc J) (cumulateStep R i c)"
proof -
  have "J < length R" "i < length R" using n by auto
  note steps = downTo_Suc [OF this(1)] upFrom_step [OF this(2)]
  show ?thesis
    using assms(2)
    by (simp add: totals_ok_def cumulateStep_def Let_def n case_prod_unfold word_pos steps at_defs)
qed

lemma step_length [simp]: "length (cu_vols (cumulateStep R i c)) = length (cu_vols c)"
  by (simp add: cumulateStep_def Let_def)

text \<open>One iteration, field by field; the running totals are the new ones.\<close>

lemma step_fields:
  assumes n: "length R = Suc (i + J)" and len: "length (cu_vols c) = length R" and k: "k < length R"
  defines "c' \<equiv> cumulateStep R i c" and "v \<equiv> cu_vols (cumulateStep R i c) ! k"
    and "w \<equiv> cu_vols c ! k"
  shows "cv_price v = (if k = i then ip_price (R ! i) else cv_price w)"
    and "cv_bidVolume v = (if k = J then bidAt (R ! J) else cv_bidVolume w)"
    and "cv_askVolume v = (if k = i then askAt (R ! i) else cv_askVolume w)"
    and "cv_cumulativeBidOffbook v = (if k = J then cu_offbookBuy c' else cv_cumulativeBidOffbook w)"
    and "cv_cumulativeAskOffbook v = (if k = i then cu_offbookSell c' else cv_cumulativeAskOffbook w)"
    and "cv_cumulativeBidVolume v =
      (if k = J then cu_buy c' else if k = i \<and> J < i then 0 else cv_cumulativeBidVolume w)"
    and "cv_cumulativeAskVolume v =
      (if k = i then cu_sell c' else if k = J \<and> J < i then 0 else cv_cumulativeAskVolume w)"
  using k unfolding c'_def v_def w_def
  by (simp_all add: cumulateStep_def Let_def n len [unfolded n] bidAt_def askAt_def word_pos)

lemma step_tradable:
  assumes "length R = Suc (i + J)" and "length (cu_vols c) = Suc (i + J)"
    and "(i + J) div 2 \<le> J" and "k = i \<or> k = J"
  defines "v \<equiv> cu_vols (cumulateStep R i c) ! k"
  shows "cv_maxTradableAmount v = min64 (cv_cumulativeAskVolume v) (cv_cumulativeBidVolume v)"
  using assms(4) unfolding v_def by (auto simp: assms(1-3) cumulateStep_def Let_def)

lemma step_other:
  assumes "length R = Suc (i + J)" "k < length (cu_vols c)" "k \<noteq> i" "k \<noteq> J"
  shows "cu_vols (cumulateStep R i c) ! k = cu_vols c ! k"
  using assms by (simp add: cumulateStep_def Let_def)

lemma step_entries:
  assumes n: "length R = Suc (i + J)" and inv: "cumulate_inv R J c" and k: "k < length R"
  shows "entry_ok R (Suc J) k (cu_vols (cumulateStep R i c) ! k)"
proof -
  have len: "length (cu_vols c) = length R" and e: "entry_ok R J k (cu_vols c ! k)"
    and "totals_ok R J c"
    using inv k by (auto simp: cumulate_inv_def)
  note t = step_totals [OF n this(3)]
  show ?thesis
  proof (cases "k = i \<or> k = J")
    case True
    have "i \<le> J \<Longrightarrow> (i + J) div 2 \<le> J" by simp
    hence "i \<le> J \<Longrightarrow> cv_maxTradableAmount (cu_vols (cumulateStep R i c) ! k) =
        min64 (cv_cumulativeAskVolume (cu_vols (cumulateStep R i c) ! k))
          (cv_cumulativeBidVolume (cu_vols (cumulateStep R i c) ! k))"
      using step_tradable [OF n len [unfolded n] _ True] by blast
    thus ?thesis
      using True e t n by (auto simp: entry_ok_def totals_ok_def step_fields [OF n len k] tradableAt_def)
  next
    case False
    thus ?thesis using step_other [OF n, of k c] e k len n by (auto simp: entry_ok_def)
  qed
qed

lemma finite_filled [simp]: "finite (filled n J)"
  by (simp add: filled_def)

lemma filled_step:
  assumes "n = Suc (i + J)"
  shows "filled n (Suc J) = (if i \<le> J then insert i (insert J (filled n J)) else {})"
  using assms by (auto simp: filled_def)

lemma Max_insert2:
  "finite A \<Longrightarrow> Max (insert (0 :: uint64) (insert x (insert y A))) = max64 (Max (insert 0 A)) (max64 x y)"
proof -
  assume "finite A"
  hence "Max (insert x (insert y (insert 0 A))) = max x (max y (Max (insert 0 A)))"
    by simp
  thus ?thesis
    by (auto simp: insert_commute max64_def max_def)
qed

lemma step_max:
  assumes n: "length R = Suc (i + J)" and inv: "cumulate_inv R J c"
  shows "cu_maxTradable (cumulateStep R i c) =
    Max (insert 0 (tradableAt R ` filled (length R) (Suc J)))"
proof -
  let ?vs = "cu_vols (cumulateStep R i c)"
  have e: "entry_ok R (Suc J) k (?vs ! k)" if "k = i \<or> k = J" for k
    using step_entries [OF n inv, of k] that n by auto
  have len: "length (cu_vols c) = Suc (i + J)"
    and old: "cu_maxTradable c = Max (insert 0 (tradableAt R ` filled (length R) J))"
    using inv n by (auto simp: cumulate_inv_def)
  have mx: "cu_maxTradable (cumulateStep R i c) =
      (if (i + J) div 2 \<le> J
       then max64 (cu_maxTradable c)
              (max64 (cv_maxTradableAmount (?vs ! i)) (cv_maxTradableAmount (?vs ! J)))
       else cu_maxTradable c)"
    by (simp add: cumulateStep_def Let_def n)
  show ?thesis
  proof (cases "i \<le> J")
    case True
    have "cv_maxTradableAmount (?vs ! k) = tradableAt R k" if "k = i \<or> k = J" for k
      using e [of k] that True n by (auto simp: entry_ok_def)
    moreover have "(i + J) div 2 \<le> J" using True by simp
    ultimately have "cu_maxTradable (cumulateStep R i c) =
        max64 (Max (insert 0 (tradableAt R ` filled (length R) J))) (max64 (tradableAt R i) (tradableAt R J))"
      by (simp add: mx old)
    thus ?thesis
      using True by (simp only: filled_step [OF n] if_True image_insert Max_insert2 finite_imageI finite_filled)
  next
    case False
    have none: "filled (length R) J = {}"
      using False n by (auto simp: filled_def)
    have "cv_cumulativeBidVolume (?vs ! i) = 0" "cv_cumulativeAskVolume (?vs ! J) = 0"
      using e [of i] e [of J] False n by (auto simp: entry_ok_def)
    hence "(i + J) div 2 \<le> J \<Longrightarrow> cv_maxTradableAmount (?vs ! i) = 0 \<and> cv_maxTradableAmount (?vs ! J) = 0"
      using step_tradable [OF n len] by simp
    thus ?thesis
      using False by (simp add: mx old none filled_step [OF n] max64_def)
  qed
qed

lemma step_inv:
  assumes "length R = Suc (i + J)" and "cumulate_inv R J c"
  shows "cumulate_inv R (Suc J) (cumulateStep R i c)"
  using assms(2) step_totals [OF assms(1), of c] step_entries [OF assms] step_max [OF assms]
  by (simp add: cumulate_inv_def)

lemma fold_inv_down:
  "i + J = length R \<Longrightarrow> cumulate_inv R J c \<Longrightarrow>
   cumulate_inv R (length R) (fold (cumulateStep R) (rev [0..<i]) c)"
proof (induction i arbitrary: J c)
  case (Suc i)
  have "cumulate_inv R (Suc J) (cumulateStep R i c)"
    using step_inv [of R i J c] Suc.prems by simp
  from Suc.IH [OF _ this] show ?case using Suc.prems by simp
qed simp

lemma cumulate_start:
  "length buf = length R \<Longrightarrow>
   cumulate_inv R 0 \<lparr>cu_vols = buf, cu_sell = 0, cu_buy = 0, cu_maxTradable = 0, cu_offbookSell = 0,
     cu_offbookBuy = 0\<rparr>"
  by (simp add: cumulate_inv_def totals_ok_def entry_ok_def filled_def)

lemma entry_complete:
  "k < length R \<Longrightarrow> entry_ok R (length R) k v \<Longrightarrow> v = cumulativeAt R k"
  by (cases v) (simp add: entry_ok_def cumulativeAt_def)

lemma cumulate_correct:
  assumes "length buf = length R"
  shows "cu_vols (cumulate R buf) = cumulativeLevels R"
    and "cu_maxTradable (cumulate R buf) = maxTradableOf R"
proof -
  have inv: "cumulate_inv R (length R) (cumulate R buf)"
    unfolding cumulate_def by (rule fold_inv_down [OF _ cumulate_start [OF assms]]) simp
  have "cu_vols (cumulate R buf) ! k = cumulativeAt R k" if "k < length R" for k
    using inv that by (intro entry_complete) (simp_all add: cumulate_inv_def)
  thus "cu_vols (cumulate R buf) = cumulativeLevels R"
    using inv by (intro nth_equalityI) (simp_all add: cumulativeLevels_def cumulate_inv_def)
  have "filled (length R) (length R) = {0..<length R}"
    by (auto simp: filled_def)
  thus "cu_maxTradable (cumulate R buf) = maxTradableOf R"
    using inv by (simp add: cumulate_inv_def maxTradableOf_def)
qed

section \<open>The volumes as a store keyed by price\<close>

text \<open>The levels are sorted by descending price.\<close>

interpretation ipv_order: priced ip_price "\<lambda>p q. q < p"
  by unfold_locales auto

definition ipv_sorted :: "IndicativePriceAndVolume \<Rightarrow> bool" where
  "ipv_sorted ipv \<longleftrightarrow> sorted_wrt (\<lambda>p q. q < p) (map ip_price (iv_levels ipv))"

definition levelAt :: "Uint \<Rightarrow> IndicativePriceAndVolume \<Rightarrow> ipvPriceLevel" where
  "levelAt p ipv = (case lookup_by ip_price (iv_levels ipv) p of None \<Rightarrow> new_ipvLevel p | Some l \<Rightarrow> l)"

lemma searchIpv_before:
  "searchIpv p xs = sort_Search (length xs) (\<lambda>i. \<not> p < ip_price (xs ! i))"
  by (simp add: searchIpv_def not_less)

lemma ip_price_increment [simp]: "ip_price (incrementLevelVolume v sd off l) = ip_price l"
  by (simp add: incrementLevelVolume_def split: Side.splits)

lemma ip_price_decrement [simp]: "ip_price (decrementLevelVolume v sd off l) = ip_price l"
  by (simp add: decrementLevelVolume_def split: Side.splits)

lemma ip_price_new [simp]: "ip_price (new_ipvLevel p) = p"
  by (simp add: new_ipvLevel_def)

lemma decrement_increment [simp]:
  "decrementLevelVolume v sd off (incrementLevelVolume v sd off l) = l"
  by (simp add: decrementLevelVolume_def incrementLevelVolume_def decVolume_def incVolume_def
      split: Side.splits)

text \<open>Searching a sorted list of levels: either the level is there, or its place is found.\<close>

lemma searchIpv_found:
  assumes "ipv_sorted ipv"
  shows "searchIpv p (iv_levels ipv) < length (iv_levels ipv)
      \<and> ip_price (iv_levels ipv ! searchIpv p (iv_levels ipv)) = p
    \<longleftrightarrow> p \<in> ip_price ` set (iv_levels ipv)"
  using ipv_order.search_found_iff [OF assms [unfolded ipv_sorted_def], of p]
  by (simp add: searchIpv_before)

lemma levelAt_found:
  assumes "ipv_sorted ipv" and "i < length (iv_levels ipv)" and "ip_price (iv_levels ipv ! i) = p"
  shows "levelAt p ipv = iv_levels ipv ! i"
  using lookup_by_Some [OF ipv_order.sorted_distinct [OF assms(1) [unfolded ipv_sorted_def]], of p "iv_levels ipv ! i"]
    assms(2,3) by (simp add: levelAt_def)

lemma levelAt_missing: "p \<notin> ip_price ` set (iv_levels ipv) \<Longrightarrow> levelAt p ipv = new_ipvLevel p"
  using lookup_by_None [of ip_price "iv_levels ipv" p] by (simp add: levelAt_def)

lemma AddVolume_lookup:
  assumes s: "ipv_sorted ipv"
  shows "ipv_sorted (AddVolumeAtPrice p v sd off ipv)"
    and "lookup_by ip_price (iv_levels (AddVolumeAtPrice p v sd off ipv)) =
      (lookup_by ip_price (iv_levels ipv))(p \<mapsto> incrementLevelVolume v sd off (levelAt p ipv))"
proof -
  let ?L = "iv_levels ipv" let ?i = "searchIpv p ?L"
  note s' = s [unfolded ipv_sorted_def]
  have "ipv_sorted (AddVolumeAtPrice p v sd off ipv) \<and>
    lookup_by ip_price (iv_levels (AddVolumeAtPrice p v sd off ipv)) =
      (lookup_by ip_price ?L)(p \<mapsto> incrementLevelVolume v sd off (levelAt p ipv))"
  proof (cases "?i < length ?L \<and> ip_price (?L ! ?i) = p")
    case True
    thus ?thesis
      using ipv_order.lookup_update [OF s', of ?i "incrementLevelVolume v sd off (?L ! ?i)"]
        levelAt_found [OF s, of ?i p]
      by (simp add: AddVolumeAtPrice_def Let_def ipv_sorted_def)
  next
    case False
    hence out: "p \<notin> ip_price ` set ?L" using searchIpv_found [OF s] by simp
    let ?y = "incrementLevelVolume v sd off (new_ipvLevel p)"
    have "sorted_wrt (\<lambda>p q. q < p) (map ip_price (insert_nth ?i ?y ?L))"
      "lookup_by ip_price (insert_nth ?i ?y ?L) = (lookup_by ip_price ?L)(p \<mapsto> ?y)"
      using ipv_order.search_insert [OF s', of ?y] ipv_order.lookup_insert [OF s', of ?y] out
      by (simp_all add: searchIpv_before)
    thus ?thesis
      using False levelAt_missing [OF out] by (auto simp: AddVolumeAtPrice_def Let_def ipv_sorted_def)
  qed
  thus "ipv_sorted (AddVolumeAtPrice p v sd off ipv)"
    and "lookup_by ip_price (iv_levels (AddVolumeAtPrice p v sd off ipv)) =
      (lookup_by ip_price ?L)(p \<mapsto> incrementLevelVolume v sd off (levelAt p ipv))"
    by auto
qed

lemma levelAt_AddVolume:
  "ipv_sorted ipv \<Longrightarrow> levelAt q (AddVolumeAtPrice p v sd off ipv) =
     (if q = p then incrementLevelVolume v sd off (levelAt q ipv) else levelAt q ipv)"
  by (simp add: levelAt_def [of _ "AddVolumeAtPrice p v sd off ipv"] AddVolume_lookup(2))
    (simp add: levelAt_def)

text \<open>An addition of volume, as the arguments of one call.\<close>

type_synonym addition = "Uint \<times> uint64 \<times> Side \<times> bool"

definition applyAdd :: "addition \<Rightarrow> IndicativePriceAndVolume \<Rightarrow> IndicativePriceAndVolume" where
  "applyAdd a ipv = (case a of (p, v, sd, off) \<Rightarrow> AddVolumeAtPrice p v sd off ipv)"

interpretation ipv_store: keyed_store ipv_sorted "\<lambda>a ipv. True" levelAt applyAdd fst
  "\<lambda>(p, v, sd, off). incrementLevelVolume v sd off"
  by unfold_locales (auto simp: applyAdd_def AddVolume_lookup(1) levelAt_AddVolume)

lemma RemoveVolume_lookup:
  assumes s: "ipv_sorted ipv"
  shows "p \<notin> ip_price ` set (iv_levels ipv) \<Longrightarrow>
      RemoveVolumeAtPrice p v sd off ipv = Panic ''cannot remove volume from a non-existing level''"
    and "p \<in> ip_price ` set (iv_levels ipv) \<Longrightarrow>
      \<exists>ipv'. RemoveVolumeAtPrice p v sd off ipv = Ret ipv' \<and> ipv_sorted ipv'
        \<and> lookup_by ip_price (iv_levels ipv') =
          (lookup_by ip_price (iv_levels ipv))(p \<mapsto> decrementLevelVolume v sd off (levelAt p ipv))"
proof -
  let ?L = "iv_levels ipv" let ?i = "searchIpv p ?L"
  note f = searchIpv_found [OF s, of p]
  show "p \<notin> ip_price ` set ?L \<Longrightarrow>
      RemoveVolumeAtPrice p v sd off ipv = Panic ''cannot remove volume from a non-existing level''"
    using f by (auto simp: RemoveVolumeAtPrice_def Let_def)
  assume "p \<in> ip_price ` set ?L"
  hence i: "?i < length ?L" "ip_price (?L ! ?i) = p" using f by auto
  show "\<exists>ipv'. RemoveVolumeAtPrice p v sd off ipv = Ret ipv' \<and> ipv_sorted ipv'
        \<and> lookup_by ip_price (iv_levels ipv') =
          (lookup_by ip_price ?L)(p \<mapsto> decrementLevelVolume v sd off (levelAt p ipv))"
    using ipv_order.lookup_update [OF s [unfolded ipv_sorted_def] i(1),
        of "decrementLevelVolume v sd off (?L ! ?i)"] i levelAt_found [OF s i]
    by (auto simp: RemoveVolumeAtPrice_def Let_def ipv_sorted_def)
qed

end
