(* ===== verification/Indicative_Cache.thy ===== *)
theory Indicative_Cache
  imports Indicative_Props
begin

text \<open>
  The indicative price and volume over its life: the levels it starts with are those of the book,
  every query returns the cumulative volumes of the levels as they are then, although the code
  answers from a cache and writes into a reused buffer.
\<close>

section \<open>The levels at the start\<close>

definition map_ok :: "levelMap \<Rightarrow> bool" where
  "map_ok m \<longleftrightarrow> distinct (map fst m) \<and> (\<forall>(k, l) \<in> set m. ip_price l = k)"

lemma map_ok_put [inv_intros]: "map_ok m \<Longrightarrow> ip_price l = k \<Longrightarrow> map_ok (assoc_put k l m)"
  using set_assoc_put [of k l m] by (auto simp: map_ok_def distinct_assoc_put)

lemma map_ok_look: "map_ok m \<Longrightarrow> map_of m p = Some l \<Longrightarrow> ip_price l = p"
  by (auto simp: map_ok_def dest: map_of_SomeD)

lemma map_ok_fold_buy: "map_ok m \<Longrightarrow> map_ok (fold putBuyLevel ls m)"
  by (induction ls arbitrary: m) (simp_all add: putBuyLevel_def map_ok_put)

lemma map_ok_fold_sell: "map_ok m \<Longrightarrow> map_ok (fold putSellLevel ls m)"
proof (induction ls arbitrary: m)
  case (Cons l ls)
  have "map_ok (putSellLevel l m)"
    using Cons.prems
    by (auto simp: putSellLevel_def Let_def new_ipvLevel_def map_ok_look intro!: map_ok_put split: option.splits)
  thus ?case using Cons.IH by simp
qed simp

lemma lookup_by_Cons [simp]: "lookup_by key (x # xs) p = (if key x = p then Some x else lookup_by key xs p)"
  by (simp add: lookup_by_def)

lemma lookup_by_perm:
  "distinct (map key xs) \<Longrightarrow> distinct (map key ys) \<Longrightarrow> set xs = set ys \<Longrightarrow> lookup_by key xs = lookup_by key ys"
proof
  fix p assume a: "distinct (map key xs)" "distinct (map key ys)" "set xs = set ys"
  have "lookup_by key xs p = Some x \<longleftrightarrow> lookup_by key ys p = Some x" for x
    by (simp add: lookup_by_Some a)
  thus "lookup_by key xs p = lookup_by key ys p" by (metis option.exhaust)
qed

definition plainVolume :: "uint64 \<Rightarrow> ipvVolume" where
  "plainVolume v = \<lparr>iv_volume = v, iv_offbookVolume = 0\<rparr>"

lemma look_fold_buy:
  "distinct (map pl_price ls) \<Longrightarrow> map_of (fold putBuyLevel ls m) p =
     (case lookup_by pl_price ls p of
        None \<Rightarrow> map_of m p
      | Some l \<Rightarrow> Some ((new_ipvLevel p)\<lparr>ip_buypl := plainVolume (pl_volume l)\<rparr>))"
proof (induction ls arbitrary: m)
  case (Cons l ls)
  have "lookup_by pl_price ls (pl_price l) = None"
    using Cons.prems by (simp add: lookup_by_None)
  thus ?case using Cons by (auto simp: putBuyLevel_def plainVolume_def split: option.splits)
qed (simp add: lookup_by_def)

lemma look_fold_sell:
  "distinct (map pl_price ls) \<Longrightarrow> map_of (fold putSellLevel ls m) p =
     (case lookup_by pl_price ls p of
        None \<Rightarrow> map_of m p
      | Some l \<Rightarrow> Some ((case map_of m p of None \<Rightarrow> new_ipvLevel p | Some mpl \<Rightarrow> mpl)
                        \<lparr>ip_sellpl := plainVolume (pl_volume l)\<rparr>))"
proof (induction ls arbitrary: m)
  case (Cons l ls)
  have "lookup_by pl_price ls (pl_price l) = None"
    using Cons.prems by (simp add: lookup_by_None)
  thus ?case using Cons by (auto simp: putSellLevel_def plainVolume_def Let_def split: option.splits)
qed (simp add: lookup_by_def)

definition volumeAt :: "Uint \<Rightarrow> OrderBookSide \<Rightarrow> uint64" where
  "volumeAt p s = (case lookup_by pl_price (s_levels s) p of None \<Rightarrow> 0 | Some l \<Rightarrow> pl_volume l)"

lemma sorted_levels:
  assumes "map_ok m"
  shows "sorted_wrt (\<lambda>p q. q < p) (map ip_price (rev (sort_key ip_price (map snd m))))"
    and "lookup_by ip_price (rev (sort_key ip_price (map snd m))) p = map_of m p"
proof -
  let ?xs = "map snd m" let ?ys = "rev (sort_key ip_price ?xs)"
  have keys: "map ip_price ?xs = map fst m"
    using assms by (auto simp: map_ok_def)
  have d: "distinct (map ip_price ?xs)" using assms unfolding keys by (simp add: map_ok_def)
  have d': "distinct (map ip_price ?ys)"
    using d by (simp add: distinct_map [of ip_price "?xs"] distinct_map [of ip_price "?ys"] del: map_map)
  have "sorted (map ip_price (sort_key ip_price ?xs))" by simp
  moreover have "distinct (map ip_price (sort_key ip_price ?xs))"
    using d by (simp add: distinct_map [of ip_price "?xs"] distinct_map [of ip_price "sort_key ip_price ?xs"]
        del: map_map)
  ultimately have "sorted_wrt (<) (map ip_price (sort_key ip_price ?xs))"
    by (simp add: strict_sorted_iff)
  thus "sorted_wrt (\<lambda>p q. q < p) (map ip_price ?ys)"
    by (simp add: sorted_wrt_rev flip: rev_map)
  have "lookup_by ip_price ?ys p = lookup_by ip_price ?xs p"
    using lookup_by_perm [OF d' d] by simp
  also have "\<dots> = map_of m p"
  proof -
    have "map (\<lambda>x. (ip_price x, x)) ?xs = m"
      using assms by (auto simp: map_ok_def intro!: map_idI)
    thus ?thesis by (simp add: lookup_by_def)
  qed
  finally show "lookup_by ip_price ?ys p = map_of m p" .
qed

lemma New_levels:
  assumes "distinct (map pl_price (s_levels buy))" and "distinct (map pl_price (s_levels sell))"
  shows "ipv_sorted (NewIndicativePriceAndVolume None st buy sell)"
    and "levelAt p (NewIndicativePriceAndVolume None st buy sell) =
      \<lparr>ip_price = p, ip_buypl = plainVolume (volumeAt p buy), ip_sellpl = plainVolume (volumeAt p sell)\<rparr>"
proof -
  let ?m = "fold putSellLevel (rev (s_levels sell)) (fold putBuyLevel (rev (s_levels buy)) [])"
  have ok: "map_ok ?m"
    by (intro map_ok_fold_sell map_ok_fold_buy) (simp add: map_ok_def)
  have levels: "iv_levels (NewIndicativePriceAndVolume None st buy sell) =
      rev (sort_key ip_price (map snd ?m))"
    by (simp add: NewIndicativePriceAndVolume_def buildInitialCumulativeLevels_def Let_def case_prod_unfold)
  show "ipv_sorted (NewIndicativePriceAndVolume None st buy sell)"
    unfolding ipv_sorted_def levels by (rule sorted_levels(1) [OF ok])
  have d: "distinct (map pl_price (rev (s_levels s)))
      \<and> lookup_by pl_price (rev (s_levels s)) = lookup_by pl_price (s_levels s)"
    if "distinct (map pl_price (s_levels s))" for s
    using that lookup_by_perm [of pl_price "rev (s_levels s)" "s_levels s"] by (simp add: distinct_map)
  have "lookup_by ip_price (iv_levels (NewIndicativePriceAndVolume None st buy sell)) p = map_of ?m p"
    unfolding levels by (rule sorted_levels(2) [OF ok])
  thus "levelAt p (NewIndicativePriceAndVolume None st buy sell) =
      \<lparr>ip_price = p, ip_buypl = plainVolume (volumeAt p buy), ip_sellpl = plainVolume (volumeAt p sell)\<rparr>"
    using d [OF assms(1)] d [OF assms(2)]
    by (simp add: levelAt_def look_fold_buy look_fold_sell volumeAt_def new_ipvLevel_def plainVolume_def
        zero_ipvVolume_def split: option.splits)
qed

section \<open>The range of a query\<close>

definition inRange :: "Uint \<Rightarrow> Uint \<Rightarrow> ipvPriceLevel list \<Rightarrow> ipvPriceLevel list" where
  "inRange mn mx levels = filter (\<lambda>l. mn \<le> ip_price l \<and> ip_price l \<le> mx) levels"

lemma filter_middle:
  assumes "xs = as @ bs @ cs" and "\<forall>x \<in> set as. \<not> P x" and "\<forall>x \<in> set bs. P x" and "\<forall>x \<in> set cs. \<not> P x"
  shows "filter P xs = bs"
  using assms by simp

lemma slice_inRange:
  assumes s: "sorted_wrt (\<lambda>p q. q < p) (map ip_price xs)" and "a < length xs" "b < length xs" "a \<le> b"
  shows "drop a (take (b + 1) xs) = inRange (ip_price (xs ! b)) (ip_price (xs ! a)) xs"
proof -
  have less: "i < j \<Longrightarrow> j < length xs \<Longrightarrow> ip_price (xs ! j) < ip_price (xs ! i)" for i j
    using ipv_order.sorted_nth [OF s] by blast
  have le: "i \<le> j \<Longrightarrow> j < length xs \<Longrightarrow> ip_price (xs ! j) \<le> ip_price (xs ! i)" for i j
    using less [of i j] by (cases "i = j") auto
  have split: "xs = take a xs @ drop a (take (b + 1) xs) @ drop (b + 1) xs"
  proof -
    have "take a xs = take a (take (b + 1) xs)" using assms(4) by (simp add: min_def)
    thus ?thesis by (metis append.assoc append_take_drop_id)
  qed
  show ?thesis
    unfolding inRange_def
  proof (rule filter_middle [OF split, symmetric])
    show "\<forall>x\<in>set (take a xs). \<not> (ip_price (xs ! b) \<le> ip_price x \<and> ip_price x \<le> ip_price (xs ! a))"
      using less assms(2) by (force simp: in_set_conv_nth not_le)
    show "\<forall>x\<in>set (drop a (take (b + 1) xs)). ip_price (xs ! b) \<le> ip_price x \<and> ip_price x \<le> ip_price (xs ! a)"
    proof
      fix x assume "x \<in> set (drop a (take (b + 1) xs))"
      then obtain k where "k < length (drop a (take (b + 1) xs))" "x = drop a (take (b + 1) xs) ! k"
        unfolding in_set_conv_nth by metis
      hence "k < Suc b - a" "x = xs ! (a + k)" using assms(3,4) by simp_all
      moreover from this have "a + k \<le> b" "a + k < length xs" using assms(3,4) by linarith+
      ultimately show "ip_price (xs ! b) \<le> ip_price x \<and> ip_price x \<le> ip_price (xs ! a)"
        using le [of "a + k" b] le [of a "a + k"] assms(3) by simp
    qed
    show "\<forall>x\<in>set (drop (b + 1) xs). \<not> (ip_price (xs ! b) \<le> ip_price x \<and> ip_price x \<le> ip_price (xs ! a))"
    proof
      fix x assume "x \<in> set (drop (b + 1) xs)"
      then obtain k where "k < length xs - (b + 1)" "x = xs ! (b + 1 + k)"
        using assms(3) by (auto simp: in_set_conv_nth)
      hence "ip_price x < ip_price (xs ! b)" using less [of b "b + 1 + k"] by simp
      thus "\<not> (ip_price (xs ! b) \<le> ip_price x \<and> ip_price x \<le> ip_price (xs ! a))" using leD by blast
    qed
  qed
qed

lemma getLevelsWithinRange_ok:
  assumes s: "ipv_sorted ipv" and "mn \<le> mx"
    and "mn \<in> ip_price ` set (iv_levels ipv)" and "mx \<in> ip_price ` set (iv_levels ipv)"
  shows "getLevelsWithinRange mx mn ipv = Ret (inRange mn mx (iv_levels ipv))"
proof -
  let ?L = "iv_levels ipv" let ?a = "searchIpv mx ?L" and ?b = "searchIpv mn ?L"
  have a: "?a < length ?L" "ip_price (?L ! ?a) = mx" and b: "?b < length ?L" "ip_price (?L ! ?b) = mn"
    using searchIpv_found [OF s] assms(3,4) by auto
  have "?a \<le> ?b"
  proof (rule ccontr)
    assume "\<not> ?a \<le> ?b"
    hence "ip_price (?L ! ?a) < ip_price (?L ! ?b)"
      using ipv_order.sorted_nth [OF s [unfolded ipv_sorted_def]] a(1) by simp
    thus False using a b assms(2) by simp
  qed
  from slice_inRange [OF s [unfolded ipv_sorted_def] a(1) b(1) this] a b this show ?thesis
    by (simp add: getLevelsWithinRange_def Let_def)
qed

section \<open>The cache\<close>

definition cache_ok :: "IndicativePriceAndVolume \<Rightarrow> bool" where
  "cache_ok ipv \<longleftrightarrow>
     ipv_sorted ipv \<and> iv_lastMinPrice ipv \<le> iv_lastMaxPrice ipv
     \<and> (\<not> iv_needsUpdate ipv \<longrightarrow>
          (let R = inRange (iv_lastMinPrice ipv) (iv_lastMaxPrice ipv) (iv_levels ipv)
           in iv_lastCumulativeVolumes ipv = cumulativeLevels R \<and> iv_lastMaxTradable ipv = maxTradableOf R))"

lemma touches_any: "iv_lastMinPrice ipv \<le> iv_lastMaxPrice ipv \<Longrightarrow> touches p ipv"
  by (auto simp: touches_def)

lemma AddVolume_fields:
  "iv_lastMinPrice (AddVolumeAtPrice p v sd off ipv) = iv_lastMinPrice ipv"
  "iv_lastMaxPrice (AddVolumeAtPrice p v sd off ipv) = iv_lastMaxPrice ipv"
  "iv_needsUpdate (AddVolumeAtPrice p v sd off ipv) = (touches p ipv \<or> iv_needsUpdate ipv)"
  by (simp_all add: AddVolumeAtPrice_def Let_def)

lemma RemoveVolume_fields:
  assumes "RemoveVolumeAtPrice p v sd off ipv = Ret ipv'"
  shows "iv_lastMinPrice ipv' = iv_lastMinPrice ipv" "iv_lastMaxPrice ipv' = iv_lastMaxPrice ipv"
    "iv_needsUpdate ipv' = (touches p ipv \<or> iv_needsUpdate ipv)"
  using assms by (auto simp: RemoveVolumeAtPrice_def Let_def split: if_splits)

lemma cache_ok_Add [inv_intros]: "cache_ok ipv \<Longrightarrow> cache_ok (AddVolumeAtPrice p v sd off ipv)"
  by (simp add: cache_ok_def AddVolume_lookup(1) AddVolume_fields touches_any)

lemma cache_ok_Remove [inv_intros]:
  assumes "cache_ok ipv" and "RemoveVolumeAtPrice p v sd off ipv = Ret ipv'"
  shows "cache_ok ipv'"
proof -
  have s: "ipv_sorted ipv" using assms(1) by (simp add: cache_ok_def)
  have "ipv_sorted ipv'"
    using RemoveVolume_lookup [OF s, of p v sd off] assms(2) by (cases "p \<in> ip_price ` set (iv_levels ipv)") auto
  thus ?thesis
    using assms(1) by (simp add: cache_ok_def RemoveVolume_fields [OF assms(2)] touches_any)
qed

lemma cache_ok_New [inv_intros]:
  assumes "distinct (map pl_price (s_levels buy))" and "distinct (map pl_price (s_levels sell))"
  shows "cache_ok (NewIndicativePriceAndVolume None st buy sell)"
  using New_levels(1) [OF assms, of st]
  by (simp add: cache_ok_def)
    (simp add: NewIndicativePriceAndVolume_def buildInitialCumulativeLevels_def Let_def case_prod_unfold)

lemma Query_ok:
  assumes ok: "cache_ok ipv" and "mn \<le> mx"
    and "mn \<in> ip_price ` set (iv_levels ipv)" and "mx \<in> ip_price ` set (iv_levels ipv)"
  defines "R \<equiv> inRange mn mx (iv_levels ipv)"
  shows "\<exists>ipv'. GetCumulativePriceLevels None st mx mn ipv = Ret (cumulativeLevels R, maxTradableOf R, ipv')
    \<and> cache_ok ipv' \<and> iv_levels ipv' = iv_levels ipv"
proof (cases "\<not> iv_needsUpdate ipv \<and> mx = iv_lastMaxPrice ipv \<and> mn = iv_lastMinPrice ipv")
  case True
  thus ?thesis using ok by (simp add: GetCumulativePriceLevels_def cache_ok_def R_def Let_def)
next
  case False
  let ?n = "length R"
  let ?buf = "if length (iv_buf ipv) < ?n then replicate ?n zero_CumulativeVolumeLevel else iv_buf ipv"
  have "length (take ?n ?buf) = ?n" by simp
  note c = cumulate_correct [OF this]
  have "getLevelsWithinRange mx mn ipv = Ret R"
    unfolding R_def using getLevelsWithinRange_ok ok assms(2-4) by (simp add: cache_ok_def)
  hence "GetCumulativePriceLevels None st mx mn ipv = Ret (cumulativeLevels R, maxTradableOf R,
      ipv\<lparr>iv_buf := cumulativeLevels R @ drop ?n ?buf, iv_needsUpdate := False,
          iv_lastMinPrice := mn, iv_lastMaxPrice := mx, iv_lastMaxTradable := maxTradableOf R,
          iv_lastCumulativeVolumes := cumulativeLevels R\<rparr>)"
    using False c by (auto simp: GetCumulativePriceLevels_def Let_def)
  thus ?thesis
    using ok assms(2) by (simp add: cache_ok_def ipv_sorted_def R_def Let_def)
qed

section \<open>The life of an auction\<close>

text \<open>
  The states an auction can bring the structure to, from the two sides of the book at its start:
  volume is added, volume is removed without a panic, the cumulative volumes of a range are asked for.
\<close>

inductive auction :: "OrderBookSide \<Rightarrow> OrderBookSide \<Rightarrow> IndicativePriceAndVolume \<Rightarrow> bool"
  for buy sell where
  begin_auction: "auction buy sell (NewIndicativePriceAndVolume None () buy sell)"
| add_volume: "auction buy sell ipv \<Longrightarrow> auction buy sell (AddVolumeAtPrice p v sd off ipv)"
| remove_volume: "auction buy sell ipv \<Longrightarrow> RemoveVolumeAtPrice p v sd off ipv = Ret ipv' \<Longrightarrow>
    auction buy sell ipv'"
| query: "auction buy sell ipv \<Longrightarrow> mn \<le> mx \<Longrightarrow>
    mn \<in> ip_price ` set (iv_levels ipv) \<Longrightarrow> mx \<in> ip_price ` set (iv_levels ipv) \<Longrightarrow>
    GetCumulativePriceLevels None () mx mn ipv = Ret (vols, tradable, ipv') \<Longrightarrow> auction buy sell ipv'"

lemma auction_cache_ok:
  assumes "auction buy sell ipv"
    and "distinct (map pl_price (s_levels buy))" and "distinct (map pl_price (s_levels sell))"
  shows "cache_ok ipv"
  using assms(1)
proof induction
  case begin_auction
  show ?case by (rule cache_ok_New [OF assms(2,3)])
next
  case (query ipv mn mx vols tradable ipv')
  from Query_ok [OF query.IH query.hyps(2-4), of "()"] query.hyps(5) show ?case by auto
qed (auto intro: inv_intros)

text \<open>
  C19: the cached, two-ended computation of the cumulative volumes is exact. In every state that an
  auction can reach, a query for a range whose ends are levels returns, for each level of the range,
  the total bid volume at that price or better and the total ask volume at that price or better,
  with the smaller of the two as the tradable amount, and the largest tradable amount; whatever the
  reused buffer and the cache of earlier queries hold. The query leaves the levels alone.
\<close>

theorem GetCumulativePriceLevels_exact:
  assumes "auction buy sell ipv"
    and "distinct (map pl_price (s_levels buy))" and "distinct (map pl_price (s_levels sell))"
    and "mn \<le> mx" and "mn \<in> ip_price ` set (iv_levels ipv)" and "mx \<in> ip_price ` set (iv_levels ipv)"
  defines "R \<equiv> inRange mn mx (iv_levels ipv)"
  shows "\<exists>ipv'. GetCumulativePriceLevels None () mx mn ipv = Ret (cumulativeLevels R, maxTradableOf R, ipv')
    \<and> iv_levels ipv' = iv_levels ipv"
  using Query_ok [OF auction_cache_ok [OF assms(1-3)] assms(4-6), of "()"] unfolding R_def by blast

definition flat_side :: "Side \<Rightarrow> (Uint \<times> uint64) list \<Rightarrow> OrderBookSide" where
  "flat_side sd pvs =
     \<lparr>s_side = sd, s_levels = map (\<lambda>(p, v). \<lparr>pl_price = p, pl_orders = [], pl_volume = v\<rparr>) pvs\<rparr>"

definition crossed_buy :: OrderBookSide where
  "crossed_buy = flat_side SideBuy [(99, 4), (101, 7)]"

definition crossed_sell :: OrderBookSide where
  "crossed_sell = flat_side SideSell [(101, 5), (100, 3)]"

definition crossed_ipv :: IndicativePriceAndVolume where
  "crossed_ipv = AddVolumeAtPrice 100 6 SideBuy False
     (NewIndicativePriceAndVolume None () crossed_buy crossed_sell)"

lemmas crossed_defs = crossed_ipv_def crossed_buy_def crossed_sell_def flat_side_def

lemma crossed_levels: "iv_levels crossed_ipv =
  [\<lparr>ip_price = 101, ip_buypl = plainVolume 7, ip_sellpl = plainVolume 5\<rparr>,
   \<lparr>ip_price = 100, ip_buypl = plainVolume 6, ip_sellpl = plainVolume 3\<rparr>,
   \<lparr>ip_price = 99, ip_buypl = plainVolume 4, ip_sellpl = plainVolume 0\<rparr>]"
  by code_simp

theorem GetCumulativePriceLevels_exact_witness:
  "map (\<lambda>v. (cv_price v, cv_cumulativeBidVolume v, cv_cumulativeAskVolume v))
     (cumulativeLevels (inRange 100 101 (iv_levels crossed_ipv))) = [(101, 7, 8), (100, 13, 3)]
   \<and> (\<exists>ipv'. GetCumulativePriceLevels None () 101 100 crossed_ipv =
        Ret (cumulativeLevels (inRange 100 101 (iv_levels crossed_ipv)),
             maxTradableOf (inRange 100 101 (iv_levels crossed_ipv)), ipv')
      \<and> iv_levels ipv' = iv_levels crossed_ipv)"
proof
  show "map (\<lambda>v. (cv_price v, cv_cumulativeBidVolume v, cv_cumulativeAskVolume v))
     (cumulativeLevels (inRange 100 101 (iv_levels crossed_ipv))) = [(101, 7, 8), (100, 13, 3)]"
    by code_simp
  have "auction crossed_buy crossed_sell crossed_ipv"
    unfolding crossed_ipv_def by (intro add_volume begin_auction)
  thus "\<exists>ipv'. GetCumulativePriceLevels None () 101 100 crossed_ipv =
        Ret (cumulativeLevels (inRange 100 101 (iv_levels crossed_ipv)),
             maxTradableOf (inRange 100 101 (iv_levels crossed_ipv)), ipv')
      \<and> iv_levels ipv' = iv_levels crossed_ipv"
    by (rule GetCumulativePriceLevels_exact) (simp_all add: crossed_levels, simp_all add: crossed_defs)
qed

text \<open>
  C20: an auction starts from the volumes of the book. The levels are sorted by strictly descending
  price, and at every price the bid volume is that of the buy side's level and the ask volume that
  of the sell side's level, or zero where the side has none.
\<close>

theorem NewIndicative_volumes:
  assumes "distinct (map pl_price (s_levels buy))" and "distinct (map pl_price (s_levels sell))"
  shows "ipv_sorted (NewIndicativePriceAndVolume None st buy sell)
    \<and> bidAt (levelAt p (NewIndicativePriceAndVolume None st buy sell)) = volumeAt p buy
    \<and> askAt (levelAt p (NewIndicativePriceAndVolume None st buy sell)) = volumeAt p sell"
  using New_levels(1) [OF assms, of st] New_levels(2) [OF assms, where st = st and p = p]
  by (simp add: bidAt_def askAt_def plainVolume_def)

text \<open>
  C21: volumes are booked exactly. After any sequence of additions the bid (ask) volume at a price is
  the volume there was plus the sum, modulo \<open>2 ^ 64\<close>, of the volumes added on that side at that
  price; additions at other prices and on the other side do not show.
\<close>

theorem AddVolumes_exact:
  assumes "ipv_sorted ipv"
  shows "ipv_sorted (fold applyAdd adds ipv)
    \<and> bidAt (levelAt p (fold applyAdd adds ipv)) = bidAt (levelAt p ipv)
        + (\<Sum>(q, v, sd, off) \<leftarrow> filter (\<lambda>(q, v, sd, off). q = p \<and> sd = SideBuy) adds. v)
    \<and> askAt (levelAt p (fold applyAdd adds ipv)) = askAt (levelAt p ipv)
        + (\<Sum>(q, v, sd, off) \<leftarrow> filter (\<lambda>(q, v, sd, off). q = p \<and> sd = SideSell) adds. v)"
proof -
  let ?act = "\<lambda>(p :: Uint, v, sd, off). incrementLevelVolume v sd off"
  have "bidAt (fold ?act (filter (\<lambda>a. fst a = p) adds) l) = bidAt l
      + (\<Sum>(q, v, sd, off) \<leftarrow> filter (\<lambda>(q, v, sd, off). q = p \<and> sd = SideBuy) adds. v)
    \<and> askAt (fold ?act (filter (\<lambda>a. fst a = p) adds) l) = askAt l
      + (\<Sum>(q, v, sd, off) \<leftarrow> filter (\<lambda>(q, v, sd, off). q = p \<and> sd = SideSell) adds. v)" for l
    by (induction adds arbitrary: l)
      (auto simp: bidAt_def askAt_def incrementLevelVolume_def incVolume_def split: Side.splits)
  thus ?thesis
    using ipv_store.fold_inv [OF assms, of adds] ipv_store.fold_look [OF assms, of adds p] by simp
qed

text \<open>
  C22: removing volume that has just been added succeeds and restores the volumes at every price; a
  price that has no level makes the removal panic.
\<close>

theorem RemoveVolume_AddVolume:
  assumes "ipv_sorted ipv"
  shows "(\<exists>ipv'. RemoveVolumeAtPrice p v sd off (AddVolumeAtPrice p v sd off ipv) = Ret ipv'
      \<and> (\<forall>q. levelAt q ipv' = levelAt q ipv))
    \<and> ((\<exists>msg. RemoveVolumeAtPrice p v sd off ipv = Panic msg) \<longleftrightarrow> p \<notin> ip_price ` set (iv_levels ipv))"
proof
  let ?ipv = "AddVolumeAtPrice p v sd off ipv"
  have "p \<in> ip_price ` set (iv_levels ?ipv)"
    using AddVolume_lookup(2) [OF assms, of p v sd off] lookup_by_None [of ip_price "iv_levels ?ipv" p] by simp
  then obtain ipv' where r: "RemoveVolumeAtPrice p v sd off ?ipv = Ret ipv'"
    and "lookup_by ip_price (iv_levels ipv') =
      (lookup_by ip_price (iv_levels ?ipv))(p \<mapsto> decrementLevelVolume v sd off (levelAt p ?ipv))"
    using RemoveVolume_lookup(2) [OF AddVolume_lookup(1) [OF assms]] by blast
  hence "lookup_by ip_price (iv_levels ipv') = (lookup_by ip_price (iv_levels ipv))(p \<mapsto> levelAt p ipv)"
    by (simp add: levelAt_AddVolume [OF assms] AddVolume_lookup(2) [OF assms])
  hence "levelAt q ipv' = levelAt q ipv" for q
    by (simp add: levelAt_def [of q ipv']) (simp add: levelAt_def)
  with r show "\<exists>ipv'. RemoveVolumeAtPrice p v sd off ?ipv = Ret ipv' \<and> (\<forall>q. levelAt q ipv' = levelAt q ipv)"
    by blast
  show "(\<exists>msg. RemoveVolumeAtPrice p v sd off ipv = Panic msg) \<longleftrightarrow> p \<notin> ip_price ` set (iv_levels ipv)"
    using RemoveVolume_lookup [OF assms, of p v sd off]
    by (cases "p \<in> ip_price ` set (iv_levels ipv)") auto
qed

theorem NewIndicative_volumes_witness:
  "bidAt (levelAt 101 (NewIndicativePriceAndVolume None () crossed_buy crossed_sell)) = 7
   \<and> askAt (levelAt 101 (NewIndicativePriceAndVolume None () crossed_buy crossed_sell)) = 5"
  using NewIndicative_volumes [of crossed_buy crossed_sell "()" 101]
  by (simp add: crossed_defs volumeAt_def lookup_by_def)

lemma crossed_sorted: "ipv_sorted crossed_ipv"
  by (simp add: ipv_sorted_def crossed_levels)

theorem AddVolumes_exact_witness:
  "bidAt (levelAt 100 (fold applyAdd [(100, 2, SideBuy, False), (100, 9, SideSell, False),
     (98, 1, SideBuy, True), (100, 5, SideBuy, True)] crossed_ipv)) = 13"
  using AddVolumes_exact [OF crossed_sorted, of "[(100, 2, SideBuy, False), (100, 9, SideSell, False),
     (98, 1, SideBuy, True), (100, 5, SideBuy, True)]" 100]
  by (simp add: levelAt_def crossed_levels bidAt_def plainVolume_def)

theorem RemoveVolume_AddVolume_witness:
  "(\<exists>ipv'. RemoveVolumeAtPrice 98 3 SideSell True (AddVolumeAtPrice 98 3 SideSell True crossed_ipv) = Ret ipv'
      \<and> levelAt 101 ipv' = levelAt 101 crossed_ipv)
   \<and> (\<exists>msg. RemoveVolumeAtPrice 98 3 SideSell True crossed_ipv = Panic msg)"
  using RemoveVolume_AddVolume [OF crossed_sorted, of 98 3 SideSell True] by (auto simp: crossed_levels)

end
