(* ===== verification/Book_Effects.thy ===== *)
theory Book_Effects
  imports Book_Side_Uncross
begin

text \<open>
  What uncrossing does to the individual orders: an order changes in nothing but its visible and
  hidden remaining volume, the orders that change are exactly reported as impacted, each once, and
  the orders that stay are those with volume left, in their old order.
\<close>

section \<open>The effect on a list of orders\<close>

definition frame :: "Order \<Rightarrow> Order" where
  "frame ord = ord\<lparr>o_Remaining := 0,
     o_IcebergOrder := map_option (\<lambda>ice. ice\<lparr>ice_ReservedRemaining := 0\<rparr>) (o_IcebergOrder ord)\<rparr>"

abbreviation live :: "Order \<Rightarrow> bool" where
  "live ord \<equiv> 0 < trueRem ord"

definition effect :: "Order list \<Rightarrow> Order list \<Rightarrow> nat list \<Rightarrow> bool" where
  "effect ords ws js \<longleftrightarrow> map frame ws = map frame ords \<and> distinct js \<and> set js \<subseteq> {..<length ords}
     \<and> (\<forall>i < length ords. i \<notin> set js \<longrightarrow> ws ! i = ords ! i)"

definition matched :: "Order list \<Rightarrow> Order list \<Rightarrow> Order list \<Rightarrow> bool" where
  "matched ords ords' imp \<longleftrightarrow>
     (\<exists>ws js. effect ords ws js \<and> ords' = filter live ws \<and> imp = map (\<lambda>j. ws ! j) js)"

lemma effect_length: "effect ords ws js \<Longrightarrow> length ws = length ords"
  by (metis effect_def length_map)

lemma matched_none: "\<forall>ord \<in> set ords. live ord \<Longrightarrow> matched ords ords []"
  unfolding matched_def by (intro exI [of _ ords] exI [of _ "[]"]) (simp add: effect_def filter_id_conv)

lemma effect_append:
  assumes "effect as us is" and "effect bs ws js"
  shows "effect (as @ bs) (us @ ws) (is @ map ((+) (length as)) js)"
proof -
  have "i - length as \<notin> set js" if "i \<notin> (+) (length as) ` set js" "length as \<le> i" for i
    using that by force
  thus ?thesis
    using assms effect_length [OF assms(1)] by (auto simp: effect_def nth_append distinct_map)
qed

lemma matched_append:
  assumes "matched as as' is" and "matched bs bs' js"
  shows "matched (as @ bs) (as' @ bs') (js @ is)"
proof -
  obtain us ks where u: "effect as us ks" "as' = filter live us" "is = map (\<lambda>j. us ! j) ks"
    using assms(1) by (auto simp: matched_def)
  obtain ws ms where w: "effect bs ws ms" "bs' = filter live ws" "js = map (\<lambda>j. ws ! j) ms"
    using assms(2) by (auto simp: matched_def)
  have "effect (as @ bs) (us @ ws) (map ((+) (length as)) ms @ ks)"
    using effect_append [OF u(1) w(1)] by (auto simp: effect_def)
  moreover have "map (\<lambda>j. (us @ ws) ! j) ks = is"
    using u effect_length [OF u(1)] by (auto simp: effect_def nth_append)
  moreover have "map (\<lambda>j. (us @ ws) ! j) (map ((+) (length as)) ms) = js"
    using w effect_length [OF u(1)] by (simp add: nth_append)
  ultimately show ?thesis
    unfolding matched_def using u(2) w(2)
    by (intro exI [of _ "us @ ws"] exI [of _ "map ((+) (length as)) ms @ ks"]) simp
qed

section \<open>The effect on a level\<close>

lemma frame_simps [simp]:
  "frame (ord\<lparr>o_Remaining := x\<rparr>) = frame ord" "frame (takeReserve e ord) = frame ord"
  by (simp_all add: frame_def takeReserve_def split: option.splits)

lemma run_frames: "uncross_run chk agg vol i k ords u \<Longrightarrow> map frame (uo_orders u) = map frame ords"
  by (induction rule: uncross_run.induct) auto

lemma run_impacted_range:
  "uncross_run chk agg vol i k ords u \<Longrightarrow>
   distinct (uo_impacted u) \<and> set (uo_impacted u) \<subseteq> {i..<i + length ords}"
  by (induction rule: uncross_run.induct) auto

lemma run_untouched:
  "uncross_run chk agg vol i k ords u \<Longrightarrow> j < length ords \<Longrightarrow> i + j \<notin> set (uo_impacted u) \<Longrightarrow>
   uo_orders u ! j = ords ! j"
proof (induction arbitrary: j rule: uncross_run.induct)
  case (hidden ord agg vol i k rest u)
  show ?case
  proof (cases j)
    case (Suc j')
    thus ?thesis using hidden.IH [of j'] hidden.prems by simp
  qed simp
next
  case (last ord agg sz tr vol i k rest)
  thus ?case by (cases j) auto
next
  case (step ord agg sz tr vol i k rest u)
  show ?case
  proof (cases j)
    case 0
    thus ?thesis using step.prems by simp
  next
    case (Suc j')
    thus ?thesis using step.IH [of j'] step.prems by simp
  qed
qed auto

lemma run_tracked_trade:
  "uncross_run chk agg vol i k ords u \<Longrightarrow> t \<in> set (uo_icebergs u) \<Longrightarrow>
   i \<le> ti_idx t \<and> (ti_trade t = None \<longleftrightarrow> ti_idx t \<notin> set (uo_impacted u))"
proof (induction arbitrary: t rule: uncross_run.induct)
  case (hidden ord agg vol i k rest u)
  have "i \<notin> set (uo_impacted u)" using run_impacted_range [OF hidden.hyps(3)] by auto
  thus ?case using hidden.IH [of t] hidden.prems by auto
next
  case (step ord agg sz tr vol i k rest u)
  from step.prems consider "t \<in> set (uo_icebergs u)" | "t = \<lparr>ti_order = fill sz ord, ti_trade = Some k, ti_idx = i\<rparr>"
    by (auto split: if_splits)
  thus ?case
  proof cases
    case 1
    thus ?thesis using step.IH [of t] by auto
  qed simp
qed (auto split: if_splits)

lemma icebergTrades_newImpacted:
  "icebergTrades fake ps s = Ret s' \<Longrightarrow>
   is_newImpacted s' = is_newImpacted s @ map ti_idx (filter (\<lambda>t. ti_trade t = None) (map fst ps))
   \<and> length (is_tracked s') = length (is_tracked s) + length ps"
  by (induction fake ps s rule: icebergTrades.induct)
    (auto simp: gbind_Ret_iff Let_def split: option.splits)

lemma uncrossIcebergs_newImpacted:
  assumes "uncrossIcebergs ddiv agg ts fake vol trades = Ret s" and "sum_list (map reservedRemaining ts) \<noteq> 0"
    and "length (is_tracked s) = length ts"
  shows "is_newImpacted s = map ti_idx (filter (\<lambda>t. ti_trade t = None) ts)"
proof -
  obtain es where es: "icebergTrades fake (zip ts es) \<lparr>is_agg = agg, is_volume = vol, is_trades = trades,
      is_newTrades = [], is_newImpacted = [], is_tracked = []\<rparr> = Ret s"
    using assms(1,2) by (auto simp: uncrossIcebergs_def Let_def gbind_Ret_iff)
  have "length (zip ts es) = length ts" using icebergTrades_newImpacted [OF es] assms(3) by simp
  hence "map fst (zip ts es) = ts" by (intro map_fst_zip_take [THEN trans]) simp
  thus ?thesis using icebergTrades_newImpacted [OF es] by simp
qed

lemma hidden_matched:
  assumes inv: "level_inv l" and u: "uncrossOrders chk agg (pl_volume l) 0 0 (pl_orders l) = Ret u"
    and s: "uncrossIcebergs ddiv (uo_agg u) (uo_icebergs u) False (uo_volume u) (uo_trades u) = Ret s"
    and es: "length es = length (uo_icebergs u)" "is_tracked s = map (paired False) (zip (uo_icebergs u) es)"
      "\<forall>p \<in> set (zip (uo_icebergs u) es). unat (snd p) \<le> reserveOf (ti_order (fst p))"
    and res: "sum_list (map reservedRemaining (uo_icebergs u)) \<noteq> 0"
  defines "ws \<equiv> writeTracked (is_tracked s) (uo_orders u)" and "js \<equiv> uo_impacted u @ is_newImpacted s"
  shows "effect (pl_orders l) ws js"
    and "removeAll 0 (sort (uo_toRemove u
        @ map ti_idx (filter (\<lambda>t. TrueRemaining (ti_order t) = 0) (is_tracked s)))) ws = filter live ws"
proof -
  note run = uncrossOrders_run [OF u]
  note tracked = run_tracked [OF run] and rng = run_impacted_range [OF run] and len = run_length [OF run]
  let ?ts = "uo_icebergs u"
  have small: "volumeOf (uo_orders u) < 2 ^ 63"
    using run_orders [OF run] inv by (simp add: level_inv_def)
  show "removeAll 0 (sort (uo_toRemove u
        @ map ti_idx (filter (\<lambda>t. TrueRemaining (ti_order t) = 0) (is_tracked s)))) ws = filter live ws"
    unfolding run_toRemove [OF run level_inv_order_ok [OF inv]] ws_def
    by (rule removed_orders [OF tracked es(1) small es(3,2)])
  have new: "is_newImpacted s = map ti_idx (filter (\<lambda>t. ti_trade t = None) ?ts)"
    by (rule uncrossIcebergs_newImpacted [OF s res]) (use es in simp)
  have idx: "ti_idx t < length (uo_orders u)" "ti_order t = uo_orders u ! ti_idx t" if "t \<in> set ?ts" for t
    using tracked that by (auto simp: tracked_ok_def)
  have dist: "distinct (map ti_idx ?ts)" using tracked by (simp add: tracked_ok_def strict_sorted_iff)
  have frames: "map frame ws = map frame (pl_orders l)"
    unfolding ws_def es(2) run_frames [OF run, symmetric]
    by (rule writeTracked_map) (use idx in \<open>auto simp: paired_def dest: set_zip_leftD\<close>)
  have d: "distinct js"
    unfolding js_def new using rng dist run_tracked_trade [OF run]
    by (auto simp: distinct_map intro: inj_on_subset)
  have sub: "set js \<subseteq> {..<length (pl_orders l)}"
    unfolding js_def new using rng idx(1) len by auto
  have "ws ! i = pl_orders l ! i" if i: "i < length (pl_orders l)" "i \<notin> set js" for i
  proof -
    have "i \<notin> ti_idx ` set ?ts"
      using i(2) run_tracked_trade [OF run] by (auto simp: js_def new)
    hence "i \<notin> ti_idx ` set (is_tracked s)"
      by (auto simp: es(2) paired_def dest: set_zip_leftD)
    hence "ws ! i = uo_orders u ! i"
      unfolding ws_def by (intro writeTracked_nth_other) auto
    thus ?thesis using run_untouched [OF run i(1)] i(2) by (simp add: js_def)
  qed
  with frames d sub show "effect (pl_orders l) ws js" by (simp add: effect_def)
qed

lemma pl_uncross_matched:
  assumes dd: "decimal_div ddiv" and inv: "level_inv l" and len: "length (pl_orders l) < 2 * 10 ^ 16"
    and sides: "\<forall>ord \<in> set (pl_orders l). o_Side ord \<noteq> o_Side agg"
    and r: "pl_uncross ddiv agg chk l = Ret r"
  shows "matched (pl_orders l) (pl_orders (ur_level r)) (ur_impacted r)"
proof (cases "pl_orders l = []")
  case True
  with r show ?thesis by (auto simp: pl_uncross_def matched_none)
next
  case nonempty: False
  with r obtain u where u: "uncrossOrders chk agg (pl_volume l) 0 0 (pl_orders l) = Ret u"
    by (auto simp: pl_uncross_def gbind_Ret_iff)
  note run = uncrossOrders_run [OF u]
  show ?thesis
  proof (cases "o_Remaining (uo_agg u) > 0 \<and> uo_icebergs u \<noteq> []")
    case True
    have small: "volumeOf (pl_orders l) < 2 ^ 63" using inv by (simp add: level_inv_def)
    have hv: "0 < hiddenVolume (uo_icebergs u)" "hiddenVolume (uo_icebergs u) \<le> volumeOf (uo_orders u)"
      using hiddenVolume_pos [OF run_tracked [OF run]] hiddenVolume_le [OF run_tracked [OF run]] True by auto
    obtain s es where s: "uncrossIcebergs ddiv (uo_agg u) (uo_icebergs u) False (uo_volume u) (uo_trades u) = Ret s"
      "length es = length (uo_icebergs u)" "is_tracked s = map (paired False) (zip (uo_icebergs u) es)"
      "\<forall>p \<in> set (zip (uo_icebergs u) es). unat (snd p) \<le> reserveOf (ti_order (fst p))"
      by (rule uncrossIcebergs_spec [OF dd hv(1) _ _ run_tracked_orders(1) [OF run sides], of False "uo_volume u"])
        (use hv run_orders [OF run] small tracked_length [OF run_tracked [OF run]] run_length [OF run] len
          run_agg [OF run] unat64_less [of "o_Remaining agg"] in auto)
    have "sum_list (map reservedRemaining (uo_icebergs u)) \<noteq> 0"
    proof -
      have "sum_list (map unat (map reservedRemaining (uo_icebergs u))) = hiddenVolume (uo_icebergs u)"
        by (simp add: hiddenVolume_def o_def unat_reservedRemaining)
      moreover from this have "unat (sum_list (map reservedRemaining (uo_icebergs u))) = hiddenVolume (uo_icebergs u)"
        using hv(2) run_orders [OF run] small by (subst unat_sum_list) auto
      ultimately show ?thesis using hv(1) by (metis less_irrefl unat_0)
    qed
    note h = hidden_matched [OF inv u s(1-4) this]
    show ?thesis
      unfolding matched_def
      by (intro exI [of _ "writeTracked (is_tracked s) (uo_orders u)"] exI [of _ "uo_impacted u @ is_newImpacted s"])
        (use h r u True nonempty s(1) in \<open>auto simp: pl_uncross_def Let_def\<close>)
  next
    case False
    have "effect (pl_orders l) (uo_orders u) (uo_impacted u)"
      using run_frames [OF run] run_impacted_range [OF run] run_untouched [OF run]
      by (auto simp: effect_def)
    thus ?thesis
      unfolding matched_def using r u False nonempty run_toRemove [OF run level_inv_order_ok [OF inv]]
      by (intro exI [of _ "uo_orders u"] exI [of _ "uo_impacted u"])
        (auto simp: pl_uncross_def removed_emptied)
  qed
qed

section \<open>The effect on a side\<close>

definition ordersOf :: "PriceLevel list \<Rightarrow> Order list" where
  "ordersOf ls = concat (map pl_orders ls)"

lemma ordersOf_simps [simp]:
  "ordersOf [] = []" "ordersOf (l # ls) = pl_orders l @ ordersOf ls" "ordersOf (ls @ ms) = ordersOf ls @ ordersOf ms"
  by (simp_all add: ordersOf_def)

lemma set_ordersOf: "set (ordersOf ls) = (\<Union>l \<in> set ls. set (pl_orders l))"
  by (simp add: ordersOf_def)

lemma level_ready_live: "\<forall>l \<in> set ls. level_ready agg l \<Longrightarrow> \<forall>ord \<in> set (ordersOf ls). live ord"
  by (auto simp: set_ordersOf level_ready_def level_inv_def)

lemma visit_matched:
  assumes dd: "decimal_div ddiv" and ready: "loop_ready sd s" and n: "sl_n s = Suc m"
    and r: "pl_uncross ddiv (sl_agg s) chk (sl_levels s ! m) = Ret r"
  shows "matched (ordersOf (take (Suc m) (sl_levels s)))
      (ordersOf (dropEmptied (Suc m) ((sl_levels s)[m := ur_level r]))) (ur_impacted r)"
    and "matched (ordersOf (take m (sl_levels s))) K imp \<Longrightarrow> pl_orders (ur_level r) = [] \<Longrightarrow>
      matched (ordersOf (take (Suc m) (sl_levels s))) K (ur_impacted r @ imp)"
proof -
  let ?ls = "sl_levels s" let ?l = "?ls ! m"
  have m: "m < length ?ls" using ready n by (simp add: loop_ready_def)
  have take: "take (Suc m) ?ls = take m ?ls @ [?l]" using m by (simp add: take_Suc_conv_app_nth)
  have all: "\<forall>x \<in> set (take m ?ls @ [?l]). level_ready (sl_agg s) x"
    using ready n take by (simp add: loop_ready_def)
  have lvl: "matched (pl_orders ?l) (pl_orders (ur_level r)) (ur_impacted r)"
    using all by (intro pl_uncross_matched [OF dd _ _ _ r]) (auto simp: level_ready_def)
  have live: "matched (ordersOf (take m ?ls)) (ordersOf (take m ?ls)) []"
    using all by (intro matched_none level_ready_live [of _ "sl_agg s"]) auto
  have drop: "ordersOf (dropEmptied (Suc m) (?ls[m := ur_level r]))
      = ordersOf (take m ?ls) @ pl_orders (ur_level r)"
    using dropEmptied_update(1,2) [OF m, of "ur_level r"] all
    by (cases "pl_orders (ur_level r) = []") (auto simp: level_ready_def)
  show "matched (ordersOf (take (Suc m) ?ls)) (ordersOf (dropEmptied (Suc m) (?ls[m := ur_level r]))) (ur_impacted r)"
    using matched_append [OF live lvl] by (simp add: take drop)
  assume "matched (ordersOf (take m ?ls)) K imp" "pl_orders (ur_level r) = []"
  with matched_append [OF this(1) lvl] show "matched (ordersOf (take (Suc m) ?ls)) K (ur_impacted r @ imp)"
    by (simp add: take)
qed

lemma loop_matched:
  assumes "decimal_div ddiv"
  shows "uncrossLevels fuel ddiv None chk s = Ret s' \<Longrightarrow> loop_ready sd s \<Longrightarrow>
    \<exists>imp. sl_impacted s' = sl_impacted s @ imp
      \<and> matched (ordersOf (take (sl_n s) (sl_levels s))) (ordersOf (dropEmptied (sl_n s') (sl_levels s'))) imp"
proof (induction fuel arbitrary: s)
  case (Suc fuel)
  let ?L = "take (sl_n s) (sl_levels s)"
  show ?case
  proof (cases "o_Remaining (sl_agg s) = 0 \<or> sl_n s = 0
      \<or> \<not> crosses (sl_agg s) (pl_price (sl_levels s ! (sl_n s - 1)))")
    case True
    hence "s' = s" using uncrossLevels_idle [OF True] Suc.prems(1) by simp
    moreover have "dropEmptied (sl_n s) (sl_levels s) = ?L"
      using Suc.prems(2) by (intro dropEmptied_full) (auto simp: loop_ready_def level_ready_def)
    moreover have "matched (ordersOf ?L) (ordersOf ?L) []"
      using Suc.prems(2) by (intro matched_none level_ready_live [of _ "sl_agg s"]) (simp add: loop_ready_def)
    ultimately show ?thesis by auto
  next
    case False
    then obtain m where n: "sl_n s = Suc m" by (cases "sl_n s") auto
    let ?l = "sl_levels s ! m"
    have m: "m < length (sl_levels s)" using Suc.prems(2) n by (simp add: loop_ready_def)
    hence ready: "level_ready (sl_agg s) ?l" "\<forall>x \<in> set (take m (sl_levels s)). level_ready (sl_agg s) x"
      "sorted_wrt (before sd) (map pl_price (take m (sl_levels s)))"
      using Suc.prems(2) n by (auto simp: loop_ready_def take_Suc_conv_app_nth sorted_wrt_append)
    then obtain r where r: "pl_uncross ddiv (sl_agg s) chk ?l = Ret r" "uncross_spec (sl_agg s) ?l r"
      using pl_uncross_spec [OF assms, of ?l "sl_agg s" chk] False
      by (auto simp: level_ready_def word_neq_0_conv)
    note vm = visit_matched [OF assms Suc.prems(2) n r(1)]
    define s1 where "s1 = s\<lparr>sl_levels := (sl_levels s)[m := ur_level r], sl_agg := ur_agg r,
      sl_trades := sl_trades s @ ur_trades r, sl_impacted := sl_impacted s @ ur_impacted r, sl_err := ur_err r\<rparr>"
    have rem: "o_Remaining (sl_agg s) \<noteq> 0" and cr: "crosses (sl_agg s) (pl_price ?l)" using False n by auto
    have visit: "Ret s' = (if ur_err r = Some ErrWashTrade then Ret s1
       else uncrossLevels fuel ddiv None chk (s1\<lparr>sl_n := (if pl_orders (ur_level r) = [] then m else Suc m)\<rparr>))"
      unfolding s1_def by (rule trans [OF Suc.prems(1) [symmetric] uncrossLevels_visit [OF n rem cr r(1)]])
    consider (last) "s' = s1 \<or> s' = s1\<lparr>sl_n := Suc m\<rparr>"
      | (gone) "ur_err r = None" "pl_orders (ur_level r) = []" "uncrossLevels fuel ddiv None chk (s1\<lparr>sl_n := m\<rparr>) = Ret s'"
    proof -
      have err: "ur_err r \<in> {None, Some ErrWashTrade}" using r(2) by (simp add: uncross_spec_def)
      show thesis
      proof (cases "ur_err r = None \<and> pl_orders (ur_level r) \<noteq> []")
        case True
        have "o_Remaining (sl_agg (s1\<lparr>sl_n := Suc m\<rparr>)) = 0"
          using spec_exhausted [OF r(2)] True by (auto simp: s1_def)
        moreover have "0 < fuel" using visit True by (cases fuel) auto
        ultimately have "s' = s1\<lparr>sl_n := Suc m\<rparr>"
          using visit True uncrossLevels_done [of "s1\<lparr>sl_n := Suc m\<rparr>" fuel] by simp
        thus thesis using that by blast
      next
        case False
        thus thesis using visit err that by (auto split: if_splits)
      qed
    qed
    thus ?thesis
    proof cases
      case last
      thus ?thesis using vm(1) n by (auto simp: s1_def)
    next
      case gone
      have "loop_ready sd (s1\<lparr>sl_n := m\<rparr>)"
        using ready m gone(1) level_ready_only_remaining [of "sl_agg s" "ur_agg r"] r(2)
        by (simp add: loop_ready_def s1_def uncross_spec_def)
      from Suc.IH [OF gone(3) this] obtain imp where
        "sl_impacted s' = sl_impacted s1 @ imp"
        "matched (ordersOf (take m (sl_levels s))) (ordersOf (dropEmptied (sl_n s') (sl_levels s'))) imp"
        by (auto simp: s1_def)
      thus ?thesis using vm(2) [OF _ gone(2)] n by (auto simp: s1_def)
    qed
  qed
qed simp

text \<open>The whole uncrossing: what it returns, and what it does to the orders.\<close>

definition uncross_effect :: "Order \<Rightarrow> OrderBookSide \<Rightarrow> 's uncrossOutcome \<Rightarrow> bool" where
  "uncross_effect agg s u \<longleftrightarrow>
     kept_levels agg (s_levels s) (s_levels (un_side u)) \<and> s_side (un_side u) = s_side s
     \<and> matched (ordersOf (s_levels s)) (ordersOf (s_levels (un_side u))) (un_impacted u)
     \<and> unat (o_Remaining (un_agg u)) + tradedVolume (un_trades u) = unat (o_Remaining agg)
     \<and> sideVolume (s_levels (un_side u)) + tradedVolume (un_trades u) = sideVolume (s_levels s)
     \<and> (\<exists>x p st'. un_agg u = agg\<lparr>o_Remaining := x, o_Price := p, o_Status := st'\<rparr>
          \<and> (o_Type agg \<noteq> OrderTypeNetwork \<longrightarrow> p = o_Price agg)
          \<and> (un_err u = None \<longrightarrow> st' = o_Status agg))
     \<and> un_err u \<in> {None, Some ErrWashTrade}
     \<and> (o_TimeInForce agg \<noteq> OrderTimeInForceFOK \<and> un_err u = None \<longrightarrow>
          o_Remaining (un_agg u) = 0 \<or> s_levels (un_side u) = []
          \<or> \<not> crosses agg (pl_price (last (s_levels (un_side u)))))"

lemma s_uncross_effect:
  fixes st :: 's
  assumes "decimal_div ddiv" and "side_ready agg s" and "length (s_levels s) < fuel"
  shows "\<exists>u. s_uncross fuel ddiv None agg chk s st = Ret u \<and> uncross_effect agg s u"
proof -
  have none: "kept_levels agg (s_levels s) (s_levels s)"
    "matched (ordersOf (s_levels s)) (ordersOf (s_levels s)) []"
    using assms(2) kept_levels_refl [of "s_levels s" agg] matched_none [OF level_ready_live [of "s_levels s" agg]]
    by (simp_all add: side_ready_def)
  have run: "\<exists>r. uncrossLevels fuel ddiv None chk (loop_start agg s st') = Ret r \<and> uncross_effect agg s (outcome s r)" for st' :: 's
  proof -
    have "loop_ok (s_side s) (loop_start agg s st') (uncrossLevels fuel ddiv None chk (loop_start agg s st'))"
      by (rule uncrossLevels_spec [OF assms(1) _ loop_ready_start [OF assms(2)]])
        (use assms(3) in \<open>simp add: loop_start_def\<close>)
    then obtain r where r: "uncrossLevels fuel ddiv None chk (loop_start agg s st') = Ret r"
      and un: "uncrossed (s_side s) agg (s_levels s) (dropEmptied (sl_n r) (sl_levels r)) (sl_trades r) (sl_agg r) (sl_err r)"
      by (auto simp: loop_ok_def loop_start_def)
    have m: "matched (ordersOf (s_levels s)) (ordersOf (dropEmptied (sl_n r) (sl_levels r))) (sl_impacted r)"
      using loop_matched [OF assms(1) r loop_ready_start [OF assms(2)]] by (simp add: loop_start_def)
    obtain x where x: "sl_agg r = agg\<lparr>o_Remaining := x\<rparr>"
      using un by (auto simp: uncrossed_def only_remaining_iff)
    have agg: "un_agg (outcome s r) = agg\<lparr>o_Remaining := x, o_Price := networkPrice (sl_trades r) (sl_agg r),
        o_Status := o_Status agg\<rparr>" by (cases agg) (simp add: outcome_def x)
    have price: "o_Type agg \<noteq> OrderTypeNetwork \<longrightarrow> networkPrice (sl_trades r) (sl_agg r) = o_Price agg"
      by (simp add: networkPrice_def x)
    have "kept_levels agg (s_levels s) (dropEmptied (sl_n r) (sl_levels r))"
      "sl_err r \<in> {None, Some ErrWashTrade}" "unat x + tradedVolume (sl_trades r) = unat (o_Remaining agg)"
      "sideVolume (dropEmptied (sl_n r) (sl_levels r)) + tradedVolume (sl_trades r) = sideVolume (s_levels s)"
      "sl_err r = None \<longrightarrow> x = 0 \<or> dropEmptied (sl_n r) (sl_levels r) = []
        \<or> \<not> crosses agg (pl_price (last (dropEmptied (sl_n r) (sl_levels r))))"
      using un x by (simp_all add: uncrossed_def)
    hence P: "uncross_effect agg s (outcome s r)"
      unfolding uncross_effect_def using m agg price
      by (intro conjI exI [of _ x] exI [of _ "networkPrice (sl_trades r) (sl_agg r)"] exI [of _ "o_Status agg"])
        (simp_all add: outcome_def x)
    show ?thesis by (rule exI [of _ r], rule conjI [OF r P])
  qed
  show ?thesis
  proof (cases "o_TimeInForce agg = OrderTimeInForceFOK")
    case False
    thus ?thesis using run [of st] by (auto simp: s_uncross_plain)
  next
    case True
    obtain w fs where fok: "fokLevels None (crosses agg) agg (s_levels s) (length (s_levels s))
        \<lparr>fk_fake = agg, fk_total = 0, fk_st = st\<rparr> = Ret (w, fs)"
      using fokLevels_returns by blast
    have agg: "agg = agg\<lparr>o_Remaining := o_Remaining agg, o_Price := o_Price agg, o_Status := o_Status agg\<rparr>"
      "agg\<lparr>o_Status := z\<rparr> = agg\<lparr>o_Remaining := o_Remaining agg, o_Price := o_Price agg, o_Status := z\<rparr>" for z
      by (cases agg; simp)+
    show ?thesis
    proof (cases "w \<or> fk_total fs < o_Remaining agg")
      case True
      have stop: "uncross_effect agg s \<lparr>un_side = s, un_agg = agg\<lparr>o_Status := z\<rparr>, un_trades = [], un_impacted = [],
          un_lastPrice = 0, un_err = err, un_st = st2\<rparr>"
        if "err \<in> {None, Some ErrWashTrade}" "err = None \<longrightarrow> z = o_Status agg" for z err and st2 :: 's
        unfolding uncross_effect_def using none agg(2) [of z] that \<open>o_TimeInForce agg = OrderTimeInForceFOK\<close>
        by (intro conjI exI [of _ "o_Remaining agg"] exI [of _ "o_Price agg"] exI [of _ z]) simp_all
      show ?thesis
        using s_uncross_fok [OF \<open>o_TimeInForce agg = OrderTimeInForceFOK\<close> fok, of fuel ddiv chk] True
          stop [of "Some ErrWashTrade" OrderStatusStopped "fk_st fs"] stop [of None "o_Status agg" "fk_st fs"]
        by (cases w) simp_all
    next
      case False
      thus ?thesis
        using s_uncross_fok [OF True fok, of fuel ddiv chk] run [of "fk_st fs"] by auto
    qed
  qed
qed

end
