(* ===== verification/Side_Orders.thy ===== *)
theory Side_Orders
  imports Book_Effects "HOL-Library.Multiset"
begin

text \<open>
  A side of the book as the multiset of the orders that rest on it: adding an order adds it to the
  multiset, removing one takes exactly it away, and the invariant of the side is kept.
\<close>

definition side_ok :: "Side \<Rightarrow> OrderBookSide \<Rightarrow> bool" where
  "side_ok sd s \<longleftrightarrow> s_side s = sd \<and> levels_ok sd (s_levels s) \<and> (\<forall>l \<in> set (s_levels s). level_inv l)"

abbreviation sideOrders :: "OrderBookSide \<Rightarrow> Order list" where
  "sideOrders s \<equiv> ordersOf (s_levels s)"

section \<open>Multisets of the orders of levels\<close>

lemma mset_insert_nth [simp]: "mset (insert_nth i x xs) = add_mset x (mset xs)"
proof -
  have "mset (take i xs) + mset (drop i xs) = mset xs" by (metis append_take_drop_id mset_append)
  thus ?thesis by (simp add: insert_nth_def)
qed

lemma mset_remove_nth: "i < length xs \<Longrightarrow> mset xs = add_mset (xs ! i) (mset (remove_nth i xs))"
  by (subst id_take_nth_drop [of i xs]) (simp_all add: remove_nth_def)

lemma sorted_wrt_remove_nth: "sorted_wrt P xs \<Longrightarrow> sorted_wrt P (remove_nth i xs)"
proof (induction xs arbitrary: i)
  case (Cons x xs)
  thus ?case using set_remove_nth_subset by (cases i) fastforce+
qed simp

lemma map_remove_nth: "map f (remove_nth i xs) = remove_nth i (map f xs)"
  by (simp add: remove_nth_def take_map drop_map)

lemma mset_ordersOf: "mset (ordersOf ls) = (\<Sum>l \<in># mset ls. mset (pl_orders l))"
  by (induction ls) simp_all

lemma mset_ordersOf_update:
  "i < length ls \<Longrightarrow>
   mset (ordersOf (ls[i := l])) + mset (pl_orders (ls ! i)) = mset (ordersOf ls) + mset (pl_orders l)"
proof (induction ls arbitrary: i)
  case (Cons x ls)
  thus ?case by (cases i) (simp_all add: ac_simps)
qed simp

lemma mset_ordersOf_remove_nth:
  "i < length ls \<Longrightarrow> mset (ordersOf ls) = mset (pl_orders (ls ! i)) + mset (ordersOf (remove_nth i ls))"
  by (simp add: mset_ordersOf mset_remove_nth [of i ls])

lemma volumeOf_mset: "volumeOf ords = (\<Sum>ord \<in># mset ords. trueRem ord)"
  by (simp add: volumeOf_def flip: sum_mset_sum_list)

lemma volumeOf_cong: "mset xs = mset ys \<Longrightarrow> volumeOf xs = volumeOf ys"
  by (simp add: volumeOf_mset)

lemma volumeOf_ordersOf: "volumeOf (ordersOf ls) = sideVolume ls"
  by (induction ls) simp_all

lemma level_volume_le: "l \<in> set ls \<Longrightarrow> volumeOf (pl_orders l) \<le> volumeOf (ordersOf ls)"
  by (induction ls) auto

lemma level_length_le: "l \<in> set ls \<Longrightarrow> length (pl_orders l) \<le> length (ordersOf ls)"
  by (induction ls) auto

section \<open>Adding and removing\<close>

lemma side_ok_sorted: "side_ok sd s \<Longrightarrow> sorted_wrt (before (s_side s)) (map pl_price (s_levels s))"
  by (simp add: side_ok_def levels_ok_def)

lemma side_ok_order:
  "side_ok sd s \<Longrightarrow> ord \<in> set (sideOrders s) \<Longrightarrow>
   o_Side ord = sd \<and> live ord \<and> o_Price ord \<in> pl_price ` set (s_levels s)"
  by (auto simp: side_ok_def levels_ok_def level_inv_def set_ordersOf)

lemma side_ok_level:
  "side_ok sd s \<Longrightarrow> l \<in> set (s_levels s) \<Longrightarrow> ord \<in> set (pl_orders l) \<Longrightarrow>
   o_Side ord = s_side s \<and> pl_price l = o_Price ord"
  by (simp add: side_ok_def levels_ok_def)

lemma mset_addOrder:
  assumes "side_ok sd s"
  shows "mset (sideOrders (s_addOrder ord s)) = add_mset ord (mset (sideOrders s))"
proof (cases rule: s_addOrder_cases [OF side_ok_sorted [OF assms], of ord])
  case (1 l i)
  with mset_ordersOf_update [of i "s_levels s" "pl_addOrder ord l"] show ?thesis
    by (simp add: pl_addOrder_def)
next
  case (2 i)
  thus ?thesis by (simp add: mset_ordersOf pl_addOrder_def NewPriceLevel_def)
qed

lemma side_ok_addOrder:
  assumes "side_ok sd s" and "o_Side ord = sd" and "live ord"
    and "volumeOf (sideOrders s) + trueRem ord < 2 ^ 63"
  shows "side_ok sd (s_addOrder ord s)"
proof -
  have "level_inv l" if l: "l \<in> set (s_levels (s_addOrder ord s))" for l
  proof (cases rule: s_addOrder_cases [OF side_ok_sorted [OF assms(1)], of ord])
    case (1 l' i)
    have "level_inv (pl_addOrder ord l')"
      using assms level_volume_le [OF 1(1)] 1(1)
      by (intro level_inv_addOrder) (auto simp: side_ok_def)
    with l 1 assms(1) show ?thesis
      by (auto simp: side_ok_def dest!: subsetD [OF set_update_subset_insert])
  next
    case (2 i)
    have "level_inv (pl_addOrder ord (NewPriceLevel (o_Price ord)))"
      using assms(3,4) by (intro level_inv_addOrder) (simp_all add: level_inv_def NewPriceLevel_def)
    with l 2 assms(1) show ?thesis by (auto simp: side_ok_def)
  qed
  with assms levels_ok_addOrder [of s ord] show ?thesis by (simp add: side_ok_def)
qed

lemma RemoveOrder_found:
  assumes "side_ok sd s" and "ord \<in> set (sideOrders s)" and "distinct (map o_ID (sideOrders s))"
  obtains i j where "i < length (s_levels s)" and "j < length (pl_orders (s_levels s ! i))"
    and "pl_orders (s_levels s ! i) ! j = ord"
    and "RemoveOrder ord s = Ret (Inr ord, s\<lparr>s_levels :=
       (let l = (s_levels s ! i)\<lparr>
              pl_volume := pl_volume (s_levels s ! i) - TrueRemaining ord,
              pl_orders := remove_nth j (pl_orders (s_levels s ! i))\<rparr>
        in if pl_orders l = [] then remove_nth i (s_levels s) else (s_levels s)[i := l])\<rparr>)"
proof -
  obtain i where i: "i < length (s_levels s)" "ord \<in> set (pl_orders (s_levels s ! i))"
    using assms(2) by (auto simp: set_ordersOf in_set_conv_nth [of _ "s_levels s"])
  have ord: "o_Side ord = s_side s" "pl_price (s_levels s ! i) = o_Price ord"
    using side_ok_level [OF assms(1) nth_mem [OF i(1)] i(2)] by simp_all
  obtain j where j: "find_index (\<lambda>x. o_ID x = o_ID ord) (pl_orders (s_levels s ! i)) = Some j"
    using i(2) find_index_None [of "\<lambda>x. o_ID x = o_ID ord" "pl_orders (s_levels s ! i)"]
    by (cases "find_index (\<lambda>x. o_ID x = o_ID ord) (pl_orders (s_levels s ! i))") auto
  hence at: "j < length (pl_orders (s_levels s ! i))" "o_ID (pl_orders (s_levels s ! i) ! j) = o_ID ord"
    using find_index_Some [OF j] by simp_all
  have "pl_orders (s_levels s ! i) ! j \<in> set (sideOrders s)"
    unfolding set_ordersOf using nth_mem [OF i(1)] nth_mem [OF at(1)] by blast
  with at(2) have eq: "pl_orders (s_levels s ! i) ! j = ord"
    using assms(3) [unfolded distinct_map, THEN conjunct2, THEN inj_onD] assms(2) by blast
  have sorted: "sorted_wrt (before (o_Side ord)) (map pl_price (s_levels s))"
    using side_ok_sorted [OF assms(1)] ord(1) by simp
  show thesis by (rule that [OF i(1) at(1) eq RemoveOrder_at [OF sorted i(1) ord(2) j, unfolded eq]])
qed

lemma RemoveOrder_ok:
  assumes "side_ok sd s" and "ord \<in> set (sideOrders s)" and "distinct (map o_ID (sideOrders s))"
  shows "\<exists>s'. RemoveOrder ord s = Ret (Inr ord, s') \<and> side_ok sd s'
    \<and> mset (sideOrders s) = add_mset ord (mset (sideOrders s'))"
proof -
  obtain i j where i: "i < length (s_levels s)" and j: "j < length (pl_orders (s_levels s ! i))"
    and ord: "pl_orders (s_levels s ! i) ! j = ord"
    and rm: "RemoveOrder ord s = Ret (Inr ord, s\<lparr>s_levels :=
       (let l = (s_levels s ! i)\<lparr>
              pl_volume := pl_volume (s_levels s ! i) - TrueRemaining ord,
              pl_orders := remove_nth j (pl_orders (s_levels s ! i))\<rparr>
        in if pl_orders l = [] then remove_nth i (s_levels s) else (s_levels s)[i := l])\<rparr>)"
    by (rule RemoveOrder_found [OF assms])
  let ?ls = "s_levels s" let ?l = "?ls ! i"
  define l where "l = ?l\<lparr>pl_volume := pl_volume ?l - TrueRemaining ord, pl_orders := remove_nth j (pl_orders ?l)\<rparr>"
  have eq: "RemoveOrder ord s = Ret (Inr ord, s\<lparr>s_levels :=
      (if pl_orders l = [] then remove_nth i ?ls else ?ls[i := l])\<rparr>)"
    using rm by (simp add: l_def Let_def)
  have old: "?l \<in> set ?ls" using i by simp
  have inv: "level_inv l"
    using level_inv_removeOrder [of ?l j] assms(1) old j ord
    by (auto simp: side_ok_def pl_removeOrder_def l_def Let_def)
  have ls: "mset (pl_orders ?l) = add_mset ord (mset (pl_orders l))"
    using mset_remove_nth [OF j] ord by (simp add: l_def)
  have price: "map pl_price (?ls[i := l]) = map pl_price ?ls"
    using i by (simp add: map_update l_def list_update_same_conv)
  have sub: "set (pl_orders l) \<subseteq> set (pl_orders ?l)" by (simp add: l_def set_remove_nth_subset)
  have side: "side_ok sd (s\<lparr>s_levels := (if pl_orders l = [] then remove_nth i ?ls else ?ls[i := l])\<rparr>)"
  proof (cases "pl_orders l = []")
    case True
    with assms(1) set_remove_nth_subset [of i ?ls] show ?thesis
      by (auto simp: side_ok_def levels_ok_def map_remove_nth sorted_wrt_remove_nth)
  next
    case False
    have "pl_orders x \<noteq> [] \<and> level_inv x \<and> (\<forall>y \<in> set (pl_orders x). o_Side y = sd \<and> o_Price y = pl_price x)"
      if "x \<in> set (?ls[i := l])" for x
    proof (cases "x = l")
      case True
      with False inv sub old assms(1) show ?thesis by (auto simp: side_ok_def levels_ok_def l_def)
    next
      case False
      hence "x \<in> set ?ls" using that set_update_subset_insert by fastforce
      with assms(1) show ?thesis by (auto simp: side_ok_def levels_ok_def)
    qed
    with False assms(1) price show ?thesis by (simp add: side_ok_def levels_ok_def)
  qed
  have "mset (ordersOf ?ls) = add_mset ord (mset (ordersOf (if pl_orders l = [] then remove_nth i ?ls else ?ls[i := l])))"
    using mset_ordersOf_remove_nth [OF i] mset_ordersOf_update [OF i, of l] ls by (auto split: if_splits)
  with eq side show ?thesis by simp
qed

end
