(* ===== verification/Book_Tables.thy ===== *)
theory Book_Tables
  imports Side_Orders Book_Trading
begin

text \<open>
  The lookup tables of the order book as a picture of a set of orders: the table by identifier,
  the identifiers of each party and the pegged orders hold exactly that set, and the operations on
  the tables (\<^verbatim>\<open>core/matching/orderbook.go\<close>, \<^verbatim>\<open>add\<close> and \<^verbatim>\<open>remove\<close>) add and remove one order.
\<close>

definition tables :: "'s OrderBook \<Rightarrow> Order set \<Rightarrow> bool" where
  "tables b T \<longleftrightarrow>
     (\<forall>oid ord. map_of (b_ordersByID b) oid = Some ord \<longleftrightarrow> ord \<in> T \<and> o_ID ord = oid)
     \<and> distinct (map fst (b_ordersByID b))
     \<and> (\<forall>party. distinct (idsOf party b) \<and> set (idsOf party b) = o_ID ` {ord \<in> T. o_Party ord = party})
     \<and> distinct (b_peggedOrders b) \<and> set (b_peggedOrders b) = o_ID ` {ord \<in> T. o_PeggedOrder ord \<noteq> None}
     \<and> b_peggedOrdersCount b = of_nat (length (b_peggedOrders b))"

lemma tables_inj: "tables b T \<Longrightarrow> x \<in> T \<Longrightarrow> y \<in> T \<Longrightarrow> o_ID x = o_ID y \<Longrightarrow> x = y"
  unfolding tables_def by (metis option.inject)

lemma tables_fresh: "tables b T \<Longrightarrow> map_of (b_ordersByID b) oid = None \<longleftrightarrow> oid \<notin> o_ID ` T"
  unfolding tables_def by (metis (no_types, lifting) image_iff not_None_eq)

lemma tables_cong:
  "b_ordersByID b' = b_ordersByID b \<Longrightarrow> b_ordersPerParty b' = b_ordersPerParty b \<Longrightarrow>
   b_peggedOrders b' = b_peggedOrders b \<Longrightarrow> b_peggedOrdersCount b' = b_peggedOrdersCount b \<Longrightarrow>
   tables b' T = tables b T"
  by (simp add: tables_def idsOf_def)

section \<open>Removing\<close>

lemma fst_peg_Delete: "fst (peg_Delete oid ids) = remove1 oid ids"
  unfolding peg_Delete_def by (induction ids) (auto split: option.splits)

lemma idsOf_remove:
  "idsOf party (b_remove ord b)
     = (if party = o_Party ord then filter (\<lambda>oid. oid \<noteq> o_ID ord) (idsOf party b) else idsOf party b)"
  by (auto simp: idsOf_def b_remove_def Let_def split: option.splits)

lemma b_remove_simps [simp]:
  "b_buy (b_remove ord b) = b_buy b" "b_sell (b_remove ord b) = b_sell b"
  "b_auction (b_remove ord b) = b_auction b" "b_marketID (b_remove ord b) = b_marketID b"
  "b_ipv (b_remove ord b) = b_ipv b"
  "b_ordersByID (b_remove ord b) = assoc_del (o_ID ord) (b_ordersByID b)"
  "b_peggedOrders (b_remove ord b) = remove1 (o_ID ord) (b_peggedOrders b)"
  by (auto simp: b_remove_def Let_def fst_peg_Delete peg_Exists_def list_ex_iff remove1_idem)

lemma b_peggedOrdersCount_remove:
  assumes "b_peggedOrdersCount b = of_nat (length (b_peggedOrders b))"
  shows "b_peggedOrdersCount (b_remove ord b) = of_nat (length (b_peggedOrders (b_remove ord b)))"
proof (cases "o_ID ord \<in> set (b_peggedOrders b)")
  case True
  then obtain n where "length (b_peggedOrders b) = Suc n" by (cases "b_peggedOrders b") auto
  with True assms show ?thesis
    by (simp add: b_remove_def Let_def peg_Exists_def list_ex_iff fst_peg_Delete length_remove1)
next
  case False
  with assms show ?thesis by (simp add: b_remove_def Let_def peg_Exists_def list_ex_iff remove1_idem)
qed

lemma ids_minus:
  assumes "\<forall>y \<in> T. o_ID y = o_ID x \<longrightarrow> y = x"
  shows "o_ID ` {y \<in> T - {x}. P y} = o_ID ` {y \<in> T. P y} - {o_ID x}"
  using assms by auto

lemma tables_remove:
  assumes t: "tables b T" and x: "x \<in> T" "o_ID ord = o_ID x" "o_Party ord = o_Party x"
  shows "tables (b_remove ord b) (T - {x})"
proof -
  have inj: "\<forall>y \<in> T. o_ID y = o_ID x \<longrightarrow> y = x" using tables_inj [OF t _ x(1)] by blast
  note minus = ids_minus [of T x, OF inj]
  have ids: "set (idsOf party b) = o_ID ` {y \<in> T. o_Party y = party}" for party
    using t by (simp add: tables_def)
  have 1: "map_of (b_ordersByID (b_remove ord b)) oid = Some y \<longleftrightarrow> y \<in> T - {x} \<and> o_ID y = oid" for oid y
  proof -
    have "map_of (b_ordersByID b) oid = Some y \<longleftrightarrow> y \<in> T \<and> o_ID y = oid" using t by (simp add: tables_def)
    thus ?thesis using inj x(2) by (cases "oid = o_ID x") auto
  qed
  have 2: "set (idsOf party (b_remove ord b)) = o_ID ` {y \<in> T - {x}. o_Party y = party}" for party
  proof (cases "party = o_Party x")
    case True
    thus ?thesis unfolding minus using x(2,3) by (auto simp: idsOf_remove ids)
  next
    case False
    have "o_ID x \<noteq> o_ID y" if "y \<in> {y \<in> T. o_Party y = party}" for y
      using inj that False by auto
    hence "o_ID x \<notin> o_ID ` {y \<in> T. o_Party y = party}" by blast
    thus ?thesis unfolding minus using False x(3) by (simp add: idsOf_remove ids)
  qed
  have "set (b_peggedOrders b) = o_ID ` {y \<in> T. o_PeggedOrder y \<noteq> None}" "distinct (b_peggedOrders b)"
    using t by (simp_all add: tables_def)
  hence 3: "set (b_peggedOrders (b_remove ord b)) = o_ID ` {y \<in> T - {x}. o_PeggedOrder y \<noteq> None}"
    unfolding minus using x(2) by simp
  have 4: "distinct (idsOf party (b_remove ord b))" for party
    using t by (simp add: tables_def idsOf_remove)
  have 5: "distinct (map fst (b_ordersByID (b_remove ord b)))" "distinct (b_peggedOrders (b_remove ord b))"
    using t by (simp_all add: tables_def distinct_assoc_del)
  from t have "b_peggedOrdersCount b = of_nat (length (b_peggedOrders b))" by (simp add: tables_def)
  note 6 = b_peggedOrdersCount_remove [OF this]
  show ?thesis unfolding tables_def by (intro conjI allI 1 2 3 4 5 6)
qed

section \<open>Adding\<close>

definition added :: "Order \<Rightarrow> 's OrderBook \<Rightarrow> 's OrderBook" where
  "added ord b = (case b_add ord b of Ret b' \<Rightarrow> b' | _ \<Rightarrow> b)"

lemma b_add_Ret: "\<not> o_GeneratedOffbook ord \<Longrightarrow> b_add ord b = Ret (added ord b)"
  by (simp add: added_def b_add_def Let_def)

lemma added_simps [simp]:
  "b_buy (added ord b) = b_buy b" "b_sell (added ord b) = b_sell b"
  "b_auction (added ord b) = b_auction b" "b_marketID (added ord b) = b_marketID b"
  "b_ipv (added ord b) = b_ipv b"
  by (simp_all add: added_def b_add_def Let_def)

lemma tables_add:
  assumes t: "tables b T" and off: "\<not> o_GeneratedOffbook ord" and new: "o_ID ord \<notin> o_ID ` T"
  shows "tables (added ord b) (insert ord T)"
proof -
  let ?b = "added ord b"
  have fields: "b_ordersByID ?b = assoc_put (o_ID ord) ord (b_ordersByID b)"
    "idsOf party ?b = (if party = o_Party ord \<and> o_ID ord \<notin> set (idsOf party b)
       then idsOf party b @ [o_ID ord] else idsOf party b)"
    "b_peggedOrders ?b = (if o_PeggedOrder ord \<noteq> None then b_peggedOrders b @ [o_ID ord] else b_peggedOrders b)"
    "b_peggedOrdersCount ?b = b_peggedOrdersCount b + (if o_PeggedOrder ord \<noteq> None then 1 else 0)" for party
    using off by (auto simp: added_def b_add_def Let_def idsOf_def peg_Add_def split: option.splits)
  have 1: "map_of (b_ordersByID ?b) oid = Some y \<longleftrightarrow> y \<in> insert ord T \<and> o_ID y = oid" for oid y
    using t new by (auto simp: tables_def fields image_iff)
  have 2: "set (idsOf party ?b) = o_ID ` {y \<in> insert ord T. o_Party y = party}" for party
    using t new by (auto simp: tables_def fields(2) image_iff)
  have 3: "distinct (idsOf party ?b)" for party
    using t by (auto simp: tables_def fields(2))
  have 4: "set (b_peggedOrders ?b) = o_ID ` {y \<in> insert ord T. o_PeggedOrder y \<noteq> None}"
    using t new by (auto simp: tables_def fields(3) image_iff)
  have 5: "distinct (b_peggedOrders ?b)" "distinct (map fst (b_ordersByID ?b))"
    using t new by (auto simp: tables_def fields distinct_assoc_put)
  have 6: "b_peggedOrdersCount ?b = of_nat (length (b_peggedOrders ?b))"
    using t by (simp add: tables_def fields)
  show ?thesis unfolding tables_def by (intro conjI allI 1 2 3 4 5 6)
qed

section \<open>Writing through\<close>

lemma find_SomeD: "find P xs = Some x \<Longrightarrow> x \<in> set xs \<and> P x"
  by (induction xs) (auto split: if_splits)

lemma latest_ID [simp]: "o_ID (latest ords x) = o_ID x"
  by (auto simp: latest_def split: option.splits dest: find_SomeD)

lemma latest_none: "o_ID x \<notin> o_ID ` set ords \<Longrightarrow> latest ords x = x"
  by (auto simp: latest_def split: option.splits dest!: find_SomeD) (metis imageI)

lemma latest_mem:
  assumes "distinct (map o_ID ords)" and "y \<in> set ords" and "o_ID y = o_ID x"
  shows "latest ords x = y"
proof (cases "find (\<lambda>y. o_ID y = o_ID x) (rev ords)")
  case None
  with assms(2,3) show ?thesis by (auto simp: find_None_iff)
next
  case (Some z)
  hence "z \<in> set ords" "o_ID z = o_ID y" using find_SomeD [OF Some] assms(3) by simp_all
  hence "z = y" using assms(1) [unfolded distinct_map, THEN conjunct2, THEN inj_onD] assms(2) by blast
  with Some show ?thesis by (simp add: latest_def)
qed

lemma storeTable_simps [simp]:
  "b_buy (storeTable ords b) = b_buy b" "b_sell (storeTable ords b) = b_sell b"
  "b_auction (storeTable ords b) = b_auction b" "b_marketID (storeTable ords b) = b_marketID b"
  "b_ipv (storeTable ords b) = b_ipv b" "b_peggedOrders (storeTable ords b) = b_peggedOrders b"
  "b_peggedOrdersCount (storeTable ords b) = b_peggedOrdersCount b"
  "idsOf party (storeTable ords b) = idsOf party b"
  by (simp_all add: storeTable_def idsOf_def)

lemma tables_store:
  assumes t: "tables b T"
    and same: "\<forall>x \<in> T. o_Party (latest ords x) = o_Party x \<and> o_PeggedOrder (latest ords x) = o_PeggedOrder x"
  shows "tables (storeTable ords b) (latest ords ` T)"
proof -
  have "map_of (b_ordersByID (storeTable ords b)) oid = map_option (latest ords) (map_of (b_ordersByID b) oid)" for oid
    by (simp add: storeTable_def map_of_map)
  hence 1: "map_of (b_ordersByID (storeTable ords b)) oid = Some y \<longleftrightarrow> y \<in> latest ords ` T \<and> o_ID y = oid" for oid y
    using t by (auto simp: tables_def)
  have "{y \<in> latest ords ` T. o_Party y = party} = latest ords ` {y \<in> T. o_Party y = party}"
    "{y \<in> latest ords ` T. o_PeggedOrder y \<noteq> None} = latest ords ` {y \<in> T. o_PeggedOrder y \<noteq> None}" for party
    using same by auto
  hence 2: "o_ID ` {y \<in> latest ords ` T. o_Party y = party} = o_ID ` {y \<in> T. o_Party y = party}"
    "o_ID ` {y \<in> latest ords ` T. o_PeggedOrder y \<noteq> None} = o_ID ` {y \<in> T. o_PeggedOrder y \<noteq> None}" for party
    by (simp_all add: image_image)
  have 3: "map fst (b_ordersByID (storeTable ords b)) = map fst (b_ordersByID b)"
    by (simp add: storeTable_def case_prod_unfold comp_def)
  show ?thesis using t 1 2 3 by (simp add: tables_def)
qed

end
