(* ===== verification/Book_Coherence.thy ===== *)
theory Book_Coherence
  imports Book_Tables
begin

text \<open>
  The order book as a whole (\<^verbatim>\<open>core/matching/orderbook.go\<close>): the orders on the two sides and the
  lookup tables are two views of the same set of orders, and removing an order or refreshing the
  orders that a match has touched keeps them so.
\<close>

definition book_orders :: "'s OrderBook \<Rightarrow> Order list" where
  "book_orders b = sideOrders (b_buy b) @ sideOrders (b_sell b)"

text \<open>What does not change while an order is matched: where it belongs, and how its iceberg is cut.\<close>

definition standing :: "string \<Rightarrow> Order \<Rightarrow> bool" where
  "standing m x \<longleftrightarrow> o_MarketID x = m \<and> \<not> o_GeneratedOffbook x \<and> o_Status x = OrderStatusActive
     \<and> (case o_IcebergOrder x of
          None \<Rightarrow> True
        | Some ice \<Rightarrow> 0 < ice_MinimumVisibleSize ice \<and> ice_MinimumVisibleSize ice \<le> ice_PeakSize ice)"

definition sides_ok :: "'s OrderBook \<Rightarrow> bool" where
  "sides_ok b \<longleftrightarrow> side_ok SideBuy (b_buy b) \<and> side_ok SideSell (b_sell b)
     \<and> distinct (map o_ID (book_orders b)) \<and> volumeOf (book_orders b) < 2 ^ 63"

definition coherent :: "'s OrderBook \<Rightarrow> bool" where
  "coherent b \<longleftrightarrow> sides_ok b \<and> tables b (set (book_orders b))
     \<and> (\<forall>x \<in> set (book_orders b). standing (b_marketID b) x \<and> 0 < o_Remaining x)"

text \<open>What an observer of the depth of the book sees of an order.\<close>

definition quote :: "Order \<Rightarrow> string \<times> Side \<times> Uint \<times> nat" where
  "quote x = (o_ID x, o_Side x, o_Price x, trueRem x)"

definition quotes :: "'s OrderBook \<Rightarrow> (string \<times> Side \<times> Uint \<times> nat) multiset" where
  "quotes b = image_mset quote (mset (book_orders b))"

abbreviation same_place :: "'s OrderBook \<Rightarrow> 's OrderBook \<Rightarrow> bool" where
  "same_place b b' \<equiv> b_auction b' = b_auction b \<and> b_marketID b' = b_marketID b \<and> b_ipv b' = b_ipv b"

section \<open>The sides of the book\<close>

lemma book_orders_cong: "b_buy b' = b_buy b \<Longrightarrow> b_sell b' = b_sell b \<Longrightarrow> book_orders b' = book_orders b"
  by (simp add: book_orders_def)

lemma sides_ok_cong: "b_buy b' = b_buy b \<Longrightarrow> b_sell b' = b_sell b \<Longrightarrow> sides_ok b' = sides_ok b"
  by (simp add: sides_ok_def book_orders_def)

lemma book_orders_tables [simp]:
  "book_orders (b_remove ord b) = book_orders b" "book_orders (added ord b) = book_orders b"
  "book_orders (storeTable ords b) = book_orders b"
  by (simp_all add: book_orders_def)

lemma sides_ok_tables [simp]:
  "sides_ok (b_remove ord b) = sides_ok b" "sides_ok (added ord b) = sides_ok b"
  "sides_ok (storeTable ords b) = sides_ok b"
  by (simp_all add: sides_ok_def)

lemma setSide_simps [simp]:
  "b_auction (setSide sd s b) = b_auction b" "b_marketID (setSide sd s b) = b_marketID b"
  "b_ipv (setSide sd s b) = b_ipv b"
  by (simp_all add: setSide_def)

lemma tables_setSide [simp]: "tables (setSide sd s b) T = tables b T"
  by (rule tables_cong) (simp_all add: setSide_def)

lemma distinct_ids_mset: "mset xs = mset ys \<Longrightarrow> distinct (map o_ID xs) = distinct (map o_ID ys)"
  by (metis mset_eq_imp_distinct_iff mset_map)

lemma sides_ok_order:
  assumes "sides_ok b" and "x \<in> set (book_orders b)"
  shows "o_Side x \<in> {SideBuy, SideSell}" and "live x" and "trueRem x < 2 ^ 63"
    and "x \<in> set (sideOrders (getSide (o_Side x) b))"
proof -
  show "trueRem x < 2 ^ 63"
    using assms trueRem_le_volumeOf [of x "book_orders b"] by (simp add: sides_ok_def)
  have "x \<in> set (sideOrders (b_buy b)) \<or> x \<in> set (sideOrders (b_sell b))"
    using assms(2) by (simp add: book_orders_def)
  thus "o_Side x \<in> {SideBuy, SideSell}" "live x" "x \<in> set (sideOrders (getSide (o_Side x) b))"
    using side_ok_order [of SideBuy "b_buy b" x] side_ok_order [of SideSell "b_sell b" x] assms(1)
    by (auto simp: sides_ok_def getSide_def)
qed

lemma sides_ok_setSide:
  assumes "sides_ok b" and "sd \<in> {SideBuy, SideSell}" and "side_ok sd s"
    and "distinct (map o_ID (book_orders (setSide sd s b)))" and "volumeOf (book_orders (setSide sd s b)) < 2 ^ 63"
  shows "sides_ok (setSide sd s b)"
  using assms by (auto simp: sides_ok_def setSide_def)

lemma add_side:
  assumes "sides_ok b" and "o_Side ord \<in> {SideBuy, SideSell}" and "live ord"
    and "o_ID ord \<notin> o_ID ` set (book_orders b)" and "volumeOf (book_orders b) + trueRem ord < 2 ^ 63"
  defines "b' \<equiv> setSide (o_Side ord) (s_addOrder ord (getSide (o_Side ord) b)) b"
  shows "sides_ok b' \<and> mset (book_orders b') = add_mset ord (mset (book_orders b))"
proof -
  let ?s = "getSide (o_Side ord) b"
  have ok: "side_ok (o_Side ord) ?s" using assms(1,2) by (auto simp: sides_ok_def getSide_def)
  have "volumeOf (sideOrders ?s) + trueRem ord < 2 ^ 63"
    using assms(5) by (auto simp: book_orders_def getSide_def split: if_splits)
  hence side: "side_ok (o_Side ord) (s_addOrder ord ?s)" using ok assms(3) by (intro side_ok_addOrder) simp_all
  have m: "mset (book_orders b') = mset (ord # book_orders b)"
    using mset_addOrder [OF ok, of ord] by (auto simp: b'_def book_orders_def setSide_def getSide_def)
  have "volumeOf (book_orders b') = volumeOf (book_orders b) + trueRem ord"
    using volumeOf_cong [OF m] by simp
  moreover have "distinct (map o_ID (book_orders b'))"
    using distinct_ids_mset [OF m] assms(1,4) by (simp add: sides_ok_def)
  ultimately show ?thesis
    using sides_ok_setSide [OF assms(1,2) side] m assms(5) by (simp add: b'_def)
qed

lemma remove_side:
  assumes "sides_ok b" and "x \<in> set (book_orders b)"
  shows "\<exists>s. RemoveOrder x (getSide (o_Side x) b) = Ret (Inr x, s) \<and> sides_ok (setSide (o_Side x) s b)
    \<and> mset (book_orders b) = add_mset x (mset (book_orders (setSide (o_Side x) s b)))"
proof -
  let ?s = "getSide (o_Side x) b"
  note x = sides_ok_order [OF assms]
  have "side_ok (o_Side x) ?s" "distinct (map o_ID (sideOrders ?s))"
    using assms(1) x(1) by (auto simp: sides_ok_def getSide_def book_orders_def)
  from RemoveOrder_ok [OF this(1) x(4) this(2)] obtain s
    where s: "RemoveOrder x ?s = Ret (Inr x, s)" "side_ok (o_Side x) s"
      "mset (sideOrders ?s) = add_mset x (mset (sideOrders s))" by blast
  let ?b = "setSide (o_Side x) s b"
  have m: "mset (book_orders b) = mset (x # book_orders ?b)"
    using s(3) by (auto simp: book_orders_def setSide_def getSide_def split: if_splits)
  have "volumeOf (book_orders b) = trueRem x + volumeOf (book_orders ?b)"
    using volumeOf_cong [OF m] by simp
  moreover have "distinct (map o_ID (book_orders ?b))"
    using distinct_ids_mset [OF m] assms(1) by (simp add: sides_ok_def)
  ultimately show ?thesis
    using sides_ok_setSide [OF assms(1) x(1) s(2)] assms(1) s(1) m by (auto simp: sides_ok_def)
qed

lemma DeleteOrder_ok:
  assumes "sides_ok b" and "x \<in> set (book_orders b)" and "\<not> b_auction b" and "tables b T" and "x \<in> T"
  shows "\<exists>b'. DeleteOrder x b = Ret (Inr x, b') \<and> sides_ok b' \<and> tables b' (T - {x})
    \<and> mset (book_orders b) = add_mset x (mset (book_orders b')) \<and> same_place b b'"
proof -
  obtain s where s: "RemoveOrder x (getSide (o_Side x) b) = Ret (Inr x, s)" "sides_ok (setSide (o_Side x) s b)"
    "mset (book_orders b) = add_mset x (mset (book_orders (setSide (o_Side x) s b)))"
    using remove_side [OF assms(1,2)] by blast
  have "tables (b_remove x (setSide (o_Side x) s b)) (T - {x})"
    by (rule tables_remove) (use assms(4,5) in simp_all)
  with s assms(3) show ?thesis
    by (intro exI [of _ "b_remove x (setSide (o_Side x) s b)"]) (simp add: DeleteOrder_def Let_def)
qed

section \<open>Refreshing the orders of a match\<close>

text \<open>
  While the book settles a match, the orders of \<open>imp\<close> still have to be looked at: those with no
  volume left are in the tables only. The orders of \<open>new\<close> are on a side and not yet in the tables.
\<close>

definition settling :: "Order set \<Rightarrow> Order list \<Rightarrow> 's OrderBook \<Rightarrow> bool" where
  "settling new imp b \<longleftrightarrow> sides_ok b \<and> (imp \<noteq> [] \<longrightarrow> \<not> b_auction b) \<and> distinct (map o_ID imp)
     \<and> new \<subseteq> set (book_orders b) \<and> o_ID ` new \<inter> o_ID ` set imp = {}
     \<and> (\<forall>x \<in> set imp. if live x then x \<in> set (book_orders b) else o_ID x \<notin> o_ID ` set (book_orders b))
     \<and> (\<forall>x \<in> set (book_orders b). x \<in> set imp \<or> 0 < o_Remaining x)
     \<and> (\<forall>x \<in> set (book_orders b) \<union> set imp. standing (b_marketID b) x)
     \<and> tables b (set (book_orders b) - new \<union> {x \<in> set imp. \<not> live x})"

lemma coherent_settling: "coherent b \<longleftrightarrow> settling {} [] b"
  by (auto simp: coherent_def settling_def)

lemma settling_added:
  assumes "settling {ord} [] b"
  shows "coherent (added ord b)"
proof -
  have on: "ord \<in> set (book_orders b)" and ids: "inj_on o_ID (set (book_orders b))"
    and t: "tables b (set (book_orders b) - {ord})" and st: "standing (b_marketID b) ord"
    using assms by (auto simp: settling_def sides_ok_def distinct_map)
  have "o_ID ord \<notin> o_ID ` (set (book_orders b) - {ord})"
    using ids on by (auto dest: inj_onD)
  from tables_add [OF t _ this] st on have "tables (added ord b) (set (book_orders b))"
    by (simp add: standing_def insert_absorb)
  with assms show ?thesis by (auto simp: coherent_def settling_def)
qed

lemma trueRem_SetIcebergPeaks:
  assumes "trueRem x < 2 ^ 64"
    and "\<And>ice. o_IcebergOrder x = Some ice \<Longrightarrow> o_Remaining x \<le> ice_PeakSize ice \<or> ice_ReservedRemaining ice = 0"
  shows "trueRem (SetIcebergPeaks x) = trueRem x"
proof (cases "o_IcebergOrder x")
  case None
  thus ?thesis by (simp add: SetIcebergPeaks_def)
next
  case (Some ice)
  let ?r = "o_Remaining x" and ?h = "ice_ReservedRemaining ice" and ?p = "ice_PeakSize ice"
  define refill where "refill = min64 (?p - ?r) ?h"
  have le: "refill \<le> ?h" by (simp add: refill_def min64_def not_less)
  have fit: "unat ?r + unat ?h < 2 ^ 64" using assms(1) Some by (simp add: trueRem_def reserveOf_def)
  have sub: "unat (?h - refill) = unat ?h - unat refill" using le by (simp add: unat_sub)
  have "unat (?r + refill) = unat ?r + unat refill"
    using fit le by (intro unat_add_lem [THEN iffD1]) (simp add: word_le_nat_alt)
  with sub le have a: "unat (?r + refill) + unat (?h - refill) = unat ?r + unat ?h" by (simp add: word_le_nat_alt)
  have b: "unat ?p + unat (?r - ?p) = unat ?r" if "?p < ?r"
    using that by (simp add: unat_sub word_less_nat_alt word_le_nat_alt)
  show ?thesis
    using Some a b assms(2) [OF Some]
    by (auto simp: SetIcebergPeaks_def trueRem_def reserveOf_def Let_def min64_def refill_def)
qed

text \<open>An order without volume leaves the tables.\<close>

lemma storeSide_none: "o_ID x \<notin> o_ID ` set (sideOrders s) \<Longrightarrow> storeSide [x] s = s"
proof -
  assume new: "o_ID x \<notin> o_ID ` set (sideOrders s)"
  have "map (latest [x]) (pl_orders l) = pl_orders l" if "l \<in> set (s_levels s)" for l
  proof (rule map_idI, rule latest_none)
    fix z
    assume "z \<in> set (pl_orders l)"
    hence "o_ID z \<in> o_ID ` set (sideOrders s)" using that by (auto simp: set_ordersOf)
    thus "o_ID z \<notin> o_ID ` set [x]" using new by auto
  qed
  hence "map (\<lambda>l. l\<lparr>pl_orders := map (latest [x]) (pl_orders l)\<rparr>) (s_levels s) = s_levels s"
    by (intro map_idI) simp
  thus ?thesis by (simp add: storeSide_def)
qed

lemma storeOrders_none:
  assumes "o_ID x \<notin> o_ID ` set (book_orders b)"
  shows "storeOrders [x] b = storeTable [x] b"
proof -
  have "storeSide [x] (b_buy b) = b_buy b" "storeSide [x] (b_sell b) = b_sell b"
    using assms by (auto simp: book_orders_def intro!: storeSide_none)
  thus ?thesis by (simp add: storeOrders_def storeTable_def)
qed

lemma tables_drop:
  assumes "tables b T" and "x \<in> T" and "o_ID y = o_ID x" "o_Party y = o_Party x" "o_PeggedOrder y = o_PeggedOrder x"
  shows "tables (b_remove y (storeTable [y] b)) (T - {x})"
proof -
  have latest: "latest [y] z = (if z = x then y else z)" if "z \<in> T" for z
  proof (cases "z = x")
    case True
    thus ?thesis using latest_mem [of "[y]" y z] assms(3) by simp
  next
    case False
    hence "o_ID z \<noteq> o_ID y" using tables_inj [OF assms(1) that assms(2)] assms(3) by auto
    thus ?thesis using False latest_none [of z "[y]"] by simp
  qed
  have "tables (storeTable [y] b) (latest [y] ` T)"
    by (rule tables_store [OF assms(1)]) (use latest assms(4,5) in auto)
  also have "latest [y] ` T = insert y (T - {x})" using latest assms(2) by (auto simp: image_iff)
  finally have "tables (b_remove y (storeTable [y] b)) (insert y (T - {x}) - {y})"
    by (intro tables_remove) simp_all
  moreover have "insert y (T - {x}) - {y} = T - {x}"
    using tables_inj [OF assms(1) _ assms(2)] assms(3) by auto
  ultimately show ?thesis by simp
qed

lemma settling_dead:
  assumes "settling new (x # imp) b" and "\<not> live x"
  defines "y \<equiv> x\<lparr>o_Status := OrderStatusFilled\<rparr>"
  shows "settling new imp (b_remove y (storeOrders [y] b)) \<and> book_orders (b_remove y (storeOrders [y] b)) = book_orders b
    \<and> same_place b (b_remove y (storeOrders [y] b))"
proof -
  let ?T = "set (book_orders b) - new \<union> {z \<in> set (x # imp). \<not> live z}"
  have out: "o_ID x \<notin> o_ID ` set (book_orders b)" and t: "tables b ?T" and d: "o_ID x \<notin> o_ID ` set imp"
    using assms(1,2) by (simp_all add: settling_def)
  have eq: "storeOrders [y] b = storeTable [y] b" by (rule storeOrders_none) (simp add: y_def out)
  have "tables (b_remove y (storeTable [y] b)) (?T - {x})"
    by (rule tables_drop [OF t]) (use assms(2) in \<open>simp_all add: y_def\<close>)
  also have "?T - {x} = set (book_orders b) - new \<union> {z \<in> set imp. \<not> live z}" using out d by auto
  finally show ?thesis
    using assms(1) out by (auto simp: eq settling_def split: if_splits)
qed

text \<open>An order whose visible part is large enough stays as it is.\<close>

lemma settling_kept:
  assumes "settling new (x # imp) b" and "live x" and "\<not> IcebergNeedsRefresh x"
  shows "settling new imp b \<and> 0 < o_Remaining x"
proof -
  have "standing (b_marketID b) x" using assms(1) by (simp add: settling_def)
  have "0 < o_Remaining x"
  proof (rule ccontr)
    assume "\<not> 0 < o_Remaining x"
    hence "o_Remaining x = 0" by (simp add: word_gt_0)
    with assms(2,3) \<open>standing (b_marketID b) x\<close> show False
      by (auto simp: trueRem_def reserveOf_def standing_def IcebergNeedsRefresh_def split: option.splits if_splits)
  qed
  moreover have "{z \<in> set (x # imp). \<not> live z} = {z \<in> set imp. \<not> live z}" using assms(2) by auto
  ultimately show ?thesis using assms(1) unfolding settling_def by auto
qed

text \<open>An iceberg that needs it goes to the back of the queue with a new visible part.\<close>

lemma refreshed_order:
  assumes "standing m x" and "live x" and "trueRem x < 2 ^ 63" and "IcebergNeedsRefresh x"
  defines "y \<equiv> (SetIcebergPeaks x)\<lparr>o_Status := OrderStatusActive\<rparr>"
  shows "standing m y \<and> 0 < o_Remaining y \<and> quote y = quote x \<and> o_Party y = o_Party x
    \<and> o_PeggedOrder y = o_PeggedOrder x"
proof -
  obtain ice where ice: "o_IcebergOrder x = Some ice" "o_Remaining x < ice_MinimumVisibleSize ice"
    using assms(4) by (auto simp: IcebergNeedsRefresh_def not_le split: option.splits if_splits)
  have peak: "0 < ice_PeakSize ice" "o_Remaining x \<le> ice_PeakSize ice"
    using assms(1) ice by (auto simp: standing_def)
  have tr: "trueRem (SetIcebergPeaks x) = trueRem x"
    using assms(3) peak(2) ice(1) by (intro trueRem_SetIcebergPeaks) auto
  have "TrueRemaining x \<noteq> 0" using assms(2,3) TrueRemaining_0_iff [of x] by simp
  hence "0 < min64 (ice_PeakSize ice) (TrueRemaining x)" using peak(1) by (simp add: min64_def word_gt_0)
  moreover have "o_Remaining (SetIcebergPeaks x) = min64 (ice_PeakSize ice) (TrueRemaining x)"
    using assms(3) peak(2) ice(1) by (intro SetIcebergPeaks_visible) (auto simp: trueRem_def reserveOf_def)
  moreover have "trueRem y = trueRem (SetIcebergPeaks x)" by (simp add: y_def trueRem_def reserveOf_def)
  moreover have "standing m y" using assms(1) by (auto simp: y_def standing_def SetIcebergPeaks_def Let_def split: option.splits)
  ultimately show ?thesis
    using tr by (simp add: y_def quote_def SetIcebergPeaks_def Let_def split: option.splits)
qed

lemma settling_refreshed:
  assumes st: "settling new (x # imp) b" and live: "live x" and refresh: "IcebergNeedsRefresh x"
  shows "\<exists>y b'. icebergRefresh x b = Ret (y, b') \<and> settling new imp b' \<and> 0 < o_Remaining y
    \<and> quotes b' = quotes b \<and> same_place b b'"
proof -
  let ?T = "set (book_orders b) - new \<union> {z \<in> set (x # imp). \<not> live z}"
  have on: "x \<in> set (book_orders b)" and ok: "sides_ok b" and auc: "\<not> b_auction b" and t: "tables b ?T"
    and sx: "standing (b_marketID b) x" and out: "o_ID x \<notin> o_ID ` new" and d: "o_ID x \<notin> o_ID ` set imp"
    using st live by (auto simp: settling_def)
  have "x \<in> ?T" using on out by auto
  then obtain b1 where b1: "DeleteOrder x b = Ret (Inr x, b1)" "sides_ok b1" "tables b1 (?T - {x})"
    and m: "mset (book_orders b) = add_mset x (mset (book_orders b1))" and pl: "same_place b b1"
    using DeleteOrder_ok [OF ok on auc t] by blast
  define y where "y = (SetIcebergPeaks x)\<lparr>o_Status := OrderStatusActive\<rparr>"
  note x = sides_ok_order [OF ok on]
  have y: "standing (b_marketID b) y" "0 < o_Remaining y" "quote y = quote x" "o_Party y = o_Party x"
    using refreshed_order [OF sx x(2,3) refresh] by (simp_all add: y_def)
  have key: "o_ID y = o_ID x" "o_Side y = o_Side x" "trueRem y = trueRem x" using y(3) by (simp_all add: quote_def)
  have vol: "volumeOf (book_orders b1) + trueRem y < 2 ^ 63"
    using ok volumeOf_cong [of "book_orders b" "x # book_orders b1"] m key(3) by (simp add: sides_ok_def)
  have ids: "distinct (map o_ID (x # book_orders b1))"
    using ok distinct_ids_mset [of "book_orders b" "x # book_orders b1"] m by (simp add: sides_ok_def)
  hence fresh: "o_ID y \<notin> o_ID ` set (book_orders b1)" using key(1) by simp
  define b2 where "b2 = setSide (o_Side y) (s_addOrder y (getSide (o_Side y) b1)) b1"
  have b2: "sides_ok b2" "mset (book_orders b2) = add_mset y (mset (book_orders b1))"
    using add_side [OF b1(2) _ _ fresh vol] x(1,2) key by (simp_all add: b2_def)
  have sets: "set (book_orders b) = insert x (set (book_orders b1))" "set (book_orders b2) = insert y (set (book_orders b1))"
    using m b2(2) by (metis set_mset_add_mset_insert set_mset_mset)+
  have "o_ID y \<notin> o_ID ` (?T - {x})"
    using tables_inj [OF t \<open>x \<in> ?T\<close>] key(1) by auto
  with b1(3) y(1) have "tables (added y b2) (insert y (?T - {x}))"
    by (intro tables_add) (simp_all add: b2_def standing_def)
  moreover have "y \<notin> new" using out key(1) by (metis imageI)
  hence "insert y (?T - {x}) = set (book_orders b2) - new \<union> {z \<in> set imp. \<not> live z}"
    using sets live ids d by auto
  ultimately have "settling new imp (added y b2)"
    using st b2 sets ids key(1) y(1,2) pl live by (auto simp: settling_def b2_def split: if_splits)
  moreover have "quotes (added y b2) = quotes b" using m b2(2) y(3) by (simp add: quotes_def)
  moreover have "icebergRefresh x b = Ret (y, added y b2)"
    using refresh b1(1) y(1) by (simp add: icebergRefresh_def Let_def b2_def b_add_Ret standing_def flip: y_def)
  ultimately show ?thesis using y(2) pl by (intro exI [of _ y] exI [of _ "added y b2"]) (simp add: b2_def)
qed

lemma refreshImpacted_settles:
  assumes "settling new imp b"
  shows "\<exists>imp' b'. refreshImpacted imp b = Ret (imp', b') \<and> settling new [] b' \<and> quotes b' = quotes b \<and> same_place b b'"
  using assms
proof (induction imp arbitrary: b)
  case Nil
  thus ?case by simp
next
  case (Cons x imp)
  have "\<exists>y b'. icebergRefresh x b = Ret (y, b')
    \<and> (if o_Remaining y = 0
       then (let y' = y\<lparr>o_Status := OrderStatusFilled\<rparr>; b'' = b_remove y' (storeOrders [y'] b')
             in settling new imp b'' \<and> quotes b'' = quotes b \<and> same_place b b'')
       else settling new imp b' \<and> quotes b' = quotes b \<and> same_place b b')"
  proof (cases "live x")
    case False
    hence "o_Remaining x = 0" "\<not> IcebergNeedsRefresh x"
      by (auto simp: trueRem_def reserveOf_def IcebergNeedsRefresh_def unat_eq_zero split: option.splits)
    thus ?thesis using settling_dead [OF Cons.prems False] by (simp add: icebergRefresh_def quotes_def)
  next
    case live: True
    show ?thesis
    proof (cases "IcebergNeedsRefresh x")
      case True
      thus ?thesis using settling_refreshed [OF Cons.prems live] by (auto simp: word_gt_0)
    next
      case False
      thus ?thesis using settling_kept [OF Cons.prems live] by (auto simp: icebergRefresh_def word_gt_0)
    qed
  qed
  then obtain y b' where r: "icebergRefresh x b = Ret (y, b')"
    and i: "if o_Remaining y = 0
       then (let y' = y\<lparr>o_Status := OrderStatusFilled\<rparr>; b'' = b_remove y' (storeOrders [y'] b')
             in settling new imp b'' \<and> quotes b'' = quotes b \<and> same_place b b'')
       else settling new imp b' \<and> quotes b' = quotes b \<and> same_place b b'" by blast
  show ?case
  proof (cases "o_Remaining y = 0")
    case True
    with i r Cons.IH [of "b_remove (y\<lparr>o_Status := OrderStatusFilled\<rparr>) (storeOrders [y\<lparr>o_Status := OrderStatusFilled\<rparr>] b')"]
    show ?thesis by (auto simp: Let_def)
  next
    case False
    with i r Cons.IH [of b'] show ?thesis by auto
  qed
qed

section \<open>Cancelling an order\<close>

text \<open>
  Cancelling takes exactly the order away, from its side and from every table. In an auction the
  cached indicative volumes would have to be known to hold the order.
\<close>

lemma CancelOrder_ok:
  assumes "coherent b" and "\<not> b_auction b" and "GetOrderByID oid b = Inr ord"
  shows "\<exists>b'. CancelOrder ord b = Ret (Inr (ord\<lparr>o_Status := OrderStatusCancelled\<rparr>), b') \<and> coherent b'
    \<and> mset (book_orders b) = add_mset ord (mset (book_orders b'))
    \<and> GetOrderByID oid b' = Inl ErrOrderDoesNotExist \<and> oid \<notin> set (idsOf (o_Party ord) b')
    \<and> same_place b b'"
proof -
  have t: "tables b (set (book_orders b))" and ok: "sides_ok b"
    and st: "\<forall>x \<in> set (book_orders b). standing (b_marketID b) x \<and> 0 < o_Remaining x"
    using assms(1) by (simp_all add: coherent_def)
  have id: "validateOrderID oid = None" "map_of (b_ordersByID b) oid = Some ord"
    using assms(3) by (auto simp: GetOrderByID_def split: option.splits)
  hence on: "ord \<in> set (book_orders b)" "o_ID ord = oid" using t by (simp_all add: tables_def)
  obtain b' where b': "DeleteOrder ord b = Ret (Inr ord, b')" "sides_ok b'" "tables b' (set (book_orders b) - {ord})"
    "mset (book_orders b) = add_mset ord (mset (book_orders b'))" "same_place b b'"
    using DeleteOrder_ok [OF ok on(1) assms(2) t on(1)] by blast
  have "distinct (map o_ID (ord # book_orders b'))"
    using ok distinct_ids_mset [of "book_orders b" "ord # book_orders b'"] b'(4) by (simp add: sides_ok_def)
  moreover have "set (book_orders b) = insert ord (set (book_orders b'))"
    using b'(4) by (metis set_mset_add_mset_insert set_mset_mset)
  ultimately have sub: "set (book_orders b) - {ord} = set (book_orders b')" and gone: "oid \<notin> o_ID ` set (book_orders b')"
    using on(2) by auto
  have t': "tables b' (set (book_orders b'))" using b'(3) sub by simp
  have "coherent b'" unfolding coherent_def using b'(2,5) t' st sub by auto
  moreover have "GetOrderByID oid b' = Inl ErrOrderDoesNotExist"
    using tables_fresh [OF t', THEN iffD2, OF gone] id(1) by (simp add: GetOrderByID_def)
  moreover have "oid \<notin> set (idsOf (o_Party ord) b')" using t' gone by (auto simp: tables_def)
  moreover have "CancelOrder ord b = Ret (Inr (ord\<lparr>o_Status := OrderStatusCancelled\<rparr>), b')"
    using b'(1) on st id(1) by (simp add: CancelOrder_def standing_def)
  ultimately show ?thesis using b'(4,5) by blast
qed

end
