(* ===== verification/Book_Matching.thy ===== *)
theory Book_Matching
  imports Book_Coherence
begin

text \<open>
  What matching an order against the opposite side leaves of the book
  (\<^verbatim>\<open>core/matching/orderbook.go\<close>, first half of \<^verbatim>\<open>SubmitOrder\<close>): the orders of the side change only in
  their volume, those without volume are gone, and the lookup tables follow.
\<close>

section \<open>What matching leaves\<close>

lemma frame_proj:
  "o_ID (frame x) = o_ID x" "o_Side (frame x) = o_Side x" "o_Price (frame x) = o_Price x"
  "o_Party (frame x) = o_Party x" "o_PeggedOrder (frame x) = o_PeggedOrder x" "standing m (frame x) = standing m x"
  by (auto simp: frame_def standing_def split: option.splits)

lemma frame_eqD:
  assumes "frame x = frame y"
  shows "o_ID x = o_ID y" "o_Side x = o_Side y" "o_Price x = o_Price y" "o_Party x = o_Party y"
    "o_PeggedOrder x = o_PeggedOrder y" "standing m x = standing m y"
  using assms by (metis frame_proj)+

lemma effect_nth:
  assumes "effect ords ws js" and "i < length ords"
  shows "frame (ws ! i) = frame (ords ! i)"
proof -
  have "map frame ws ! i = map frame ords ! i" using assms(1) by (simp add: effect_def)
  thus ?thesis using assms(2) effect_length [OF assms(1)] by simp
qed

lemma effect_ids: "effect ords ws js \<Longrightarrow> map o_ID ws = map o_ID ords"
  by (intro nth_equalityI) (simp_all add: effect_length frame_eqD(1) [OF effect_nth])

lemma effect_mem:
  assumes "effect ords ws js" and "w \<in> set ws"
  obtains x where "x \<in> set ords" "frame w = frame x"
proof -
  obtain i where "i < length ws" "w = ws ! i" using assms(2) by (auto simp: in_set_conv_nth)
  hence "ords ! i \<in> set ords" "frame w = frame (ords ! i)"
    using effect_length [OF assms(1)] effect_nth [OF assms(1), of i] by simp_all
  thus thesis by (rule that)
qed

lemma effect_impacted:
  assumes "effect ords ws js" and "distinct (map o_ID ords)"
  shows "set (map ((!) ws) js) \<subseteq> set ws" and "distinct (map o_ID (map ((!) ws) js))"
proof -
  have js: "set js \<subseteq> {..<length ws}" "distinct js" using assms(1) effect_length [OF assms(1)] by (auto simp: effect_def)
  thus "set (map ((!) ws) js) \<subseteq> set ws" by auto
  have "inj_on ((!) (map o_ID ws)) {..<length ws}"
    using assms(2) effect_ids [OF assms(1)] effect_length [OF assms(1)] by (intro inj_on_nth) simp_all
  hence "inj_on (\<lambda>j. o_ID (ws ! j)) (set js)"
    using js(1) by (auto simp: inj_on_def subset_iff)
  with js(2) show "distinct (map o_ID (map ((!) ws) js))" by (simp add: distinct_map comp_def)
qed

lemma latest_effect:
  assumes "effect ords ws js" and "distinct (map o_ID ords)" and i: "i < length ords"
  shows "latest (map ((!) ws) js) (ords ! i) = ws ! i"
proof (cases "i \<in> set js")
  case True
  thus ?thesis
    using frame_eqD(1) [OF effect_nth [OF assms(1) i]]
    by (intro latest_mem [OF effect_impacted(2) [OF assms(1,2)]]) auto
next
  case False
  have "o_ID (ords ! i) \<noteq> o_ID (ws ! j)" if "j \<in> set js" for j
  proof -
    have j: "j < length ords" "j \<noteq> i" using that False assms(1) by (auto simp: effect_def)
    hence "o_ID (ws ! j) = map o_ID ords ! j" using frame_eqD(1) [OF effect_nth [OF assms(1)]] by simp
    with j i assms(2) show ?thesis by (metis nth_eq_iff_index_eq length_map nth_map)
  qed
  hence "latest (map ((!) ws) js) (ords ! i) = ords ! i" by (intro latest_none) auto
  with False i assms(1) show ?thesis by (simp add: effect_def)
qed

lemma effect_untouched:
  assumes "effect ords ws js" and "w \<in> set ws" and "w \<notin> set (map ((!) ws) js)"
  shows "w \<in> set ords"
proof -
  obtain i where i: "i < length ords" "w = ws ! i"
    using assms(2) effect_length [OF assms(1)] by (auto simp: in_set_conv_nth)
  hence "w = ords ! i" using assms(1,3) by (auto simp: effect_def)
  with i(1) show ?thesis by simp
qed

lemma levels_le_orders: "\<forall>l \<in> set ls. pl_orders l \<noteq> [] \<Longrightarrow> length ls \<le> length (ordersOf ls)"
proof (induction ls)
  case (Cons l ls)
  obtain x xs where "pl_orders l = x # xs" using Cons.prems by (cases "pl_orders l") auto
  with Cons show ?case by simp
qed simp

lemma side_ready_side_ok:
  assumes "side_ok sd s" and "sd \<noteq> o_Side agg" and "length (sideOrders s) < 2 * 10 ^ 16"
  shows "side_ready agg s"
proof -
  have "length (pl_orders l) < 2 * 10 ^ 16" if "l \<in> set (s_levels s)" for l
    using level_length_le [OF that] assms(3) by simp
  with assms show ?thesis by (auto simp: side_ready_def level_ready_def side_ok_def levels_ok_def)
qed

lemma side_ok_uncross:
  assumes "side_ok sd s" and "uncross_effect agg s u"
  shows "side_ok sd (un_side u)"
proof -
  let ?L = "s_levels s" and ?K = "s_levels (un_side u)"
  have kept: "kept_levels agg ?L ?K" and sd: "s_side (un_side u) = sd"
    and m: "matched (ordersOf ?L) (ordersOf ?K) (un_impacted u)"
    using assms by (auto simp: uncross_effect_def side_ok_def)
  obtain ws js where e: "effect (ordersOf ?L) ws js" "ordersOf ?K = filter live ws" using m by (auto simp: matched_def)
  have "o_Side x = sd" if "x \<in> set (ordersOf ?K)" for x
  proof -
    have "x \<in> set ws" using that e(2) by simp
    then obtain y where "y \<in> set (ordersOf ?L)" "frame x = frame y" by (rule effect_mem [OF e(1)])
    thus ?thesis using side_ok_order [OF assms(1), of y] frame_eqD(2) [of x y] by simp
  qed
  moreover have "sorted_wrt (before sd) (map pl_price ?K)"
    using kept assms(1) by (auto simp: kept_levels_def side_ok_def levels_ok_def intro: sorted_wrt_take)
  ultimately show ?thesis
    using kept sd by (auto simp: side_ok_def levels_ok_def kept_levels_def level_ready_def set_ordersOf)
qed

text \<open>
  The book after the opposite side has been matched: its orders are those of before with less or no
  volume, and the ones that changed are to be settled.
\<close>

definition quoted_in :: "'s OrderBook \<Rightarrow> Order \<Rightarrow> bool" where
  "quoted_in b x \<longleftrightarrow> (\<exists>y \<in> set (book_orders b). o_ID x = o_ID y \<and> o_Side x = o_Side y \<and> o_Price x = o_Price y)"

lemma setOpposite_simps:
  assumes "sd \<in> {SideBuy, SideSell}"
  shows "mset (book_orders b) = mset (sideOrders (getSide sd b)) + mset (sideOrders (getOppositeSide sd b))"
    and "mset (book_orders (setOppositeSide sd s b)) = mset (sideOrders (getSide sd b)) + mset (sideOrders s)"
    and "getSide sd (setOppositeSide sd s b) = getSide sd b" and "getOppositeSide sd (setOppositeSide sd s b) = s"
    and "same_place b (setOppositeSide sd s b)" and "tables (setOppositeSide sd s b) T = tables b T"
  using assms by (auto simp: book_orders_def getSide_def getOppositeSide_def setOppositeSide_def tables_def idsOf_def)

definition otherSide :: "Side \<Rightarrow> Side" where
  "otherSide sd = (if sd = SideBuy then SideSell else SideBuy)"

lemma sides_ok_opposite:
  assumes "sd \<in> {SideBuy, SideSell}" and "sides_ok b"
  shows "side_ok sd (getSide sd b)" and "side_ok (otherSide sd) (getOppositeSide sd b)"
  using assms by (auto simp: sides_ok_def getSide_def getOppositeSide_def otherSide_def)

lemma sides_ok_setOpposite:
  assumes "sd \<in> {SideBuy, SideSell}" and "sides_ok b" and "side_ok (otherSide sd) s"
    and "distinct (map o_ID (book_orders (setOppositeSide sd s b)))"
    and "volumeOf (book_orders (setOppositeSide sd s b)) < 2 ^ 63"
  shows "sides_ok (setOppositeSide sd s b)"
  using assms by (auto simp: sides_ok_def setOppositeSide_def otherSide_def)

lemma set_mset_append: "mset zs = mset xs + mset ys \<Longrightarrow> set zs = set xs \<union> set ys"
  by (metis set_mset_mset set_mset_union)

text \<open>Writing the changed orders through to the tables changes the orders of the one side to what is left of them.\<close>

lemma latest_sides:
  assumes e: "effect old ws js" and d: "distinct (map o_ID (own @ old))"
  defines "imp \<equiv> map ((!) ws) js"
  shows "latest imp ` (set own \<union> set old) = set own \<union> set ws"
    and "\<forall>x \<in> set own \<union> set old. o_Party (latest imp x) = o_Party x \<and> o_PeggedOrder (latest imp x) = o_PeggedOrder x"
proof -
  have do: "distinct (map o_ID old)" using d by simp
  have dw: "distinct (map o_ID (own @ ws))" using d effect_ids [OF e] by (simp add: image_set [symmetric] flip: set_map)
  have own: "latest imp x = x" if "x \<in> set own" for x
    by (rule latest_none) (use dw effect_impacted(1) [OF e do] that in \<open>auto simp: imp_def\<close>)
  have old: "latest imp (old ! i) = ws ! i" if "i < length old" for i
    unfolding imp_def by (rule latest_effect [OF e do that])
  have "latest imp ` set old = set ws"
    using old effect_length [OF e] by (auto simp: set_conv_nth image_iff) metis+
  thus "latest imp ` (set own \<union> set old) = set own \<union> set ws" using own unfolding image_Un by auto
  have "o_Party (latest imp x) = o_Party x \<and> o_PeggedOrder (latest imp x) = o_PeggedOrder x" if x: "x \<in> set old" for x
  proof -
    obtain i where "i < length old" "x = old ! i" using x by (auto simp: in_set_conv_nth)
    thus ?thesis using old effect_nth [OF e] frame_eqD(4,5) by metis
  qed
  thus "\<forall>x \<in> set own \<union> set old. o_Party (latest imp x) = o_Party x \<and> o_PeggedOrder (latest imp x) = o_PeggedOrder x"
    using own by auto
qed

lemma matched_book:
  assumes co: "coherent b" and sd: "sd \<in> {SideBuy, SideSell}"
    and e: "effect (sideOrders (getOppositeSide sd b)) ws js"
    and s: "sideOrders s = filter live ws" "side_ok (otherSide sd) s"
    and vol: "volumeOf (sideOrders s) \<le> volumeOf (sideOrders (getOppositeSide sd b))"
    and auc: "\<not> b_auction b"
  defines "imp \<equiv> map ((!) ws) js" and "b2 \<equiv> setOppositeSide sd s b"
  shows "settling {} imp (storeTable imp b2)" and "\<forall>x \<in> set (book_orders b2) \<union> set imp. quoted_in b x"
    and "length (book_orders b2) \<le> length (book_orders b)"
proof -
  let ?own = "sideOrders (getSide sd b)" and ?old = "sideOrders (getOppositeSide sd b)"
  have ok: "sides_ok b" and t: "tables b (set (book_orders b))"
    and st: "\<forall>x \<in> set (book_orders b). standing (b_marketID b) x \<and> 0 < o_Remaining x"
    using co by (simp_all add: coherent_def)
  have bm: "mset (book_orders b) = mset (?own @ ?old)" and bm2: "mset (book_orders b2) = mset (?own @ filter live ws)"
    using setOpposite_simps(1) [OF sd, of b] setOpposite_simps(2) [OF sd, of s b] s(1) by (simp_all add: b2_def)
  have bs: "set (book_orders b) = set ?own \<union> set ?old" and bs2: "set (book_orders b2) = set ?own \<union> {x \<in> set ws. live x}"
    using bm bm2 set_mset_append [of "book_orders b" ?own ?old] set_mset_append [of "book_orders b2" ?own "filter live ws"]
    by simp_all
  have d: "distinct (map o_ID (?own @ ?old))" using ok distinct_ids_mset [OF bm] by (simp add: sides_ok_def)
  hence do: "distinct (map o_ID ?old)" by simp
  have dw: "distinct (map o_ID (?own @ ws))" using d effect_ids [OF e] by (simp add: image_set [symmetric] flip: set_map)
  note imp = effect_impacted [OF e do, folded imp_def]
  have alive: "\<forall>x \<in> set ?old. live x" "\<forall>x \<in> set ?own. live x"
    using side_ok_order sides_ok_opposite [OF sd ok] by blast+
  have q: "quoted_in b w \<and> standing (b_marketID b) w" if w: "w \<in> set ws" for w
  proof -
    obtain x where "x \<in> set ?old" "frame w = frame x" using effect_mem [OF e w] by blast
    thus ?thesis using frame_eqD(1-3) [of w x] frame_eqD(6) [of w x "b_marketID b"] st bs by (auto simp: quoted_in_def)
  qed
  show "\<forall>x \<in> set (book_orders b2) \<union> set imp. quoted_in b x"
    using q imp(1) bs bs2 by (auto simp: quoted_in_def)
  show "length (book_orders b2) \<le> length (book_orders b)"
    using mset_eq_length [OF bm] mset_eq_length [OF bm2] effect_length [OF e] length_filter_le [of live ws] by simp
  have untouched: "w \<in> set imp \<or> w \<in> set ?old" if "w \<in> set ws" for w
    using effect_untouched [OF e that] by (auto simp: imp_def)
  have dead: "w \<in> set imp" if "w \<in> set ws" "\<not> live w" for w
    using untouched [OF that(1)] alive(1) that(2) by auto
  note lat = latest_sides [OF e d, folded imp_def]
  have T: "latest imp ` set (book_orders b) = set (book_orders b2) \<union> {x \<in> set imp. \<not> live x}"
    using lat(1) dead imp(1) unfolding bs bs2 by auto
  have t2: "tables (storeTable imp b2) (set (book_orders b2) \<union> {x \<in> set imp. \<not> live x})"
    using tables_store [of b2 "set (book_orders b)" imp] lat(2) bs t T setOpposite_simps(6) [OF sd, of s b] by (simp add: b2_def)
  have "distinct (map o_ID (book_orders b2))"
    using distinct_ids_mset [OF bm2] dw by (auto simp: distinct_map_filter)
  moreover have "volumeOf (book_orders b2) \<le> volumeOf (book_orders b)"
    using volumeOf_cong [OF bm] volumeOf_cong [OF bm2] vol s(1) by simp
  ultimately have ok2: "sides_ok b2"
    unfolding b2_def by (intro sides_ok_setOpposite [OF sd ok s(2)]) (use ok in \<open>simp_all add: sides_ok_def\<close>)
  have gone: "o_ID x \<notin> o_ID ` set (book_orders b2)" if x: "x \<in> set imp" "\<not> live x" for x
  proof -
    have "x \<in> set ws" using x(1) imp(1) by blast
    moreover have "inj_on o_ID (set ws)" "o_ID ` set ?own \<inter> o_ID ` set ws = {}" using dw by (simp_all add: distinct_map)
    ultimately show ?thesis unfolding bs2 using x(2) by (auto simp: inj_on_eq_iff disjoint_iff)
  qed
  have rem: "x \<in> set imp \<or> 0 < o_Remaining x" if "x \<in> set (book_orders b2)" for x
    using that untouched [of x] st unfolding bs2 bs by auto
  show "settling {} imp (storeTable imp b2)"
    unfolding settling_def using ok2 auc imp t2 gone st q rem bs bs2 setOpposite_simps(5) [OF sd, of s b]
    by (auto simp: b2_def)
qed

end
