(* ===== verification/Book_Submission.thy ===== *)
theory Book_Submission
  imports Book_Matching
begin

text \<open>
  Submitting an order to the book (\<^verbatim>\<open>core/matching/orderbook.go\<close>, \<^verbatim>\<open>SubmitOrder\<close>): matching,
  resting, refreshing the icebergs it has hit and the lookup tables together keep the book coherent
  and, in continuous trading, never leave it crossed.
\<close>

section \<open>Matching a submitted order\<close>

text \<open>
  The orders the theorems are about: on one of the two sides, active, not generated off the book,
  nothing hidden yet, of a kind that either trades at once or is a limit order that may rest. A
  fill-or-kill order has not been filled in part.
\<close>

definition submission :: "Order \<Rightarrow> bool" where
  "submission ord \<longleftrightarrow> o_Side ord \<in> {SideBuy, SideSell} \<and> standing (o_MarketID ord) ord \<and> reserveOf ord = 0
     \<and> (o_TimeInForce ord \<in> {OrderTimeInForceIOC, OrderTimeInForceFOK}
        \<or> o_Type ord = OrderTypeLimit
          \<and> o_TimeInForce ord \<in> {OrderTimeInForceGTC, OrderTimeInForceGTT, OrderTimeInForceGFN, OrderTimeInForceGFA})
     \<and> (o_TimeInForce ord = OrderTimeInForceFOK \<longrightarrow> o_Remaining ord = o_Size ord)"

definition not_crossed :: "'s OrderBook \<Rightarrow> bool" where
  "not_crossed b \<longleftrightarrow> (\<forall>x \<in> set (book_orders b). \<forall>y \<in> set (book_orders b).
     o_Side x = SideBuy \<longrightarrow> o_Side y = SideSell \<longrightarrow> o_Price x < o_Price y)"

lemma sorted_wrt_last: "sorted_wrt P xs \<Longrightarrow> x \<in> set xs \<Longrightarrow> x = last xs \<or> P x (last xs)"
  by (induction xs rule: rev_induct) (auto simp: sorted_wrt_append)

lemma crosses_beyond:
  assumes "o_Side agg \<in> {SideBuy, SideSell}" and "sorted_wrt (before (otherSide (o_Side agg))) (map pl_price K)"
    and "\<not> crosses agg (pl_price (last K))" and "l \<in> set K"
  shows "\<not> crosses agg (pl_price l)"
proof -
  have "K \<noteq> []" using assms(4) by auto
  have "pl_price l = pl_price (last K) \<or> before (otherSide (o_Side agg)) (pl_price l) (pl_price (last K))"
    using sorted_wrt_last [OF assms(2), of "pl_price l"] assms(4) last_map [OF \<open>K \<noteq> []\<close>, of pl_price] by auto
  thus ?thesis
    using assms(1,3) by (auto simp: crosses_def checkLimit_def before_def otherSide_def split: if_splits)
qed

definition match_result ::
  "Order \<Rightarrow> 's OrderBook \<Rightarrow> Order \<times> Trade list \<times> Order list \<times> BookError option \<times> 's OrderBook \<Rightarrow> bool" where
  "match_result ord b = (\<lambda>(agg, ts, imp, err, b2).
     settling {} imp b2 \<and> same_place b b2 \<and> (\<forall>x \<in> set (book_orders b2) \<union> set imp. quoted_in b x)
     \<and> length (book_orders b2) \<le> length (book_orders b)
     \<and> volumeOf (book_orders b2) + tradedVolume ts = volumeOf (book_orders b)
     \<and> unat (o_Remaining agg) + tradedVolume ts = unat (o_Remaining ord)
     \<and> (\<exists>x p st'. agg = ord\<lparr>o_Remaining := x, o_Price := p, o_Status := st'\<rparr>
          \<and> (o_Type ord \<noteq> OrderTypeNetwork \<longrightarrow> p = o_Price ord) \<and> (err = None \<longrightarrow> st' = o_Status ord))
     \<and> err \<in> {None, Some ErrWashTrade}
     \<and> (o_TimeInForce ord = OrderTimeInForceFOK \<and> err = None \<longrightarrow>
          o_Remaining agg = 0 \<or> o_Remaining agg = o_Remaining ord)
     \<and> (\<not> b_auction b \<and> o_TimeInForce ord \<noteq> OrderTimeInForceFOK \<and> err = None \<and> o_Remaining agg \<noteq> 0 \<longrightarrow>
          (\<forall>x \<in> set (book_orders b2). o_Side x = otherSide (o_Side ord) \<longrightarrow> \<not> crosses ord (o_Price x))))"

lemma settling_cong:
  assumes "b_buy b' = b_buy b" "b_sell b' = b_sell b" "b_auction b' = b_auction b" "b_marketID b' = b_marketID b"
    "b_ordersByID b' = b_ordersByID b" "b_ordersPerParty b' = b_ordersPerParty b"
    "b_peggedOrders b' = b_peggedOrders b" "b_peggedOrdersCount b' = b_peggedOrdersCount b"
  shows "settling new imp b' = settling new imp b"
  using assms tables_cong [of b' b] book_orders_cong [of b' b] sides_ok_cong [of b' b] by (simp add: settling_def)

lemma coherent_cong:
  assumes "b_buy b' = b_buy b" "b_sell b' = b_sell b" "b_auction b' = b_auction b" "b_marketID b' = b_marketID b"
    "b_ordersByID b' = b_ordersByID b" "b_ordersPerParty b' = b_ordersPerParty b"
    "b_peggedOrders b' = b_peggedOrders b" "b_peggedOrdersCount b' = b_peggedOrdersCount b"
  shows "coherent b' = coherent b"
  unfolding coherent_settling by (rule settling_cong [OF assms])

lemma offbook_cong:
  "coherent (b\<lparr>b_offbook := z\<rparr>) = coherent b" "book_orders (b\<lparr>b_offbook := z\<rparr>) = book_orders b"
  "not_crossed (b\<lparr>b_offbook := z\<rparr>) = not_crossed b"
  by (rule coherent_cong, simp_all add: book_orders_def not_crossed_def)

lemma visible_le_volume: "visibleVolume ls \<le> volumeOf (ordersOf ls)"
proof (induction ls)
  case (Cons l ls)
  have "visibleOf ords \<le> volumeOf ords" for ords
    by (induction ords) (simp_all add: visibleOf_def trueRem_def)
  with Cons show ?case by (simp add: add_mono)
qed simp

lemma side_volume_le:
  assumes "sd \<in> {SideBuy, SideSell}" and "sides_ok b"
  shows "volumeOf (sideOrders (getOppositeSide sd b)) < 2 ^ 63"
  using assms by (auto simp: sides_ok_def book_orders_def getOppositeSide_def)

lemma matched_side_result:
  assumes co: "coherent b" and auc: "\<not> b_auction b" and sd: "o_Side ord \<in> {SideBuy, SideSell}"
    and u: "uncross_effect ord (getOppositeSide (o_Side ord) b) u"
    and b2: "b2 = (storeTable (un_impacted u) (setOppositeSide (o_Side ord) (un_side u) b))\<lparr>b_offbook := st, b_lastTradedPrice := p\<rparr>"
    and fok: "o_TimeInForce ord = OrderTimeInForceFOK \<Longrightarrow>
      o_Remaining (un_agg u) = 0 \<or> o_Remaining (un_agg u) = o_Remaining ord"
  shows "match_result ord b (un_agg u, un_trades u, un_impacted u, un_err u, b2)"
proof -
  let ?sd = "o_Side ord" let ?s = "getOppositeSide ?sd b" let ?b = "setOppositeSide ?sd (un_side u) b"
  have ok: "sides_ok b" using co by (simp add: coherent_def)
  note so = sides_ok_opposite [OF sd ok]
  have so2: "side_ok (otherSide ?sd) (un_side u)" by (rule side_ok_uncross [OF so(2) u])
  obtain ws js where e: "effect (sideOrders ?s) ws js" "sideOrders (un_side u) = filter live ws"
    and imp: "un_impacted u = map ((!) ws) js"
    using u by (auto simp: uncross_effect_def matched_def)
  have vol: "volumeOf (sideOrders (un_side u)) + tradedVolume (un_trades u) = volumeOf (sideOrders ?s)"
    using u by (simp add: uncross_effect_def volumeOf_ordersOf)
  hence "volumeOf (sideOrders (un_side u)) \<le> volumeOf (sideOrders ?s)" by simp
  note mb = matched_book [OF co sd e so2 this auc, folded imp]
  have same: "book_orders b2 = book_orders ?b" by (simp add: b2 book_orders_def)
  have settle: "settling {} (un_impacted u) b2"
    using mb(1) by (subst settling_cong [of _ "storeTable (un_impacted u) ?b"]) (simp_all add: b2)
  have volb: "volumeOf (book_orders b2) + tradedVolume (un_trades u) = volumeOf (book_orders b)"
    using vol volumeOf_cong [of "book_orders b" "sideOrders (getSide ?sd b) @ sideOrders ?s"]
      volumeOf_cong [of "book_orders ?b" "sideOrders (getSide ?sd b) @ sideOrders (un_side u)"]
      setOpposite_simps(1) [OF sd, of b] setOpposite_simps(2) [OF sd, of "un_side u" b] same by simp
  have beyond: "\<not> crosses ord (o_Price x)"
    if x: "x \<in> set (book_orders b2)" "o_Side x = otherSide ?sd"
      and n: "o_TimeInForce ord \<noteq> OrderTimeInForceFOK" "un_err u = None" "o_Remaining (un_agg u) \<noteq> 0" for x
  proof -
    have "x \<in> set (sideOrders (getSide ?sd b)) \<or> x \<in> set (sideOrders (un_side u))"
      using x(1) same set_mset_append [OF setOpposite_simps(2) [OF sd, of "un_side u" b]] by auto
    hence "x \<in> set (sideOrders (un_side u))"
      using side_ok_order [OF so(1), of x] x(2) sd by (auto simp: otherSide_def split: if_splits)
    then obtain l where l: "l \<in> set (s_levels (un_side u))" "o_Price x = pl_price l"
      using side_ok_order [OF so2, of x] by auto
    hence "\<not> crosses ord (pl_price (last (s_levels (un_side u))))"
      using u n by (auto simp: uncross_effect_def)
    thus ?thesis
      using crosses_beyond [OF sd _ _ l(1)] so2 l(2) by (simp add: side_ok_def levels_ok_def)
  qed
  show ?thesis
    unfolding match_result_def prod.case
    using settle volb mb(2,3) beyond fok u same setOpposite_simps(5) [OF sd, of "un_side u" b]
    by (simp add: uncross_effect_def b2)
qed

lemma submitUncross_matches:
  assumes co: "coherent b" and dd: "decimal_div ddiv" and sub: "submission ord"
    and room: "length (book_orders b) < 2 * 10 ^ 16" "length (book_orders b) < fuel"
  shows "\<exists>r. submitUncross fuel ddiv None ord b = Ret r \<and> match_result ord b r"
proof (cases "b_auction b")
  case True
  have "\<exists>x p st'. ord = ord\<lparr>o_Remaining := x, o_Price := p, o_Status := st'\<rparr>
      \<and> (o_Type ord \<noteq> OrderTypeNetwork \<longrightarrow> p = o_Price ord) \<and> st' = o_Status ord"
    by (intro exI [of _ "o_Remaining ord"] exI [of _ "o_Price ord"] exI [of _ "o_Status ord"]) simp
  moreover have "quoted_in b x" if "x \<in> set (book_orders b)" for x using that by (auto simp: quoted_in_def)
  ultimately show ?thesis using True co by (auto simp: submitUncross_def match_result_def coherent_settling)
next
  case False
  let ?sd = "o_Side ord" let ?s = "getOppositeSide ?sd b"
  have sd: "?sd \<in> {SideBuy, SideSell}" using sub by (simp add: submission_def)
  have ok: "sides_ok b" using co by (simp add: coherent_def)
  note so = sides_ok_opposite [OF sd ok]
  have len: "length (book_orders b) = length (sideOrders (getSide ?sd b)) + length (sideOrders ?s)"
    using sd by (auto simp: book_orders_def getSide_def getOppositeSide_def)
  have "otherSide ?sd \<noteq> ?sd" using sd by (auto simp: otherSide_def)
  hence ready: "side_ready ord ?s" using side_ready_side_ok [OF so(2)] room(1) len by simp
  have "length (s_levels ?s) \<le> length (sideOrders ?s)"
    using so(2) by (intro levels_le_orders) (simp add: side_ok_def levels_ok_def)
  hence fuel: "length (s_levels ?s) < fuel" using room(2) len by simp
  obtain u where u: "s_uncross fuel ddiv None ord True ?s (b_offbook b) = Ret u" "uncross_effect ord ?s u"
    using s_uncross_effect [OF dd ready fuel, where chk = True and st = "b_offbook b"] by blast
  let ?b = "setOppositeSide ?sd (un_side u) b"
  define b2 where "b2 = (storeTable (un_impacted u) ?b)\<lparr>b_offbook := un_st u,
    b_lastTradedPrice := (if un_lastPrice u \<noteq> 0 then un_lastPrice u else b_lastTradedPrice ?b)\<rparr>"
  have run: "submitUncross fuel ddiv None ord b = Ret (un_agg u, un_trades u, un_impacted u, un_err u, b2)"
    using False u(1) by (simp add: submitUncross_def Let_def b2_def storeTable_def)
  have fok: "o_Remaining (un_agg u) = 0 \<or> o_Remaining (un_agg u) = o_Remaining ord"
    if "o_TimeInForce ord = OrderTimeInForceFOK"
  proof -
    have "visibleVolume (s_levels ?s) < 2 ^ 64"
      using visible_le_volume [of "s_levels ?s"] side_volume_le [OF sd ok] by simp
    moreover have "(s_side ?s = SideBuy) = (?sd = SideSell)" using so(2) sd by (auto simp: side_ok_def otherSide_def)
    ultimately show ?thesis using fok_all_or_nothing [OF dd ready fuel that, of True "b_offbook b"] u(1) by auto
  qed
  have "match_result ord b (un_agg u, un_trades u, un_impacted u, un_err u, b2)"
    using matched_side_result [OF co False sd u(2), of b2] fok by (simp add: b2_def)
  with run show ?thesis by blast
qed

lemma quoted_ids: "\<forall>x \<in> X. quoted_in b x \<Longrightarrow> o_ID ` X \<subseteq> o_ID ` set (book_orders b)"
  unfolding quoted_in_def by (metis image_eqI image_subsetI)

section \<open>Resting\<close>

definition restingOrder :: "Order \<Rightarrow> Order" where
  "restingOrder agg = submittedStatus
     (if o_IcebergOrder agg \<noteq> None \<and> o_Status agg = OrderStatusActive then SetIcebergPeaks agg else agg)"

lemma submittedStatus_rest:
  "o_Remaining x \<noteq> 0 \<Longrightarrow> o_TimeInForce x \<notin> {OrderTimeInForceIOC, OrderTimeInForceFOK} \<Longrightarrow> submittedStatus x = x"
  by (simp add: submittedStatus_def Let_def)

lemma restingOrder_ok:
  assumes sub: "submission ord" and per: "IsPersistent (ord\<lparr>o_Remaining := x\<rparr>)"
  defines "r \<equiv> restingOrder (ord\<lparr>o_Remaining := x\<rparr>)"
  shows "standing (o_MarketID ord) r \<and> 0 < o_Remaining r \<and> quote r = (o_ID ord, o_Side ord, o_Price ord, unat x)"
proof -
  let ?agg = "ord\<lparr>o_Remaining := x\<rparr>"
  let ?r = "if o_IcebergOrder ?agg \<noteq> None \<and> o_Status ?agg = OrderStatusActive then SetIcebergPeaks ?agg else ?agg"
  have st: "standing (o_MarketID ord) ?agg" and res: "reserveOf ?agg = 0"
    using sub by (simp_all add: submission_def standing_def reserveOf_def)
  have x: "0 < x" "o_TimeInForce ord \<notin> {OrderTimeInForceIOC, OrderTimeInForceFOK}" using per by (auto simp: IsPersistent_def)
  have small: "unat x < 2 ^ 64" using unsigned_less [of x, where 'a = nat] by simp
  have tr: "trueRem ?agg = unat x" using res by (simp add: trueRem_def)
  have ice0: "ice_ReservedRemaining ice = 0" if "o_IcebergOrder ?agg = Some ice" for ice
    using res that by (simp add: reserveOf_def unat_eq_zero)
  have tr': "trueRem ?r = unat x"
    using trueRem_SetIcebergPeaks [of ?agg] tr ice0 small by simp
  have "0 < o_Remaining ?r"
  proof (cases "o_IcebergOrder ?agg")
    case None
    thus ?thesis using x by simp
  next
    case (Some ice)
    have "TrueRemaining ?agg = x" using Some ice0 by (simp add: TrueRemaining_def)
    hence "o_Remaining (SetIcebergPeaks ?agg) = min64 (ice_PeakSize ice) x"
      using SetIcebergPeaks_visible [OF Some] ice0 [OF Some] small by simp
    moreover have "0 < ice_PeakSize ice" using st Some by (auto simp: standing_def)
    ultimately show ?thesis using x(1) Some by (simp add: min64_def)
  qed
  moreover have "o_TimeInForce ?r = o_TimeInForce ord" by (simp add: SetIcebergPeaks_def Let_def split: option.splits)
  ultimately have r: "r = ?r" unfolding r_def restingOrder_def using x(2) by (intro submittedStatus_rest) auto
  have "standing (o_MarketID ord) ?r"
    using st by (auto simp: standing_def SetIcebergPeaks_def Let_def split: option.splits)
  moreover have "o_ID ?r = o_ID ord" "o_Side ?r = o_Side ord" "o_Price ?r = o_Price ord"
    by (simp_all add: SetIcebergPeaks_def Let_def split: option.splits)
  ultimately show ?thesis unfolding r using \<open>0 < o_Remaining ?r\<close> tr' by (simp add: quote_def)
qed

text \<open>An order that does not rest is never left active.\<close>

lemma unrested_inactive:
  assumes sub: "submission ord" and "o_Size ord \<noteq> 0" and "err \<in> {None, Some ErrWashTrade}"
    and agg: "agg = ord\<lparr>o_Remaining := x, o_Price := p, o_Status := st'\<rparr>"
    and fok: "o_TimeInForce ord = OrderTimeInForceFOK \<Longrightarrow> err = None \<Longrightarrow> x = 0 \<or> x = o_Remaining ord"
    and "\<not> (IsPersistent agg \<and> err = None)"
  shows "o_Status (washStatus err (submittedStatus agg)) \<noteq> OrderStatusActive"
proof (cases err)
  case None
  hence "\<not> IsPersistent agg" using assms(6) by simp
  show ?thesis
  proof (cases "x = 0")
    case True
    thus ?thesis using None assms(2) by (simp add: agg washStatus_def submittedStatus_def Let_def)
  next
    case False
    hence "o_TimeInForce ord \<in> {OrderTimeInForceIOC, OrderTimeInForceFOK}"
      using sub \<open>\<not> IsPersistent agg\<close> by (auto simp: submission_def agg IsPersistent_def word_gt_0)
    thus ?thesis
      using None False fok sub
      by (auto simp: agg washStatus_def submittedStatus_def Let_def submission_def word_gt_0)
  qed
next
  case (Some e)
  thus ?thesis using assms(3) by (simp add: washStatus_def)
qed

lemma settling_rest:
  assumes st: "settling {} imp b2" and side: "o_Side r \<in> {SideBuy, SideSell}"
    and r: "standing (b_marketID b2) r" "0 < o_Remaining r"
    and new: "o_ID r \<notin> o_ID ` (set (book_orders b2) \<union> set imp)"
    and vol: "volumeOf (book_orders b2) + trueRem r < 2 ^ 63"
  defines "b3 \<equiv> setSide (o_Side r) (s_addOrder r (getSide (o_Side r) b2)) b2"
  shows "settling {r} imp b3 \<and> mset (book_orders b3) = add_mset r (mset (book_orders b2))"
proof -
  have "live r" using r(2) by (simp add: trueRem_def word_less_nat_alt)
  with st side new vol have b3: "sides_ok b3" "mset (book_orders b3) = add_mset r (mset (book_orders b2))"
    using add_side [of b2 r] by (auto simp: b3_def settling_def)
  have set3: "set (book_orders b3) = insert r (set (book_orders b2))"
    using b3(2) by (metis set_mset_add_mset_insert set_mset_mset)
  have out: "r \<notin> set (book_orders b2)" "r \<notin> set imp" using new by auto
  hence "set (book_orders b3) - {r} = set (book_orders b2)" using set3 by simp
  moreover have "\<forall>x \<in> set imp. o_ID x \<noteq> o_ID r" using new by (metis UnI2 imageI)
  moreover have "tables b3 T = tables b2 T" "b_auction b3 = b_auction b2" "b_marketID b3 = b_marketID b2" for T
    by (simp_all add: b3_def)
  ultimately show ?thesis
    unfolding settling_def using st b3 set3 r by (auto simp: settling_def split: if_splits)
qed

lemma submitRest_settles:
  assumes mr: "match_result ord b (agg, ts, imp, err, b2)" and sub: "submission ord"
    and fresh: "o_ID ord \<notin> o_ID ` set (book_orders b)"
    and room: "volumeOf (book_orders b) + unat (o_Remaining ord) < 2 ^ 63"
    and mk: "o_MarketID ord = b_marketID b" and sz: "o_Size ord \<noteq> 0" and ipv: "b_auction b \<Longrightarrow> b_ipv b \<noteq> None"
  shows "\<exists>r b3. submitRest agg err b2 = Ret (r, b3) \<and> b_auction b3 = b_auction b
    \<and> (if IsPersistent agg \<and> err = None
       then settling {r} imp b3 \<and> o_Status r = OrderStatusActive \<and> mset (book_orders b3) = add_mset r (mset (book_orders b2))
         \<and> quote r = (o_ID ord, o_Side ord, o_Price ord, unat (o_Remaining agg))
       else settling {} imp b3 \<and> book_orders b3 = book_orders b2 \<and> o_Status (washStatus err r) \<noteq> OrderStatusActive)"
proof -
  have st: "settling {} imp b2" and place: "same_place b b2" and err: "err \<in> {None, Some ErrWashTrade}"
    and q: "\<forall>x \<in> set (book_orders b2) \<union> set imp. quoted_in b x"
    and vol: "volumeOf (book_orders b2) + tradedVolume ts = volumeOf (book_orders b)"
      "unat (o_Remaining agg) + tradedVolume ts = unat (o_Remaining ord)"
    and fok: "o_TimeInForce ord = OrderTimeInForceFOK \<and> err = None \<longrightarrow> o_Remaining agg = 0 \<or> o_Remaining agg = o_Remaining ord"
    using mr by (simp_all add: match_result_def)
  obtain x p st' where agg: "agg = ord\<lparr>o_Remaining := x, o_Price := p, o_Status := st'\<rparr>"
    and p: "o_Type ord \<noteq> OrderTypeNetwork \<longrightarrow> p = o_Price ord" and st': "err = None \<longrightarrow> st' = o_Status ord"
    using mr by (auto simp: match_result_def)
  show ?thesis
  proof (cases "IsPersistent agg \<and> err = None")
    case False
    hence "o_Status (washStatus err (submittedStatus agg)) \<noteq> OrderStatusActive"
      using fok by (intro unrested_inactive [OF sub sz err agg]) (simp_all add: agg)
    moreover have "submitRest agg err b2 = Ret (submittedStatus agg, b2)" unfolding submitRest_def if_not_P [OF False] ..
    ultimately show ?thesis unfolding if_not_P [OF False] using st place by blast
  next
    case True
    hence "p = o_Price ord" "st' = o_Status ord" using p st' by (auto simp: agg IsPersistent_def)
    hence eq: "agg = ord\<lparr>o_Remaining := x\<rparr>" by (simp add: agg)
    define r where "r = restingOrder agg"
    have r: "standing (b_marketID b2) r" "0 < o_Remaining r" "quote r = (o_ID ord, o_Side ord, o_Price ord, unat x)"
      using restingOrder_ok [OF sub] True mk place by (simp_all add: r_def eq)
    have new: "o_ID r \<notin> o_ID ` (set (book_orders b2) \<union> set imp)"
      using quoted_ids [OF q] fresh r(3) by (auto simp: quote_def)
    have "volumeOf (book_orders b2) + trueRem r < 2 ^ 63"
      using vol room r(3) by (simp add: quote_def eq)
    moreover have "o_Side r \<in> {SideBuy, SideSell}" using sub r(3) by (simp add: submission_def quote_def)
    ultimately have rest: "settling {r} imp (setSide (o_Side r) (s_addOrder r (getSide (o_Side r) b2)) b2)"
      "mset (book_orders (setSide (o_Side r) (s_addOrder r (getSide (o_Side r) b2)) b2)) = add_mset r (mset (book_orders b2))"
      using settling_rest [OF st _ r(1,2) new] by simp_all
    let ?b3 = "setSide (o_Side r) (s_addOrder r (getSide (o_Side r) b2)) b2"
    have run: "submitRest agg err b2 = gbind (if b_auction ?b3 then addIpv (o_Price r) (TrueRemaining r) (o_Side r) ?b3 else Ret ?b3)
        (\<lambda>b. Ret (r, b))"
      using True by (simp add: submitRest_def Let_def r_def restingOrder_def)
    obtain i where "submitRest agg err b2 = Ret (r, ?b3\<lparr>b_ipv := i\<rparr>)"
    proof (cases "b_auction b")
      case True
      hence "b_ipv ?b3 \<noteq> None" using ipv place by simp
      then obtain i where "b_ipv ?b3 = Some i" by blast
      thus thesis using run True place by (intro that) (simp add: addIpv_def)
    next
      case False
      thus thesis using run place by (intro that [of "b_ipv ?b3"]) simp
    qed
    moreover have "settling {r} imp (?b3\<lparr>b_ipv := i\<rparr>)" using rest(1) by (subst settling_cong [of _ ?b3]) simp_all
    moreover have "o_Status r = OrderStatusActive" using r(1) by (simp add: standing_def)
    ultimately show ?thesis using True rest(2) r(3) place by (simp add: book_orders_def eq)
  qed
qed

lemma not_crossed_quotes:
  "not_crossed b \<longleftrightarrow> (\<forall>(i, s, p, v) \<in># quotes b. \<forall>(j, t, q, w) \<in># quotes b. s = SideBuy \<longrightarrow> t = SideSell \<longrightarrow> p < q)"
  by (auto simp: not_crossed_def quotes_def quote_def)

lemma ids_quotes: "o_ID ` set (book_orders b) = fst ` set_mset (quotes b)"
  by (simp add: quotes_def quote_def image_image)

lemma volumeOf_quotes: "volumeOf (book_orders b) = (\<Sum>(i, s, p, v) \<in># quotes b. v)"
  by (simp add: volumeOf_mset quotes_def quote_def image_mset.compositionality comp_def case_prod_unfold)

lemma length_quotes: "length (book_orders b) = size (quotes b)"
  by (simp add: quotes_def)

text \<open>A book that was not crossed is not crossed after the match, nor when the rest is added.\<close>

lemma not_crossed_match:
  assumes "not_crossed b" and "\<forall>x \<in> set (book_orders b2). quoted_in b x"
  shows "not_crossed b2"
  using assms unfolding not_crossed_def quoted_in_def by metis

lemma not_crossed_rest:
  assumes "not_crossed b2" and "mset (book_orders b3) = add_mset r (mset (book_orders b2))"
    and r: "o_Side r = o_Side ord" "o_Price r = o_Price ord"
    and beyond: "\<forall>x \<in> set (book_orders b2). o_Side x = otherSide (o_Side ord) \<longrightarrow> \<not> crosses ord (o_Price x)"
  shows "not_crossed b3"
proof -
  have set3: "set (book_orders b3) = insert r (set (book_orders b2))"
    using assms(2) by (metis set_mset_add_mset_insert set_mset_mset)
  have buy: "o_Price r < o_Price x" if "o_Side r = SideBuy" "x \<in> set (book_orders b2)" "o_Side x = SideSell" for x
    using beyond that r by (auto simp: otherSide_def crosses_def checkLimit_def)
  have sell: "o_Price x < o_Price r" if "o_Side r = SideSell" "x \<in> set (book_orders b2)" "o_Side x = SideBuy" for x
    using beyond that r by (auto simp: otherSide_def crosses_def checkLimit_def)
  show ?thesis using assms(1) buy sell unfolding not_crossed_def set3 by auto
qed

section \<open>The whole submission\<close>

definition submitted_ok :: "Order \<Rightarrow> 's OrderBook \<Rightarrow> (BookError + OrderConfirmation) \<times> 's OrderBook \<Rightarrow> bool" where
  "submitted_ok ord b = (\<lambda>(res, b'). coherent b' \<and> b_auction b' = b_auction b
     \<and> (\<not> b_auction b \<longrightarrow> not_crossed b \<longrightarrow> not_crossed b')
     \<and> o_ID ` set (book_orders b') \<subseteq> insert (o_ID ord) (o_ID ` set (book_orders b))
     \<and> length (book_orders b') \<le> Suc (length (book_orders b))
     \<and> (case res of
          Inl err \<Rightarrow> b' = b
        | Inr conf \<Rightarrow>
            let rest = (if o_Status (oc_Order conf) = OrderStatusActive then trueRem (oc_Order conf) else 0) in
            volumeOf (book_orders b') + tradedVolume (oc_Trades conf) = volumeOf (book_orders b) + rest
            \<and> rest + tradedVolume (oc_Trades conf) \<le> unat (o_Remaining ord)
            \<and> (o_Status (oc_Order conf) = OrderStatusActive \<longrightarrow> oc_Order conf \<in> set (book_orders b'))))"

text \<open>From the match to the end of the submission.\<close>

definition finishSubmission ::
  "Order \<times> Trade list \<times> Order list \<times> BookError option \<times> 's OrderBook
    \<Rightarrow> (string, (BookError + OrderConfirmation) \<times> 's OrderBook) go" where
  "finishSubmission = (\<lambda>(ord, trades, impacted, err, b).
     gbind (submitRest ord err b) (\<lambda>(ord, b).
       gbind (refreshImpacted impacted b) (\<lambda>(impacted, b).
         let ord = washStatus err ord
         in gbind (if o_Status ord = OrderStatusActive then b_add ord b else Ret b) (\<lambda>b.
              Ret (Inr \<lparr>oc_Order = ord, oc_Trades = trades, oc_PassiveOrdersAffected = impacted\<rparr>,
                   if b_auction b then b else b\<lparr>b_offbook := uncrossFinished None (b_offbook b)\<rparr>)))))"

lemma finishSubmission_ok:
  assumes mr: "match_result ord b (agg, ts, imp, err, b2)" and sub: "submission ord"
    and fresh: "o_ID ord \<notin> o_ID ` set (book_orders b)"
    and room: "volumeOf (book_orders b) + unat (o_Remaining ord) < 2 ^ 63"
    and mk: "o_MarketID ord = b_marketID b" and sz: "o_Size ord \<noteq> 0" and ipv: "b_auction b \<Longrightarrow> b_ipv b \<noteq> None"
  shows "\<exists>conf b'. finishSubmission (agg, ts, imp, err, b2) = Ret (Inr conf, b') \<and> submitted_ok ord b (Inr conf, b')"
proof -
  let ?rest = "IsPersistent agg \<and> err = None"
  obtain r b3 where rest: "submitRest agg err b2 = Ret (r, b3)" and auc: "b_auction b3 = b_auction b"
    and r: "if ?rest
       then settling {r} imp b3 \<and> o_Status r = OrderStatusActive \<and> mset (book_orders b3) = add_mset r (mset (book_orders b2))
         \<and> quote r = (o_ID ord, o_Side ord, o_Price ord, unat (o_Remaining agg))
       else settling {} imp b3 \<and> book_orders b3 = book_orders b2 \<and> o_Status (washStatus err r) \<noteq> OrderStatusActive"
    using submitRest_settles [OF assms] by blast
  define new where "new = (if ?rest then {r} else {})"
  have "settling new imp b3" using r by (simp add: new_def split: if_splits)
  then obtain imp' b4 where ref: "refreshImpacted imp b3 = Ret (imp', b4)" and st4: "settling new [] b4"
    and q4: "quotes b4 = quotes b3" and pl: "same_place b3 b4"
    using refreshImpacted_settles by blast
  have vol: "volumeOf (book_orders b2) + tradedVolume ts = volumeOf (book_orders b)"
    "unat (o_Remaining agg) + tradedVolume ts = unat (o_Remaining ord)"
    and len: "length (book_orders b2) \<le> length (book_orders b)" and q: "\<forall>x \<in> set (book_orders b2). quoted_in b x"
    and beyond: "\<not> b_auction b \<and> o_TimeInForce ord \<noteq> OrderTimeInForceFOK \<and> err = None \<and> o_Remaining agg \<noteq> 0 \<longrightarrow>
        (\<forall>x \<in> set (book_orders b2). o_Side x = otherSide (o_Side ord) \<longrightarrow> \<not> crosses ord (o_Price x))"
    using mr by (simp_all add: match_result_def)
  have tif: "o_TimeInForce agg = o_TimeInForce ord"
    using mr by (auto simp: match_result_def)
  have v4: "volumeOf (book_orders b4) = volumeOf (book_orders b3)" "length (book_orders b4) = length (book_orders b3)"
    "not_crossed b4 = not_crossed b3" "o_ID ` set (book_orders b4) = o_ID ` set (book_orders b3)"
    using q4 by (simp_all add: volumeOf_quotes length_quotes not_crossed_quotes ids_quotes)
  have ids: "o_ID ` set (book_orders b2) \<subseteq> o_ID ` set (book_orders b)" using quoted_ids q by blast
  show ?thesis
  proof (cases ?rest)
    case True
    hence r3: "o_Status r = OrderStatusActive" "mset (book_orders b3) = mset (r # book_orders b2)"
      "quote r = (o_ID ord, o_Side ord, o_Price ord, unat (o_Remaining agg))" and err: "err = None"
      and "settling {r} [] b4"
      using r st4 by (simp_all add: new_def)
    have on: "r \<in> set (book_orders b4)" "\<not> o_GeneratedOffbook r"
      using \<open>settling {r} [] b4\<close> by (auto simp: settling_def standing_def)
    have ids4: "o_ID ` set (book_orders b4) \<subseteq> insert (o_ID ord) (o_ID ` set (book_orders b))"
      unfolding v4(4) mset_eq_setD [OF r3(2)] using ids r3(3) by (auto simp: quote_def)
    have "not_crossed b3" if "\<not> b_auction b" "not_crossed b"
      using True beyond tif that r3 not_crossed_match [OF that(2) q]
      by (intro not_crossed_rest [of b2 b3 r ord]) (auto simp: IsPersistent_def quote_def word_gt_0)
    hence "submitted_ok ord b (Inr \<lparr>oc_Order = r, oc_Trades = ts, oc_PassiveOrdersAffected = imp'\<rparr>,
        if b_auction b then added r b4 else (added r b4)\<lparr>b_offbook := uncrossFinished None (b_offbook (added r b4))\<rparr>)"
      using settling_added [OF \<open>settling {r} [] b4\<close>] v4 vol len r3 on auc pl ids4
        volumeOf_cong [OF r3(2)] mset_eq_length [OF r3(2)]
      by (simp add: submitted_ok_def offbook_cong not_crossed_def quote_def)
    thus ?thesis
      using rest ref r3(1) err on auc pl by (simp add: finishSubmission_def washStatus_def b_add_Ret Let_def)
  next
    case False
    hence r3: "book_orders b3 = book_orders b2" "o_Status (washStatus err r) \<noteq> OrderStatusActive" and "coherent b4"
      using r st4 by (auto simp: new_def coherent_settling split: if_splits)
    have "not_crossed b3" if "not_crossed b"
      using not_crossed_match [OF that q] r3(1) by (simp add: not_crossed_def)
    hence "submitted_ok ord b (Inr \<lparr>oc_Order = washStatus err r, oc_Trades = ts, oc_PassiveOrdersAffected = imp'\<rparr>,
        if b_auction b then b4 else b4\<lparr>b_offbook := uncrossFinished None (b_offbook b4)\<rparr>)"
      using \<open>coherent b4\<close> v4 vol len r3 auc pl ids by (auto simp: submitted_ok_def offbook_cong)
    thus ?thesis using rest ref r3(2) auc pl by (simp add: finishSubmission_def Let_def)
  qed
qed

lemma SubmitOrder_ok:
  assumes co: "coherent b" and dd: "decimal_div ddiv" and sub: "submission ord"
    and fresh: "map_of (b_ordersByID b) (o_ID ord) = None"
    and room: "length (book_orders b) < 2 * 10 ^ 16" "length (book_orders b) < fuel"
      "volumeOf (book_orders b) + unat (o_Remaining ord) < 2 ^ 63"
    and ipv: "b_auction b \<Longrightarrow> b_ipv b \<noteq> None"
  shows "\<exists>res. SubmitOrder fuel ddiv None ord b = Ret res \<and> submitted_ok ord b res"
proof (cases "validateOrder ord b")
  case (Some err)
  thus ?thesis using co by (auto simp: SubmitOrder_def submitted_ok_def)
next
  case None
  let ?b = "b\<lparr>b_latestTimestamp := max (o_CreatedAt ord) (b_latestTimestamp b)\<rparr>"
  let ?ord = "ord\<lparr>o_BatchID := b_batchID b\<rparr>"
  have mk: "o_MarketID ord = b_marketID b" "o_Size ord \<noteq> 0"
    using None by (auto simp: validateOrder_def split: if_splits)
  have books: "book_orders ?b = book_orders b" by (simp add: book_orders_def)
  have "coherent ?b" using co by (subst coherent_cong [of _ b]) simp_all
  moreover have sub': "submission ?ord" using sub by (simp add: submission_def standing_def reserveOf_def)
  ultimately obtain r where r: "submitUncross fuel ddiv None ?ord ?b = Ret r" "match_result ?ord ?b r"
    using submitUncross_matches [of ?b ddiv ?ord fuel] dd room books by auto
  obtain agg ts imp err b2 where req: "r = (agg, ts, imp, err, b2)" by (cases r)
  have "o_ID ?ord \<notin> o_ID ` set (book_orders ?b)"
    using fresh tables_fresh [of b "set (book_orders b)"] co by (simp add: coherent_def books)
  from finishSubmission_ok [OF r(2) [unfolded req] sub' this] obtain conf b'
    where fin: "finishSubmission r = Ret (Inr conf, b')" and ok: "submitted_ok ?ord ?b (Inr conf, b')"
    using room mk ipv books req by auto
  have "SubmitOrder fuel ddiv None ord b = gbind (submitUncross fuel ddiv None ?ord ?b) finishSubmission"
    using None fresh by (simp add: SubmitOrder_def finishSubmission_def Let_def)
  moreover have "submitted_ok ord b (Inr conf, b')"
    using ok by (simp add: submitted_ok_def books not_crossed_def)
  ultimately show ?thesis using r(1) fin by simp
qed

end
