(* ===== verification/Book_Runs.thy ===== *)
theory Book_Runs
  imports Book_Submission
begin

text \<open>
  The order book under any sequence of submissions and cancellations in continuous trading
  (\<^verbatim>\<open>core/matching/orderbook.go\<close>): no call panics, the sides and the tables stay two views of the
  same orders, and no buy order ever rests at or above a sell order.
\<close>

section \<open>Submitting and cancelling\<close>

text \<open>
  C1: submitting an order to a coherent book returns, whether the order is rejected, trades, rests
  or does both. The book stays coherent: the levels of both sides are sorted and hold the volumes
  they claim, the tables by identifier, by party and of pegged orders hold exactly the orders on the
  sides, every resting order has visible volume. A rejected order changes nothing; otherwise the
  volume on the book afterwards is the volume before, less what was traded, plus what is left of
  the submitted order if it rests.
\<close>

theorem SubmitOrder_coherent:
  assumes "coherent b" and "decimal_div ddiv" and "submission ord" and "map_of (b_ordersByID b) (o_ID ord) = None"
    and "length (book_orders b) < 2 * 10 ^ 16" and "length (book_orders b) < fuel"
    and "volumeOf (book_orders b) + unat (o_Remaining ord) < 2 ^ 63"
    and "b_auction b \<Longrightarrow> b_ipv b \<noteq> None"
  shows "\<exists>res b'. SubmitOrder fuel ddiv None ord b = Ret (res, b') \<and> coherent b'
    \<and> (case res of
         Inl err \<Rightarrow> b' = b
       | Inr conf \<Rightarrow>
           volumeOf (book_orders b') + tradedVolume (oc_Trades conf)
             = volumeOf (book_orders b)
               + (if o_Status (oc_Order conf) = OrderStatusActive then trueRem (oc_Order conf) else 0)
           \<and> tradedVolume (oc_Trades conf) \<le> unat (o_Remaining ord)
           \<and> (o_Status (oc_Order conf) = OrderStatusActive \<longrightarrow> oc_Order conf \<in> set (book_orders b')))"
proof -
  obtain res where "SubmitOrder fuel ddiv None ord b = Ret res" "submitted_ok ord b res"
    using SubmitOrder_ok [OF assms] by blast
  thus ?thesis
    by (intro exI [of _ "fst res"] exI [of _ "snd res"])
      (auto simp: submitted_ok_def Let_def case_prod_unfold split: sum.splits)
qed

section \<open>Sequences of calls\<close>

datatype bookOp = Submit Order | Cancel string

text \<open>A cancellation looks the order up by its identifier first, as the market does.\<close>

fun bookStep :: "nat \<Rightarrow> (rat \<Rightarrow> rat \<Rightarrow> rat) \<Rightarrow> bookOp \<Rightarrow> 's OrderBook \<Rightarrow> (string, 's OrderBook) go" where
  "bookStep fuel ddiv (Submit ord) b = gbind (SubmitOrder fuel ddiv None ord b) (\<lambda>(_, b). Ret b)"
| "bookStep fuel ddiv (Cancel oid) b =
     (case GetOrderByID oid b of
        Inl _ \<Rightarrow> Ret b
      | Inr ord \<Rightarrow> gbind (CancelOrder ord b) (\<lambda>(_, b). Ret b))"

fun bookRun :: "nat \<Rightarrow> (rat \<Rightarrow> rat \<Rightarrow> rat) \<Rightarrow> bookOp list \<Rightarrow> 's OrderBook \<Rightarrow> (string, 's OrderBook) go" where
  "bookRun fuel ddiv [] b = Ret b"
| "bookRun fuel ddiv (c # cs) b = gbind (bookStep fuel ddiv c b) (bookRun fuel ddiv cs)"

fun submittedOrders :: "bookOp list \<Rightarrow> Order list" where
  "submittedOrders [] = []"
| "submittedOrders (Submit ord # cs) = ord # submittedOrders cs"
| "submittedOrders (Cancel oid # cs) = submittedOrders cs"

definition submittedVolume :: "bookOp list \<Rightarrow> nat" where
  "submittedVolume cs = sum_list (map (\<lambda>ord. unat (o_Remaining ord)) (submittedOrders cs))"

lemma submittedVolume_simps [simp]:
  "submittedVolume [] = 0" "submittedVolume (Submit ord # cs) = unat (o_Remaining ord) + submittedVolume cs"
  "submittedVolume (Cancel oid # cs) = submittedVolume cs"
  by (simp_all add: submittedVolume_def)

text \<open>A book in continuous trading that can take the calls \<open>cs\<close>.\<close>

definition trading :: "nat \<Rightarrow> bookOp list \<Rightarrow> 's OrderBook \<Rightarrow> bool" where
  "trading fuel cs b \<longleftrightarrow> coherent b \<and> not_crossed b \<and> \<not> b_auction b
     \<and> (\<forall>ord \<in> set (submittedOrders cs). submission ord)
     \<and> distinct (map o_ID (submittedOrders cs)) \<and> o_ID ` set (submittedOrders cs) \<inter> o_ID ` set (book_orders b) = {}
     \<and> length (book_orders b) + length cs < 2 * 10 ^ 16 \<and> length (book_orders b) + length cs < fuel
     \<and> volumeOf (book_orders b) + submittedVolume cs < 2 ^ 63"

lemma coherent_NewOrderBook: "coherent (NewOrderBook m False st)" "not_crossed (NewOrderBook m False st)"
  by (simp_all add: coherent_def sides_ok_def side_ok_def levels_ok_def tables_def book_orders_def idsOf_def
      NewOrderBook_def not_crossed_def)

lemma mset_subset_book:
  assumes "mset (book_orders b) = add_mset x (mset (book_orders b'))"
  shows "set (book_orders b') \<subseteq> set (book_orders b)" and "length (book_orders b') \<le> length (book_orders b)"
    and "volumeOf (book_orders b') \<le> volumeOf (book_orders b)"
  using assms mset_eq_length [of "book_orders b" "x # book_orders b'"] volumeOf_cong [of "book_orders b" "x # book_orders b'"]
    mset_eq_setD [of "book_orders b" "x # book_orders b'"] by auto

lemma not_crossed_subset: "not_crossed b \<Longrightarrow> set (book_orders b') \<subseteq> set (book_orders b) \<Longrightarrow> not_crossed b'"
  unfolding not_crossed_def by (meson subsetD)

lemma trading_step:
  assumes tr: "trading fuel (c # cs) b" and dd: "decimal_div ddiv"
  shows "\<exists>b'. bookStep fuel ddiv c b = Ret b' \<and> trading fuel cs b'"
proof (cases c)
  case (Submit ord)
  have "o_ID ord \<notin> o_ID ` set (book_orders b)" and co: "coherent b" using tr Submit by (auto simp: trading_def)
  hence "map_of (b_ordersByID b) (o_ID ord) = None"
    using tables_fresh [of b "set (book_orders b)"] by (simp add: coherent_def)
  then obtain res b' where r: "SubmitOrder fuel ddiv None ord b = Ret (res, b')" and ok: "submitted_ok ord b (res, b')"
    using SubmitOrder_ok [OF co dd, of ord fuel] tr Submit by (auto simp: trading_def)
  have "volumeOf (book_orders b') \<le> volumeOf (book_orders b) + unat (o_Remaining ord)"
    using ok by (auto simp: submitted_ok_def Let_def split: sum.splits)
  moreover have "o_ID ` set (submittedOrders cs) \<inter> o_ID ` set (book_orders b') = {}"
  proof -
    have "o_ID ` set (book_orders b') \<subseteq> insert (o_ID ord) (o_ID ` set (book_orders b))"
      using ok by (simp add: submitted_ok_def)
    moreover have "o_ID ` set (submittedOrders cs) \<inter> insert (o_ID ord) (o_ID ` set (book_orders b)) = {}"
      using tr Submit by (simp add: trading_def)
    ultimately show ?thesis by blast
  qed
  moreover have "length (book_orders b') \<le> Suc (length (book_orders b))"
    "coherent b'" "not_crossed b'" "\<not> b_auction b'"
    using ok tr by (simp_all add: submitted_ok_def trading_def)
  ultimately have "trading fuel cs b'" using tr Submit by (auto simp: trading_def)
  thus ?thesis using r Submit by simp
next
  case (Cancel oid)
  show ?thesis
  proof (cases "GetOrderByID oid b")
    case (Inl e)
    thus ?thesis using tr Cancel by (simp add: trading_def)
  next
    case (Inr ord)
    obtain conf b' where c: "CancelOrder ord b = Ret (conf, b')" "coherent b'" "same_place b b'"
      and m: "mset (book_orders b) = add_mset ord (mset (book_orders b'))"
      using CancelOrder_ok [OF _ _ Inr] tr by (auto simp: trading_def)
    have "not_crossed b'" by (rule not_crossed_subset [OF _ mset_subset_book(1) [OF m]]) (use tr in \<open>simp add: trading_def\<close>)
    hence "trading fuel cs b'" using tr Cancel c mset_subset_book [OF m] by (auto simp: trading_def)
    thus ?thesis using Cancel Inr c(1) by simp
  qed
qed

lemma trading_run:
  "trading fuel cs b \<Longrightarrow> decimal_div ddiv \<Longrightarrow> \<exists>b'. bookRun fuel ddiv cs b = Ret b' \<and> trading fuel [] b'"
proof (induction cs arbitrary: b)
  case (Cons c cs)
  thus ?case using trading_step [OF Cons.prems] by fastforce
qed simp

text \<open>
  C2: the book is never crossed. Whatever orders are submitted to a new book and cancelled in
  continuous trading, in whatever sequence, no call panics, the book stays coherent, and every
  resting buy order is priced below every resting sell order. The identifiers are distinct, the
  total submitted volume stays below 2^63 and the fuel exceeds the number of calls.
\<close>

theorem book_never_crossed:
  assumes "decimal_div ddiv" and "\<forall>ord \<in> set (submittedOrders cs). submission ord"
    and "distinct (map o_ID (submittedOrders cs))" and "submittedVolume cs < 2 ^ 63"
    and "length cs < 2 * 10 ^ 16" and "length cs < fuel"
  shows "\<exists>b. bookRun fuel ddiv cs (NewOrderBook marketID False st) = Ret b \<and> coherent b \<and> not_crossed b"
proof -
  have "book_orders (NewOrderBook marketID False st) = []" "\<not> b_auction (NewOrderBook marketID False st)"
    by (simp_all add: book_orders_def NewOrderBook_def)
  hence "trading fuel cs (NewOrderBook marketID False st)"
    using assms by (simp add: trading_def coherent_NewOrderBook)
  from trading_run [OF this assms(1)] show ?thesis by (auto simp: trading_def)
qed

section \<open>Examples\<close>

definition limit_order :: "string \<Rightarrow> string \<Rightarrow> Side \<Rightarrow> Uint \<Rightarrow> uint64 \<Rightarrow> Order" where
  "limit_order oid party sd price size' = zero_Order\<lparr>o_ID := oid, o_MarketID := ''m'', o_Party := party, o_Side := sd,
     o_Price := price, o_Size := size', o_Remaining := size', o_TimeInForce := OrderTimeInForceGTC,
     o_Type := OrderTypeLimit, o_Status := OrderStatusActive\<rparr>"

definition resting_sell :: Order where
  "resting_sell = limit_order ''a'' ''p1'' SideSell 100 5"

definition sell_book :: "unit OrderBook" where
  "sell_book = (NewOrderBook ''m'' False ())\<lparr>
     b_sell := \<lparr>s_side = SideSell, s_levels = [\<lparr>pl_price = 100, pl_orders = [resting_sell], pl_volume = 5\<rparr>]\<rparr>,
     b_ordersByID := [(''a'', resting_sell)], b_ordersPerParty := [(''p1'', [''a''])]\<rparr>"

lemma submission_limit_order: "sd \<in> {SideBuy, SideSell} \<Longrightarrow> submission (limit_order oid party sd price size')"
  by (simp add: submission_def limit_order_def standing_def reserveOf_def zero_Order_def)

lemma limit_order_simps [simp]:
  "o_ID (limit_order i q sd p v) = i" "o_Party (limit_order i q sd p v) = q" "o_Side (limit_order i q sd p v) = sd"
  "o_Price (limit_order i q sd p v) = p" "o_Remaining (limit_order i q sd p v) = v"
  "o_PeggedOrder (limit_order i q sd p v) = None" "trueRem (limit_order i q sd p v) = unat v"
  "standing ''m'' (limit_order i q sd p v)"
  by (simp_all add: limit_order_def zero_Order_def trueRem_def reserveOf_def standing_def)

lemma sell_book_simps [simp]:
  "b_marketID sell_book = ''m''" "b_buy sell_book = \<lparr>s_side = SideBuy, s_levels = []\<rparr>"
  "b_sell sell_book = \<lparr>s_side = SideSell, s_levels = [\<lparr>pl_price = 100, pl_orders = [resting_sell], pl_volume = 5\<rparr>]\<rparr>"
  "b_ordersByID sell_book = [(''a'', resting_sell)]" "b_ordersPerParty sell_book = [(''p1'', [''a''])]"
  "b_auction sell_book = False" "b_peggedOrders sell_book = []" "b_peggedOrdersCount sell_book = 0"
  by (simp_all add: sell_book_def NewOrderBook_def)

lemma sell_book_orders: "book_orders sell_book = [resting_sell]"
  by (simp add: book_orders_def)

lemma tables_sell_book: "tables sell_book {resting_sell}"
  by (auto simp: tables_def idsOf_def resting_sell_def)

lemma coherent_sell_book: "coherent sell_book"
  using tables_sell_book
  by (simp add: coherent_def sides_ok_def sell_book_orders side_ok_def levels_ok_def level_inv_def)
    (simp add: resting_sell_def)

theorem SubmitOrder_coherent_witness:
  "\<exists>res b'. SubmitOrder 2 dec_round None (limit_order ''b'' ''p2'' SideBuy 101 8) sell_book = Ret (res, b') \<and> coherent b'
    \<and> (case res of
         Inl err \<Rightarrow> b' = sell_book
       | Inr conf \<Rightarrow>
           volumeOf (book_orders b') + tradedVolume (oc_Trades conf)
             = volumeOf (book_orders sell_book)
               + (if o_Status (oc_Order conf) = OrderStatusActive then trueRem (oc_Order conf) else 0)
           \<and> tradedVolume (oc_Trades conf) \<le> unat (o_Remaining (limit_order ''b'' ''p2'' SideBuy 101 8))
           \<and> (o_Status (oc_Order conf) = OrderStatusActive \<longrightarrow> oc_Order conf \<in> set (book_orders b')))"
  by (rule SubmitOrder_coherent [OF coherent_sell_book decimal_div_dec_round submission_limit_order])
    (simp_all add: sell_book_orders, simp_all add: resting_sell_def)

theorem book_never_crossed_witness:
  "\<exists>b. bookRun 5 dec_round [Submit (limit_order ''a'' ''p1'' SideSell 100 5), Submit (limit_order ''b'' ''p2'' SideBuy 101 8),
      Submit (limit_order ''c'' ''p1'' SideSell 100 9), Cancel ''c''] (NewOrderBook ''m'' False ()) = Ret b
    \<and> coherent b \<and> not_crossed b"
  by (rule book_never_crossed [OF decimal_div_dec_round])
    (simp_all add: submission_limit_order)

end
