(* ===== verification/Auction_State.thy ===== *)
theory Auction_State
  imports Vega_Prelude
begin

text \<open>
  The state machine of the auctions of a market (\<^verbatim>\<open>core/monitor/auction.go\<close> and its snapshot
  \<^verbatim>\<open>core/monitor/snapshot.go\<close>). A point in time is the number of nanoseconds since the Unix
  epoch and a duration a 64-bit count of nanoseconds; the length of an auction is a 64-bit count of
  seconds. An event is the record of the arguments of \<^verbatim>\<open>NewAuctionEvent\<close>. Extending an auction that
  has no end dereferences a nil pointer, which is a panic.
\<close>

section \<open>Data\<close>

datatype MarketTradingMode =
    MarketTradingModeUnspecified
  | MarketTradingModeContinuous
  | MarketTradingModeBatchAuction
  | MarketTradingModeOpeningAuction
  | MarketTradingModeMonitoringAuction
  | MarketTradingModeNoTrading
  | MarketTradingModeSuspendedViaGovernance
  | MarketTradingModeLongBlockAuction
  | MarketTradingModeAutomatedPuchaseAuction

datatype AuctionTrigger =
    AuctionTriggerUnspecified
  | AuctionTriggerBatch
  | AuctionTriggerOpening
  | AuctionTriggerPrice
  | AuctionTriggerLiquidityTargetNotMet
  | AuctionTriggerGovernanceSuspension
  | AuctionTriggerUnableToDeployLPOrders
  | AuctionTriggerLongBlock
  | AuctionTriggerAutomatedPurchase

record AuctionDuration =
  ad_Duration :: int64
  ad_Volume :: uint64

record AuctionState =
  a_mode :: MarketTradingMode
  a_defMode :: MarketTradingMode
  a_trigger :: AuctionTrigger
  a_begin :: "time option"
  a_end :: "AuctionDuration option"
  a_start :: bool
  a_stop :: bool
  a_marketID :: string
  a_extension :: "AuctionTrigger option"
  a_extensionEventSent :: bool
  a_maxDuration :: "int64 option"

record AuctionEvent =
  ae_marketID :: string
  ae_auctionStart :: int64
  ae_auctionStop :: int64
  ae_openingAuction :: bool
  ae_leave :: bool
  ae_trigger :: AuctionTrigger
  ae_extension :: AuctionTrigger

definition NewAuctionEvent ::
  "string \<Rightarrow> bool \<Rightarrow> int64 \<Rightarrow> int64 \<Rightarrow> AuctionTrigger list \<Rightarrow> AuctionEvent option" where
  "NewAuctionEvent marketID leave start stop triggers =
     (if triggers = [] then None
      else Some \<lparr>ae_marketID = marketID, ae_auctionStart = start, ae_auctionStop = stop,
                 ae_openingAuction = (hd triggers = AuctionTriggerOpening), ae_leave = leave,
                 ae_trigger = hd triggers,
                 ae_extension = (if length triggers = 2 then triggers ! 1
                                 else AuctionTriggerUnspecified)\<rparr>)"

section \<open>Time\<close>

text \<open>\<open>wholeSeconds d\<close> is \<^verbatim>\<open>int64(d / time.Second)\<close>, which truncates towards zero.\<close>

definition wholeSeconds :: "int64 \<Rightarrow> int64" where
  "wholeSeconds d = sgn d * (\<bar>d\<bar> div 1000000000)"

definition UnixNano :: "time \<Rightarrow> int64" where
  "UnixNano t = i64 t"

section \<open>Starting\<close>

definition NewAuctionState :: "string \<Rightarrow> AuctionDuration option \<Rightarrow> time \<Rightarrow> AuctionState" where
  "NewAuctionState marketID openingAuction now =
     (let s = \<lparr>a_mode = MarketTradingModeOpeningAuction, a_defMode = MarketTradingModeContinuous,
               a_trigger = AuctionTriggerOpening, a_begin = Some now, a_end = None, a_start = True,
               a_stop = False, a_marketID = marketID, a_extension = None,
               a_extensionEventSent = False, a_maxDuration = None\<rparr>
      in case openingAuction of
           None \<Rightarrow>
             (let s = s\<lparr>a_mode := a_defMode s\<rparr>
              in if a_mode s = MarketTradingModeBatchAuction then s
                 else s\<lparr>a_begin := None, a_start := False, a_trigger := AuctionTriggerUnspecified\<rparr>)
         | Some d \<Rightarrow> s\<lparr>a_end := Some d\<rparr>)"

definition startLiquidityAuction ::
  "time \<Rightarrow> AuctionDuration option \<Rightarrow> AuctionTrigger \<Rightarrow> AuctionState \<Rightarrow> AuctionState" where
  "startLiquidityAuction t d trigger a =
     a\<lparr>a_mode := MarketTradingModeMonitoringAuction, a_trigger := trigger, a_start := True,
       a_stop := False, a_begin := Some t, a_end := d\<rparr>"

definition StartLiquidityAuctionUnmetTarget ::
  "time \<Rightarrow> AuctionDuration option \<Rightarrow> AuctionState \<Rightarrow> AuctionState" where
  "StartLiquidityAuctionUnmetTarget t d a =
     startLiquidityAuction t d AuctionTriggerLiquidityTargetNotMet a"

definition StartPriceAuction :: "time \<Rightarrow> AuctionDuration option \<Rightarrow> AuctionState \<Rightarrow> AuctionState" where
  "StartPriceAuction t d a =
     a\<lparr>a_mode := MarketTradingModeMonitoringAuction, a_trigger := AuctionTriggerPrice,
       a_start := True, a_stop := False, a_begin := Some t, a_end := d\<rparr>"

definition StartLongBlockAuction :: "time \<Rightarrow> int64 \<Rightarrow> AuctionState \<Rightarrow> AuctionState" where
  "StartLongBlockAuction t d a =
     a\<lparr>a_mode := MarketTradingModeLongBlockAuction, a_trigger := AuctionTriggerLongBlock,
       a_start := True, a_stop := False, a_begin := Some t,
       a_end := Some \<lparr>ad_Duration = d, ad_Volume = 0\<rparr>\<rparr>"

definition StartAutomatedPurchaseAuction :: "time \<Rightarrow> int64 \<Rightarrow> AuctionState \<Rightarrow> AuctionState" where
  "StartAutomatedPurchaseAuction t d a =
     a\<lparr>a_mode := MarketTradingModeAutomatedPuchaseAuction,
       a_trigger := AuctionTriggerAutomatedPurchase, a_start := True, a_stop := False,
       a_begin := Some t, a_end := Some \<lparr>ad_Duration = d, ad_Volume = 0\<rparr>\<rparr>"

definition StartGovernanceSuspensionAuction :: "time \<Rightarrow> AuctionState \<Rightarrow> AuctionState" where
  "StartGovernanceSuspensionAuction t a =
     a\<lparr>a_mode := MarketTradingModeSuspendedViaGovernance,
       a_trigger := AuctionTriggerGovernanceSuspension, a_start := True, a_stop := False,
       a_begin := Some t, a_end := Some \<lparr>ad_Duration = 0, ad_Volume = 0\<rparr>\<rparr>"

definition StartOpeningAuction :: "time \<Rightarrow> AuctionDuration option \<Rightarrow> AuctionState \<Rightarrow> AuctionState" where
  "StartOpeningAuction t d a =
     a\<lparr>a_mode := MarketTradingModeOpeningAuction, a_trigger := AuctionTriggerOpening,
       a_start := True, a_stop := False, a_begin := Some t, a_end := d\<rparr>"

section \<open>Extending and ending\<close>

definition ExtensionTrigger :: "AuctionState \<Rightarrow> AuctionTrigger" where
  "ExtensionTrigger a = (case a_extension a of None \<Rightarrow> AuctionTriggerUnspecified | Some t \<Rightarrow> t)"

definition EndGovernanceSuspensionAuction :: "AuctionState \<Rightarrow> AuctionState" where
  "EndGovernanceSuspensionAuction a =
     (if a_trigger a = AuctionTriggerGovernanceSuspension then
        (case a_extension a of
           None \<Rightarrow>
             a\<lparr>a_mode := MarketTradingModeContinuous, a_trigger := AuctionTriggerUnspecified,
               a_start := False, a_stop := True, a_begin := None, a_end := None\<rparr>
         | Some ext \<Rightarrow>
             a\<lparr>a_mode := MarketTradingModeMonitoringAuction, a_trigger := ext, a_extension := None\<rparr>)
      else if ExtensionTrigger a = AuctionTriggerGovernanceSuspension then a\<lparr>a_extension := None\<rparr>
      else a)"

definition ExtendAuction :: "AuctionDuration \<Rightarrow> AuctionState \<Rightarrow> (string, AuctionState) go" where
  "ExtendAuction delta a =
     (case a_end a of
        None \<Rightarrow> Panic ''invalid memory address or nil pointer dereference''
      | Some d \<Rightarrow>
          Ret (a\<lparr>a_end := Some \<lparr>ad_Duration = i64 (ad_Duration d + ad_Duration delta),
                                ad_Volume = ad_Volume d + ad_Volume delta\<rparr>,
                 a_stop := False\<rparr>))"

definition ExtendAuctionPrice :: "AuctionDuration \<Rightarrow> AuctionState \<Rightarrow> (string, AuctionState) go" where
  "ExtendAuctionPrice delta a = ExtendAuction delta (a\<lparr>a_extension := Some AuctionTriggerPrice\<rparr>)"

definition ExtendAuctionLongBlock ::
  "AuctionDuration \<Rightarrow> AuctionState \<Rightarrow> (string, AuctionState) go" where
  "ExtendAuctionLongBlock delta a =
     ExtendAuction delta
       (if a_trigger a \<noteq> AuctionTriggerLongBlock
        then a\<lparr>a_extension := Some AuctionTriggerLongBlock\<rparr> else a)"

definition ExtendAuctionAutomatedPurchase ::
  "AuctionDuration \<Rightarrow> AuctionState \<Rightarrow> (string, AuctionState) go" where
  "ExtendAuctionAutomatedPurchase delta a =
     ExtendAuction delta
       (if a_trigger a \<noteq> AuctionTriggerAutomatedPurchase
        then a\<lparr>a_extension := Some AuctionTriggerAutomatedPurchase\<rparr> else a)"

definition ExtendAuctionSuspension ::
  "AuctionDuration \<Rightarrow> AuctionState \<Rightarrow> (string, AuctionState) go" where
  "ExtendAuctionSuspension delta a =
     ExtendAuction delta (a\<lparr>a_extension := Some AuctionTriggerGovernanceSuspension\<rparr>)"

definition SetReadyToLeave :: "AuctionState \<Rightarrow> AuctionState" where
  "SetReadyToLeave a =
     (if a_trigger a = AuctionTriggerGovernanceSuspension then a
      else a\<lparr>a_maxDuration := None, a_stop := True\<rparr>)"

section \<open>Queries\<close>

definition GetAuctionBegin :: "AuctionState \<Rightarrow> time option" where
  "GetAuctionBegin a = a_begin a"

definition GetAuctionEnd :: "AuctionState \<Rightarrow> time option" where
  "GetAuctionEnd a =
     (case (a_begin a, a_end a) of
        (Some b, Some d) \<Rightarrow> Some (b + seconds (ad_Duration d))
      | _ \<Rightarrow> None)"

definition Duration :: "AuctionState \<Rightarrow> AuctionDuration" where
  "Duration a = (case a_end a of None \<Rightarrow> \<lparr>ad_Duration = 0, ad_Volume = 0\<rparr> | Some d \<Rightarrow> d)"

definition Start :: "AuctionState \<Rightarrow> time" where
  "Start a = (case a_begin a of None \<Rightarrow> zeroTime | Some t \<Rightarrow> t)"

definition ExpiresAt :: "AuctionState \<Rightarrow> time option" where
  "ExpiresAt a =
     (case (a_begin a, a_end a) of
        (Some b, Some d) \<Rightarrow>
          (if ad_Duration d = 0 then None else Some (b + seconds (ad_Duration d)))
      | _ \<Rightarrow> None)"

definition InAuction :: "AuctionState \<Rightarrow> bool" where
  "InAuction a \<longleftrightarrow> \<not> a_start a \<and> a_trigger a \<noteq> AuctionTriggerUnspecified"

definition IsOpeningAuction :: "AuctionState \<Rightarrow> bool" where
  "IsOpeningAuction a \<longleftrightarrow> a_trigger a = AuctionTriggerOpening"

definition IsPriceAuction :: "AuctionState \<Rightarrow> bool" where
  "IsPriceAuction a \<longleftrightarrow> a_trigger a = AuctionTriggerPrice"

definition IsPriceExtension :: "AuctionState \<Rightarrow> bool" where
  "IsPriceExtension a \<longleftrightarrow> a_extension a = Some AuctionTriggerPrice"

definition IsFBA :: "AuctionState \<Rightarrow> bool" where
  "IsFBA a \<longleftrightarrow> a_trigger a = AuctionTriggerBatch"

definition IsMonitorAuction :: "AuctionState \<Rightarrow> bool" where
  "IsMonitorAuction a \<longleftrightarrow>
     a_trigger a = AuctionTriggerPrice \<or> a_trigger a = AuctionTriggerLiquidityTargetNotMet
     \<or> a_trigger a = AuctionTriggerUnableToDeployLPOrders"

definition IsPAPAuction :: "AuctionState \<Rightarrow> bool" where
  "IsPAPAuction a \<longleftrightarrow> a_trigger a = AuctionTriggerAutomatedPurchase"

definition CanLeave :: "AuctionState \<Rightarrow> bool" where
  "CanLeave a = a_stop a"

definition AuctionStart :: "AuctionState \<Rightarrow> bool" where
  "AuctionStart a = a_start a"

section \<open>Confirmations by the market\<close>

text \<open>The end that an event reports: zero when the auction has no time limit.\<close>

definition eventEnd :: "time \<Rightarrow> AuctionDuration option \<Rightarrow> int64" where
  "eventEnd b e =
     (case e of
        None \<Rightarrow> 0
      | Some d \<Rightarrow> (if ad_Duration d > 0 then UnixNano (b + seconds (ad_Duration d)) else 0))"

definition AuctionExtended :: "time \<Rightarrow> AuctionState \<Rightarrow> AuctionEvent option \<times> AuctionState" where
  "AuctionExtended now a =
     (case a_extension a of
        None \<Rightarrow> (None, a)
      | Some ext \<Rightarrow>
          if a_extensionEventSent a then (None, a)
          else
            (let b = (case a_begin a of None \<Rightarrow> now | Some b \<Rightarrow> b) in
             (NewAuctionEvent (a_marketID a) False (UnixNano b) (eventEnd b (a_end a)) [a_trigger a, ext],
              a\<lparr>a_start := False, a_begin := Some b, a_extensionEventSent := True\<rparr>)))"

definition AuctionStarted :: "time \<Rightarrow> AuctionState \<Rightarrow> AuctionEvent option \<times> AuctionState" where
  "AuctionStarted now a =
     (let b = (case a_begin a of
                 None \<Rightarrow> now
               | Some b \<Rightarrow> if a_trigger a = AuctionTriggerOpening \<and> b < now then now else b)
      in (NewAuctionEvent (a_marketID a) False (UnixNano b) (eventEnd b (a_end a)) [a_trigger a],
          a\<lparr>a_start := False, a_begin := Some b\<rparr>))"

definition Left :: "time \<Rightarrow> AuctionState \<Rightarrow> AuctionEvent option \<times> AuctionState" where
  "Left now a =
     (let start = (case a_begin a of None \<Rightarrow> 0 | Some b \<Rightarrow> UnixNano b);
          evt = NewAuctionEvent (a_marketID a) True start (UnixNano now) [a_trigger a];
          a = a\<lparr>a_start := False, a_stop := False, a_begin := None, a_end := None,
                a_trigger := AuctionTriggerUnspecified, a_extension := None, a_mode := a_defMode a\<rparr>
      in (evt, if a_mode a = MarketTradingModeBatchAuction
               then a\<lparr>a_trigger := AuctionTriggerBatch\<rparr> else a))"

definition UpdateMinDuration :: "int64 \<Rightarrow> AuctionState \<Rightarrow> AuctionEvent option \<times> AuctionState" where
  "UpdateMinDuration d a =
     (case (ExpiresAt a, a_begin a, a_end a) of
        (Some oldExp, Some b, Some e) \<Rightarrow>
          (if b + d > oldExp
           then (NewAuctionEvent (a_marketID a) False (UnixNano b) (UnixNano (b + d)) [a_trigger a],
                 a\<lparr>a_end := Some (e\<lparr>ad_Duration := wholeSeconds d\<rparr>)\<rparr>)
           else (None, a))
      | _ \<Rightarrow> (None, a))"

definition UpdateMaxDuration :: "int64 \<Rightarrow> AuctionState \<Rightarrow> AuctionState" where
  "UpdateMaxDuration d a =
     (if a_trigger a = AuctionTriggerOpening then a\<lparr>a_maxDuration := Some d\<rparr> else a)"

definition ExceededMaxOpening :: "time \<Rightarrow> AuctionState \<Rightarrow> bool" where
  "ExceededMaxOpening now a =
     (case (a_begin a, a_maxDuration a) of
        (Some b, Some mx) \<Rightarrow>
          a_trigger a = AuctionTriggerOpening \<and>
          (let minTo = (case a_end a of
                          None \<Rightarrow> now
                        | Some d \<Rightarrow> if ad_Duration d > 0 then b + seconds (ad_Duration d) else now);
               validTo = b + mx
           in validTo < now \<or> minTo > validTo)
      | _ \<Rightarrow> False)"

section \<open>Snapshots\<close>

text \<open>The exchange type \<^verbatim>\<open>types.AuctionState\<close>, in which absent values are zero values.\<close>

record AuctionSnapshot =
  as_Mode :: MarketTradingMode
  as_DefaultMode :: MarketTradingMode
  as_Begin :: time
  as_Trigger :: AuctionTrigger
  as_End :: "AuctionDuration option"
  as_Start :: bool
  as_Stop :: bool
  as_Extension :: AuctionTrigger
  as_ExtensionEventSent :: bool

definition GetState :: "AuctionState \<Rightarrow> AuctionSnapshot" where
  "GetState a =
     \<lparr>as_Mode = a_mode a, as_DefaultMode = a_defMode a,
      as_Begin = (case a_begin a of None \<Rightarrow> zeroTime | Some b \<Rightarrow> b),
      as_Trigger = a_trigger a, as_End = a_end a, as_Start = a_start a, as_Stop = a_stop a,
      as_Extension = (case a_extension a of None \<Rightarrow> AuctionTriggerUnspecified | Some t \<Rightarrow> t),
      as_ExtensionEventSent = a_extensionEventSent a\<rparr>"

definition NewAuctionStateFromSnapshot :: "string \<Rightarrow> AuctionSnapshot \<Rightarrow> AuctionState" where
  "NewAuctionStateFromSnapshot marketID s =
     \<lparr>a_mode = as_Mode s, a_defMode = as_DefaultMode s, a_trigger = as_Trigger s,
      a_begin = (if as_Begin s = zeroTime then None else Some (as_Begin s)),
      a_end = as_End s, a_start = as_Start s, a_stop = as_Stop s, a_marketID = marketID,
      a_extension = (if as_Extension s = AuctionTriggerUnspecified then None
                     else Some (as_Extension s)),
      a_extensionEventSent = as_ExtensionEventSent s, a_maxDuration = None\<rparr>"

text \<open>
  The snapshot is stored as a protobuf message that holds the begin as a 64-bit count of nanoseconds
  (\<^verbatim>\<open>core/types/snapshot_nodes.go\<close>). The count wraps for times that do not fit, as \<^verbatim>\<open>Time.UnixNano\<close> does,
  among them the zero time; \<^verbatim>\<open>time.Unix(0, n)\<close> is the time \<open>n\<close> nanoseconds after the epoch.
\<close>

record AuctionProto =
  ap_Mode :: MarketTradingMode
  ap_DefaultMode :: MarketTradingMode
  ap_Trigger :: AuctionTrigger
  ap_Begin :: int64
  ap_End :: "AuctionDuration option"
  ap_Start :: bool
  ap_Stop :: bool
  ap_Extension :: AuctionTrigger
  ap_ExtensionEventSent :: bool

definition AuctionIntoProto :: "AuctionSnapshot \<Rightarrow> AuctionProto" where
  "AuctionIntoProto a =
     \<lparr>ap_Mode = as_Mode a, ap_DefaultMode = as_DefaultMode a, ap_Trigger = as_Trigger a,
      ap_Begin = UnixNano (as_Begin a), ap_End = as_End a, ap_Start = as_Start a, ap_Stop = as_Stop a,
      ap_Extension = as_Extension a, ap_ExtensionEventSent = as_ExtensionEventSent a\<rparr>"

definition AuctionStateFromProto :: "AuctionProto \<Rightarrow> AuctionSnapshot" where
  "AuctionStateFromProto p =
     \<lparr>as_Mode = ap_Mode p, as_DefaultMode = ap_DefaultMode p, as_Begin = ap_Begin p, as_Trigger = ap_Trigger p,
      as_End = ap_End p, as_Start = ap_Start p, as_Stop = ap_Stop p, as_Extension = ap_Extension p,
      as_ExtensionEventSent = ap_ExtensionEventSent p\<rparr>"

end
