(* ===== verification/Auction_State_Props.thy ===== *)
theory Auction_State_Props
  imports Auction_State
begin

text \<open>
  Properties of the auctions of a market. The calls that the monitoring engines and the market make
  are a datatype, so that an interleaving of them is a list; \<open>reachable\<close> holds of the states that such
  calls lead to from a new market.
\<close>

section \<open>Interleavings of calls\<close>

datatype AuctionOp =
    OpLiquidity time AuctionDuration
  | OpPrice time AuctionDuration
  | OpLongBlock time int64
  | OpAutomatedPurchase time int64
  | OpGovernance time
  | OpOpening time AuctionDuration
  | OpEndGovernance
  | OpExtendPrice AuctionDuration
  | OpExtendLongBlock AuctionDuration
  | OpExtendAutomatedPurchase AuctionDuration
  | OpExtendSuspension AuctionDuration
  | OpReadyToLeave
  | OpExtended time
  | OpStarted time
  | OpLeft time
  | OpMinDuration int64
  | OpMaxDuration int64

fun callOp :: "AuctionOp \<Rightarrow> AuctionState \<Rightarrow> (string, AuctionState) go" where
  "callOp (OpLiquidity t d) a = Ret (StartLiquidityAuctionUnmetTarget t (Some d) a)"
| "callOp (OpPrice t d) a = Ret (StartPriceAuction t (Some d) a)"
| "callOp (OpLongBlock t n) a = Ret (StartLongBlockAuction t n a)"
| "callOp (OpAutomatedPurchase t n) a = Ret (StartAutomatedPurchaseAuction t n a)"
| "callOp (OpGovernance t) a = Ret (StartGovernanceSuspensionAuction t a)"
| "callOp (OpOpening t d) a = Ret (StartOpeningAuction t (Some d) a)"
| "callOp OpEndGovernance a = Ret (EndGovernanceSuspensionAuction a)"
| "callOp (OpExtendPrice d) a = ExtendAuctionPrice d a"
| "callOp (OpExtendLongBlock d) a = ExtendAuctionLongBlock d a"
| "callOp (OpExtendAutomatedPurchase d) a = ExtendAuctionAutomatedPurchase d a"
| "callOp (OpExtendSuspension d) a = ExtendAuctionSuspension d a"
| "callOp OpReadyToLeave a = Ret (SetReadyToLeave a)"
| "callOp (OpExtended now) a = Ret (snd (AuctionExtended now a))"
| "callOp (OpStarted now) a = Ret (snd (AuctionStarted now a))"
| "callOp (OpLeft now) a = Ret (snd (Left now a))"
| "callOp (OpMinDuration d) a = Ret (snd (UpdateMinDuration d a))"
| "callOp (OpMaxDuration d) a = Ret (UpdateMaxDuration d a)"

fun callOps :: "AuctionOp list \<Rightarrow> AuctionState \<Rightarrow> (string, AuctionState) go" where
  "callOps [] a = Ret a"
| "callOps (op # ops) a = gbind (callOp op a) (callOps ops)"

inductive reachable :: "AuctionState \<Rightarrow> bool" where
  new: "reachable (NewAuctionState marketID openingAuction now)"
| step: "reachable a \<Longrightarrow> callOp op a = Ret a' \<Longrightarrow> reachable a'"

lemma reachable_callOps: "reachable a \<Longrightarrow> callOps ops a = Ret a' \<Longrightarrow> reachable a'"
  by (induction ops arbitrary: a) (auto simp: gbind_Ret_iff intro: reachable.step)

lemmas start_defs = StartLiquidityAuctionUnmetTarget_def startLiquidityAuction_def StartPriceAuction_def
  StartLongBlockAuction_def StartAutomatedPurchaseAuction_def StartGovernanceSuspensionAuction_def
  StartOpeningAuction_def
lemmas extend_defs = ExtendAuctionPrice_def ExtendAuctionLongBlock_def
  ExtendAuctionAutomatedPurchase_def ExtendAuctionSuspension_def
lemmas confirm_defs = AuctionExtended_def AuctionStarted_def Left_def UpdateMinDuration_def
  UpdateMaxDuration_def SetReadyToLeave_def

lemma ExtendAuction_Ret:
  "ExtendAuction delta a = Ret a' \<longleftrightarrow>
     (\<exists>d. a_end a = Some d \<and>
        a' = a\<lparr>a_end := Some \<lparr>ad_Duration = i64 (ad_Duration d + ad_Duration delta),
                                ad_Volume = ad_Volume d + ad_Volume delta\<rparr>, a_stop := False\<rparr>)"
  by (auto simp: ExtendAuction_def split: option.splits)

section \<open>Well-formed states\<close>

text \<open>The trading modes that go with a trigger.\<close>

fun modesOf :: "AuctionTrigger \<Rightarrow> MarketTradingMode set" where
  "modesOf AuctionTriggerUnspecified = {MarketTradingModeContinuous}"
| "modesOf AuctionTriggerOpening = {MarketTradingModeOpeningAuction}"
| "modesOf AuctionTriggerPrice = {MarketTradingModeMonitoringAuction}"
| "modesOf AuctionTriggerLiquidityTargetNotMet = {MarketTradingModeMonitoringAuction}"
| "modesOf AuctionTriggerGovernanceSuspension =
     {MarketTradingModeSuspendedViaGovernance, MarketTradingModeMonitoringAuction}"
| "modesOf AuctionTriggerLongBlock =
     {MarketTradingModeLongBlockAuction, MarketTradingModeMonitoringAuction}"
| "modesOf AuctionTriggerAutomatedPurchase =
     {MarketTradingModeAutomatedPuchaseAuction, MarketTradingModeMonitoringAuction}"
| "modesOf AuctionTriggerBatch = {}"
| "modesOf AuctionTriggerUnableToDeployLPOrders = {}"

definition extenders :: "AuctionTrigger set" where
  "extenders = {AuctionTriggerPrice, AuctionTriggerLongBlock, AuctionTriggerAutomatedPurchase,
     AuctionTriggerGovernanceSuspension}"

definition auction_ok :: "AuctionState \<Rightarrow> bool" where
  "auction_ok a \<longleftrightarrow> a_defMode a = MarketTradingModeContinuous
     \<and> a_mode a \<in> modesOf (a_trigger a)
     \<and> (a_trigger a \<noteq> AuctionTriggerUnspecified \<longleftrightarrow> a_end a \<noteq> None)
     \<and> (a_end a \<noteq> None \<longrightarrow> a_begin a \<noteq> None)
     \<and> (\<forall>t. a_extension a = Some t \<longrightarrow> t \<in> extenders \<and> a_end a \<noteq> None)
     \<and> (a_start a \<longrightarrow> a_end a \<noteq> None)"

lemma auction_ok_extend:
  assumes "auction_ok a" and "ext = a_extension a \<or> (\<exists>t \<in> extenders. ext = Some t)"
    and "ExtendAuction delta (a\<lparr>a_extension := ext\<rparr>) = Ret a'"
  shows "auction_ok a'"
  using assms by (auto simp: auction_ok_def ExtendAuction_Ret)

lemma auction_ok_start:
  assumes "auction_ok a" and "op \<in> {OpLiquidity t d, OpPrice t d, OpLongBlock t n, OpAutomatedPurchase t n,
      OpGovernance t, OpOpening t d}" and "callOp op a = Ret a'"
  shows "auction_ok a'"
  using assms by (auto simp: auction_ok_def start_defs)

lemma auction_ok_end:
  "auction_ok a \<Longrightarrow> auction_ok (EndGovernanceSuspensionAuction a)"
  by (auto simp: auction_ok_def EndGovernanceSuspensionAuction_def extenders_def split: option.split)

lemma auction_ok_confirm:
  assumes "auction_ok a"
  shows "auction_ok (snd (AuctionExtended now a))" and "auction_ok (snd (AuctionStarted now a))"
    and "auction_ok (snd (Left now a))" and "auction_ok (snd (UpdateMinDuration d a))"
    and "auction_ok (UpdateMaxDuration d a)" and "auction_ok (SetReadyToLeave a)"
  using assms by (auto simp: auction_ok_def confirm_defs Let_def split: option.split)

lemma auction_ok_extend_as:
  assumes "auction_ok a" and "t \<in> extenders"
    and "ExtendAuction delta (if c then a\<lparr>a_extension := Some t\<rparr> else a) = Ret a'"
  shows "auction_ok a'"
proof (rule auction_ok_extend [OF assms(1), of "if c then Some t else a_extension a"])
  show "ExtendAuction delta (a\<lparr>a_extension := if c then Some t else a_extension a\<rparr>) = Ret a'"
    using assms(3) by (cases c) simp_all
qed (use assms(2) in auto)

lemma auction_ok_callOp:
  assumes "auction_ok a" and "callOp op a = Ret a'"
  shows "auction_ok a'"
proof -
  note ext = auction_ok_extend_as [OF assms(1)]
  show ?thesis
  proof (cases op)
    case (OpExtendPrice d)
    show ?thesis
      by (rule ext [of AuctionTriggerPrice d True])
        (use assms(2) OpExtendPrice in \<open>simp_all add: extend_defs extenders_def\<close>)
  next
    case (OpExtendLongBlock d)
    show ?thesis
      by (rule ext [of AuctionTriggerLongBlock d "a_trigger a \<noteq> AuctionTriggerLongBlock"])
        (use assms(2) OpExtendLongBlock in \<open>simp_all add: extend_defs extenders_def\<close>)
  next
    case (OpExtendAutomatedPurchase d)
    show ?thesis
      by (rule ext [of AuctionTriggerAutomatedPurchase d "a_trigger a \<noteq> AuctionTriggerAutomatedPurchase"])
        (use assms(2) OpExtendAutomatedPurchase in \<open>simp_all add: extend_defs extenders_def\<close>)
  next
    case (OpExtendSuspension d)
    show ?thesis
      by (rule ext [of AuctionTriggerGovernanceSuspension d True])
        (use assms(2) OpExtendSuspension in \<open>simp_all add: extend_defs extenders_def\<close>)
  qed (use assms auction_ok_start [of a op _ _ _ a'] auction_ok_end auction_ok_confirm in auto)
qed

lemma auction_ok_new: "auction_ok (NewAuctionState marketID openingAuction now)"
  by (simp add: auction_ok_def NewAuctionState_def Let_def split: option.split)

lemma reachable_auction_ok: "reachable a \<Longrightarrow> auction_ok a"
  by (induction rule: reachable.induct) (auto intro: auction_ok_new auction_ok_callOp)

section \<open>Calls never leave the well-formed states\<close>

fun extendsBy :: "AuctionOp \<Rightarrow> AuctionDuration option" where
  "extendsBy (OpExtendPrice d) = Some d"
| "extendsBy (OpExtendLongBlock d) = Some d"
| "extendsBy (OpExtendAutomatedPurchase d) = Some d"
| "extendsBy (OpExtendSuspension d) = Some d"
| "extendsBy _ = None"

lemma extend_end:
  assumes "extendsBy op = Some delta" and "a_end a = Some d"
  shows "\<exists>a'. callOp op a = Ret a' \<and> a_begin a' = a_begin a \<and> a_trigger a' = a_trigger a
    \<and> \<not> a_stop a' \<and> a_end a' = Some \<lparr>ad_Duration = i64 (ad_Duration d + ad_Duration delta),
         ad_Volume = ad_Volume d + ad_Volume delta\<rparr>"
  using assms by (cases op) (auto simp: extend_defs ExtendAuction_def)

lemma extend_panics:
  "extendsBy op \<noteq> None \<Longrightarrow> a_end a = None \<Longrightarrow> \<exists>p. callOp op a = Panic p"
  by (cases op) (simp_all add: extend_defs ExtendAuction_def)

lemma other_returns: "extendsBy op = None \<Longrightarrow> \<exists>a'. callOp op a = Ret a'"
  by (cases op) simp_all

lemma callOp_Panic_iff:
  assumes "auction_ok a"
  shows "(\<exists>p. callOp op a = Panic p) \<longleftrightarrow>
    extendsBy op \<noteq> None \<and> a_trigger a = AuctionTriggerUnspecified"
proof (cases "extendsBy op")
  case None
  then show ?thesis using other_returns [of op a] by auto
next
  case (Some d)
  then show ?thesis
    using assms extend_end [OF Some, of a] extend_panics [of op a]
    by (cases "a_end a") (auto simp: auction_ok_def)
qed

text \<open>
  C24: whatever calls the monitoring engines and the market make, in whatever order, the trading mode
  agrees with the trigger of the auction, the times of the auction are set exactly while there is a
  trigger, and the only call that can crash is an extension while there is no auction.
\<close>

theorem auction_wellformed:
  assumes "callOps ops (NewAuctionState marketID openingAuction now) = Ret a"
  shows "a_mode a \<in> modesOf (a_trigger a)
    \<and> (GetAuctionEnd a \<noteq> None \<longleftrightarrow> a_trigger a \<noteq> AuctionTriggerUnspecified)
    \<and> (InAuction a \<longrightarrow> GetAuctionBegin a \<noteq> None)
    \<and> ((\<exists>p. callOp op a = Panic p) \<longleftrightarrow> extendsBy op \<noteq> None \<and> a_trigger a = AuctionTriggerUnspecified)"
proof -
  have ok: "auction_ok a"
    using reachable_auction_ok [OF reachable_callOps [OF reachable.new assms]] .
  then show ?thesis
    unfolding callOp_Panic_iff [OF ok]
    by (auto simp: auction_ok_def GetAuctionEnd_def GetAuctionBegin_def InAuction_def split: option.split)
qed

definition long_auction :: AuctionDuration where
  "long_auction = \<lparr>ad_Duration = 300, ad_Volume = 0\<rparr>"

lemmas auction_example_defs = long_auction_def NewAuctionState_def start_defs extend_defs confirm_defs
  ExtendAuction_def EndGovernanceSuspensionAuction_def ExtensionTrigger_def

theorem auction_wellformed_witness:
  "\<exists>a. callOps [OpStarted 5, OpExtendPrice long_auction] (NewAuctionState ''m'' (Some long_auction) 3) = Ret a
     \<and> a_mode a \<in> modesOf (a_trigger a) \<and> \<not> (\<exists>p. callOp (OpExtendPrice long_auction) a = Panic p)"
proof -
  let ?a = "(NewAuctionState ''m'' (Some long_auction) 3)
    \<lparr>a_start := False, a_begin := Some 5, a_extension := Some AuctionTriggerPrice,
      a_end := Some \<lparr>ad_Duration = i64 600, ad_Volume = 0\<rparr>\<rparr>"
  have run: "callOps [OpStarted 5, OpExtendPrice long_auction]
    (NewAuctionState ''m'' (Some long_auction) 3) = Ret ?a"
    by (simp add: auction_example_defs)
  show ?thesis
    using auction_wellformed [OF run, of "OpExtendPrice long_auction"] run
    by (intro exI [of _ ?a]) (simp add: NewAuctionState_def)
qed

section \<open>Suspension by governance\<close>

text \<open>The calls that neither start nor end an auction.\<close>

fun continues :: "AuctionOp \<Rightarrow> bool" where
  "continues OpReadyToLeave = True"
| "continues (OpExtended now) = True"
| "continues (OpStarted now) = True"
| "continues (OpMinDuration d) = True"
| "continues (OpMaxDuration d) = True"
| "continues op = (extendsBy op \<noteq> None)"

lemma suspended_step:
  assumes "a_trigger a = AuctionTriggerGovernanceSuspension \<and> \<not> a_stop a" and "continues op"
    and "callOp op a = Ret a'"
  shows "a_trigger a' = AuctionTriggerGovernanceSuspension \<and> \<not> a_stop a' \<and> a_mode a' = a_mode a"
  using assms by (cases op)
    (auto simp: extend_defs ExtendAuction_Ret confirm_defs Let_def split: option.splits if_splits prod.splits)

lemma suspended_run:
  assumes "a_trigger a = AuctionTriggerGovernanceSuspension \<and> \<not> a_stop a" and "list_all continues ops"
    and "callOps ops a = Ret a'"
  shows "a_trigger a' = AuctionTriggerGovernanceSuspension \<and> \<not> a_stop a' \<and> a_mode a' = a_mode a"
  using assms
proof (induction ops arbitrary: a)
  case (Cons op ops)
  then obtain a1 where "callOp op a = Ret a1" "callOps ops a1 = Ret a'" by (auto simp: gbind_Ret_iff)
  then show ?case using Cons.IH [of a1] Cons.prems suspended_step [of a op a1] by simp
qed simp

text \<open>
  C23: a market suspended by governance stays suspended. No interleaving of extensions, readiness
  signals, confirmations and updates of the durations makes the auction ready to leave; only the
  end of the suspension or a new auction can.
\<close>

theorem suspension_holds:
  assumes "list_all continues ops" and "callOps ops (StartGovernanceSuspensionAuction t a) = Ret a'"
  shows "\<not> CanLeave a' \<and> a_trigger a' = AuctionTriggerGovernanceSuspension
    \<and> a_mode a' = MarketTradingModeSuspendedViaGovernance"
  using suspended_run [OF _ assms] by (simp add: start_defs CanLeave_def)

theorem suspension_holds_witness:
  "\<exists>a'. callOps [OpStarted 7, OpExtendPrice long_auction, OpReadyToLeave]
       (StartGovernanceSuspensionAuction 7 (NewAuctionState ''m'' None 3)) = Ret a' \<and> \<not> CanLeave a'"
proof -
  let ?ops = "[OpStarted 7, OpExtendPrice long_auction, OpReadyToLeave]"
  let ?a = "NewAuctionState ''m'' None 3"
  have "\<exists>a'. callOps ?ops (StartGovernanceSuspensionAuction 7 ?a) = Ret a'"
    by (simp add: auction_example_defs)
  then obtain a' where run: "callOps ?ops (StartGovernanceSuspensionAuction 7 ?a) = Ret a'" ..
  have "list_all continues ?ops" by simp
  from suspension_holds [OF this run] run show ?thesis by blast
qed

lemma EndGovernance_cases:
  assumes "a_trigger a = AuctionTriggerGovernanceSuspension"
  shows "a_trigger (EndGovernanceSuspensionAuction a) = ExtensionTrigger a
    \<and> a_extension (EndGovernanceSuspensionAuction a) = None"
  using assms by (simp add: EndGovernanceSuspensionAuction_def ExtensionTrigger_def split: option.split)

lemma ReadyToLeave_CanLeave:
  "a_trigger a \<noteq> AuctionTriggerGovernanceSuspension \<Longrightarrow> CanLeave (SetReadyToLeave a)"
  by (simp add: SetReadyToLeave_def CanLeave_def)

text \<open>
  C25: every auction can be left. From any state that a market can get into, ending the governance
  suspension at most twice and signalling readiness makes the auction ready to leave, and leaving it
  brings the market back to continuous trading without auction.
\<close>

theorem auction_can_be_left:
  assumes "reachable a"
  shows "\<exists>k \<le> 2. \<exists>a'. callOps (replicate k OpEndGovernance @ [OpReadyToLeave]) a = Ret a' \<and> CanLeave a'
    \<and> a_mode (snd (Left now a')) = MarketTradingModeContinuous
    \<and> a_trigger (snd (Left now a')) = AuctionTriggerUnspecified
    \<and> \<not> InAuction (snd (Left now a'))"
proof -
  let ?resume = EndGovernanceSuspensionAuction
  define k :: nat where "k = (if a_trigger a \<noteq> AuctionTriggerGovernanceSuspension then 0
    else if ExtensionTrigger a \<noteq> AuctionTriggerGovernanceSuspension then 1 else 2)"
  define a' where "a' = SetReadyToLeave ((?resume ^^ k) a)"
  have "a_trigger ((?resume ^^ k) a) \<noteq> AuctionTriggerGovernanceSuspension"
    using EndGovernance_cases [of a] EndGovernance_cases [of "?resume a"]
    by (simp add: k_def numeral_2_eq_2 ExtensionTrigger_def)
  then have leave: "CanLeave a'" unfolding a'_def by (rule ReadyToLeave_CanLeave)
  have run: "callOps (replicate k OpEndGovernance @ [OpReadyToLeave]) a = Ret a'"
    by (simp add: k_def a'_def numeral_2_eq_2)
  have "a_defMode a' = MarketTradingModeContinuous"
    using reachable_auction_ok [OF reachable_callOps [OF assms run]] by (simp add: auction_ok_def)
  moreover have "k \<le> 2" by (simp add: k_def)
  ultimately show ?thesis using leave run
    by (intro exI [of _ k] conjI exI [of _ a']) (simp_all add: Left_def InAuction_def Let_def)
qed

theorem auction_can_be_left_witness:
  "\<exists>k \<le> 2. \<exists>a'. callOps (replicate k OpEndGovernance @ [OpReadyToLeave])
      (NewAuctionState ''m'' (Some long_auction) 3) = Ret a' \<and> CanLeave a'"
  using auction_can_be_left [OF reachable.new [of "''m''" "Some long_auction" 3]] by blast

text \<open>
  C30: a suspension that governance requests for a market it has already suspended is not undone by
  resuming once: the suspension has become its own extension, the trigger stays the governance
  suspension although the mode says otherwise, and no readiness signal is accepted.
\<close>

theorem double_suspension_not_resumed:
  assumes "a_trigger a = AuctionTriggerGovernanceSuspension" and "ExtendAuctionSuspension delta a = Ret a1"
  shows "a_trigger (EndGovernanceSuspensionAuction a1) = AuctionTriggerGovernanceSuspension
    \<and> a_mode (EndGovernanceSuspensionAuction a1) = MarketTradingModeMonitoringAuction
    \<and> \<not> CanLeave (SetReadyToLeave (EndGovernanceSuspensionAuction a1))"
  using assms by (auto simp: extend_defs ExtendAuction_Ret EndGovernanceSuspensionAuction_def
      SetReadyToLeave_def CanLeave_def)

theorem double_suspension_not_resumed_witness:
  "\<exists>a1. ExtendAuctionSuspension long_auction
       (StartGovernanceSuspensionAuction 7 (NewAuctionState ''m'' None 3)) = Ret a1
     \<and> \<not> CanLeave (SetReadyToLeave (EndGovernanceSuspensionAuction a1))"
proof -
  let ?a = "StartGovernanceSuspensionAuction 7 (NewAuctionState ''m'' None 3)"
  have "\<exists>a1. ExtendAuctionSuspension long_auction ?a = Ret a1" by (simp add: auction_example_defs)
  then obtain a1 where run: "ExtendAuctionSuspension long_auction ?a = Ret a1" ..
  have "a_trigger ?a = AuctionTriggerGovernanceSuspension" by (simp add: start_defs)
  from double_suspension_not_resumed [OF this run] run show ?thesis by blast
qed

section \<open>Extensions\<close>

lemma sent_step:
  "a_extensionEventSent a \<Longrightarrow> callOp op a = Ret a' \<Longrightarrow> a_extensionEventSent a'"
  by (cases op) (auto simp: start_defs extend_defs ExtendAuction_Ret confirm_defs Let_def
      EndGovernanceSuspensionAuction_def split: option.splits if_splits prod.splits)

lemma sent_run:
  "a_extensionEventSent a \<Longrightarrow> callOps ops a = Ret a' \<Longrightarrow> a_extensionEventSent a'"
  by (induction ops arbitrary: a) (auto simp: gbind_Ret_iff dest: sent_step)

text \<open>
  C29: the extension of an auction is announced once in the life of a market. After the first
  announcement none follows, not even for an extension of a later auction: leaving the auction
  clears the extension but not the mark that its event was sent.
\<close>

theorem extension_announced_once:
  assumes "fst (AuctionExtended now a) \<noteq> None" and "callOps ops (snd (AuctionExtended now a)) = Ret a'"
  shows "fst (AuctionExtended now' a') = None"
proof -
  have "a_extensionEventSent (snd (AuctionExtended now a))"
    using assms(1) by (auto simp: AuctionExtended_def Let_def split: option.splits if_splits)
  from sent_run [OF this assms(2)] show ?thesis
    by (simp add: AuctionExtended_def split: option.split)
qed

theorem extension_announced_once_witness:
  "\<exists>a a'. callOps [OpLeft 9, OpPrice 20 long_auction, OpExtendPrice long_auction] a = Ret a'
     \<and> a_extension a' = Some AuctionTriggerPrice \<and> fst (AuctionExtended 30 a') = None"
proof -
  let ?p = "(StartPriceAuction 4 (Some long_auction) (NewAuctionState ''m'' None 3))
    \<lparr>a_extension := Some AuctionTriggerPrice\<rparr>"
  let ?a = "snd (AuctionExtended 5 ?p)"
  let ?ops = "[OpLeft 9, OpPrice 20 long_auction, OpExtendPrice long_auction]"
  have "\<exists>a'. callOps ?ops ?a = Ret a' \<and> a_extension a' = Some AuctionTriggerPrice"
    by (simp add: auction_example_defs)
  then obtain a' where run: "callOps ?ops ?a = Ret a'" "a_extension a' = Some AuctionTriggerPrice" by blast
  have "fst (AuctionExtended 5 ?p) \<noteq> None" by (simp add: auction_example_defs NewAuctionEvent_def)
  from extension_announced_once [OF this run(1), of 30] run show ?thesis by blast
qed

definition extensionTotal :: "AuctionOp list \<Rightarrow> int" where
  "extensionTotal ops = sum_list (map (\<lambda>op. case extendsBy op of None \<Rightarrow> 0 | Some d \<Rightarrow> ad_Duration d) ops)"

lemma extensionTotal_nonneg:
  "list_all (\<lambda>op. \<exists>d. extendsBy op = Some d \<and> 0 \<le> ad_Duration d) ops \<Longrightarrow> 0 \<le> extensionTotal ops"
  by (induction ops) (auto simp: extensionTotal_def)

lemma extensions_run:
  assumes "list_all (\<lambda>op. \<exists>d. extendsBy op = Some d \<and> 0 \<le> ad_Duration d) ops"
    and "a_end a = Some d" and "0 \<le> ad_Duration d"
    and "ad_Duration d + extensionTotal ops \<le> 9000000000"
  shows "\<exists>a' d'. callOps ops a = Ret a' \<and> a_begin a' = a_begin a \<and> a_end a' = Some d'
    \<and> ad_Duration d' = ad_Duration d + extensionTotal ops"
  using assms
proof (induction ops arbitrary: a d)
  case Nil
  then show ?case by (simp add: extensionTotal_def)
next
  case (Cons op ops)
  then obtain delta where delta: "extendsBy op = Some delta" "0 \<le> ad_Duration delta" by auto
  have total: "extensionTotal (op # ops) = ad_Duration delta + extensionTotal ops"
    by (simp add: extensionTotal_def delta)
  have "0 \<le> extensionTotal ops" using Cons.prems(1) by (simp add: extensionTotal_nonneg)
  then have i64: "i64 (ad_Duration d + ad_Duration delta) = ad_Duration d + ad_Duration delta"
    using Cons.prems(3,4) total delta(2) by (intro i64_small) simp_all
  from extend_end [OF delta(1) Cons.prems(2)] obtain a1 where a1: "callOp op a = Ret a1"
    "a_begin a1 = a_begin a" "a_end a1 = Some \<lparr>ad_Duration = ad_Duration d + ad_Duration delta,
       ad_Volume = ad_Volume d + ad_Volume delta\<rparr>"
    unfolding i64 by blast
  show ?case
    using Cons.IH [OF _ a1(3)] Cons.prems delta(2) total a1 by (simp add: add.assoc)
qed

text \<open>
  C26: extensions add up. An auction of \<open>d\<close> seconds that began at \<open>b\<close> and is extended any number of
  times, by any of the monitoring engines, ends exactly at \<open>b\<close> plus \<open>d\<close> and all the extensions, as
  long as the total is below nine thousand million seconds, the range of the 64-bit nanoseconds.
\<close>

theorem extensions_add_up:
  assumes "list_all (\<lambda>op. \<exists>d. extendsBy op = Some d \<and> 0 \<le> ad_Duration d) ops"
    and "a_begin a = Some b" and "a_end a = Some d" and "0 \<le> ad_Duration d"
    and "ad_Duration d + extensionTotal ops \<le> 9000000000"
  shows "\<exists>a'. callOps ops a = Ret a'
    \<and> GetAuctionEnd a' = Some (b + (ad_Duration d + extensionTotal ops) * 1000000000)"
proof -
  obtain a' d' where "callOps ops a = Ret a'" "a_begin a' = Some b" "a_end a' = Some d'"
    "ad_Duration d' = ad_Duration d + extensionTotal ops"
    using extensions_run [OF assms(1,3-5)] assms(2) by auto
  then show ?thesis
    using assms(4,5) extensionTotal_nonneg [OF assms(1)]
    by (simp add: GetAuctionEnd_def seconds_small)
qed

theorem extensions_add_up_witness:
  "\<exists>a'. callOps [OpExtendPrice long_auction, OpExtendLongBlock long_auction]
      (NewAuctionState ''m'' (Some long_auction) 3) = Ret a' \<and> GetAuctionEnd a' = Some (3 + 900 * 1000000000)"
  using extensions_add_up [of "[OpExtendPrice long_auction, OpExtendLongBlock long_auction]"
      "NewAuctionState ''m'' (Some long_auction) 3" 3 long_auction]
  by (simp add: NewAuctionState_def long_auction_def extensionTotal_def)

text \<open>
  C27: raising the minimal duration never shortens an auction, and makes it last at least the new
  minimum up to the truncation to whole seconds.
\<close>

theorem UpdateMinDuration_extends:
  assumes "a_begin a = Some b" and "a_end a = Some e" and "0 < ad_Duration e"
    and "ad_Duration e \<le> 9000000000" and "d \<le> 9000000000000000000"
  shows "\<exists>old new. ExpiresAt a = Some old \<and> ExpiresAt (snd (UpdateMinDuration d a)) = Some new
    \<and> old \<le> new \<and> b + d - new < 1000000000"
proof -
  define old where "old = b + ad_Duration e * 1000000000"
  have exp: "ExpiresAt a = Some old"
    using assms by (simp add: ExpiresAt_def old_def seconds_small)
  show ?thesis
  proof (cases "b + d > old")
    case False
    then show ?thesis using exp assms by (simp add: UpdateMinDuration_def)
  next
    case True
    then have d: "ad_Duration e * 1000000000 < d" by (simp add: old_def)
    then have pos: "0 < d" using assms(3) by simp
    then have q: "wholeSeconds d = d div 1000000000" by (simp add: wholeSeconds_def)
    have "ad_Duration e \<le> d div 1000000000" using d by simp
    moreover have "d div 1000000000 \<le> 9000000000" using assms(5) by simp
    moreover have "d - d div 1000000000 * 1000000000 < 1000000000"
      using pos_mod_bound [of 1000000000 d] minus_div_mult_eq_mod [of d 1000000000] by simp
    ultimately show ?thesis
      using exp assms(1-3) True pos q old_def
      by (simp add: UpdateMinDuration_def ExpiresAt_def seconds_small)
  qed
qed

theorem UpdateMinDuration_extends_witness:
  "\<exists>old new. ExpiresAt (NewAuctionState ''m'' (Some long_auction) 3) = Some old
    \<and> ExpiresAt (snd (UpdateMinDuration 400500000000 (NewAuctionState ''m'' (Some long_auction) 3))) = Some new
    \<and> old \<le> new"
  using UpdateMinDuration_extends [of "NewAuctionState ''m'' (Some long_auction) 3" 3 long_auction 400500000000]
  by (auto simp: NewAuctionState_def long_auction_def)

section \<open>Snapshots\<close>

text \<open>
  C28: what a node restores from the stored snapshot of an auction, through the protobuf message, is
  the auction it saved, except for two things. The maximal duration of an opening auction is not in
  the snapshot. And the missing begin of a market that is not in an auction does not come back as
  missing: the zero time is stored as a wrapped count of nanoseconds and restored as a moment in the
  year 1754, which the test for the zero time does not recognise.
\<close>

theorem snapshot_roundtrip:
  assumes "reachable a" and "\<And>t. a_begin a = Some t \<Longrightarrow> - (2 ^ 63) \<le> t \<and> t < 2 ^ 63"
  shows "NewAuctionStateFromSnapshot (a_marketID a) (AuctionStateFromProto (AuctionIntoProto (GetState a)))
     = a\<lparr>a_maxDuration := None,
         a_begin := (case a_begin a of None \<Rightarrow> Some (-6795364578871345152) | Some t \<Rightarrow> Some t)\<rparr>"
proof -
  have "a_extension a \<noteq> Some AuctionTriggerUnspecified"
    using reachable_auction_ok [OF assms(1)] by (auto simp: auction_ok_def extenders_def)
  moreover have "i64 zeroTime = -6795364578871345152" by code_simp
  moreover have "i64 t = t \<and> t \<noteq> zeroTime" if "a_begin a = Some t" for t
    using assms(2) [OF that] by (simp add: i64_small zeroTime_def)
  ultimately show ?thesis
    by (cases a) (auto simp: NewAuctionStateFromSnapshot_def AuctionStateFromProto_def AuctionIntoProto_def GetState_def
        UnixNano_def zeroTime_def split: option.splits)
qed

theorem snapshot_roundtrip_witness:
  "NewAuctionStateFromSnapshot ''m'' (AuctionStateFromProto (AuctionIntoProto
      (GetState (NewAuctionState ''m'' (Some long_auction) 3))))
     = (NewAuctionState ''m'' (Some long_auction) 3)\<lparr>a_maxDuration := None\<rparr>
   \<and> a_begin (NewAuctionStateFromSnapshot ''m'' (AuctionStateFromProto (AuctionIntoProto
      (GetState (NewAuctionState ''m'' None 3))))) = Some (-6795364578871345152)
   \<and> a_begin (NewAuctionState ''m'' None 3) = None"
  using snapshot_roundtrip [OF reachable.new [of "''m''" "Some long_auction" 3]]
    snapshot_roundtrip [OF reachable.new [of "''m''" None 3]]
  by (simp add: NewAuctionState_def)

end
