(* ===== verification/Market_Position.thy ===== *)
theory Market_Position
  imports Orders
begin

text \<open>
  The position of a party in a market (\<^verbatim>\<open>core/positions/market_position.go\<close>) and the volume-weighted
  entry price of \<^verbatim>\<open>core/positions/engine.go\<close>. Sizes are 64-bit signed integers and every sum, difference
  and product of them wraps; the sums of products are 256-bit. A call of \<^verbatim>\<open>log.Panic\<close> is a panic.
\<close>

section \<open>Data\<close>

record MarketPosition =
  mp_size :: int64
  mp_buy :: int64
  mp_sell :: int64
  mp_partyID :: string
  mp_price :: Uint
  mp_buySumProduct :: Uint
  mp_sellSumProduct :: Uint
  mp_distressed :: bool
  mp_averageEntryPrice :: Uint

definition NewMarketPosition :: "string \<Rightarrow> MarketPosition" where
  "NewMarketPosition party =
     \<lparr>mp_size = 0, mp_buy = 0, mp_sell = 0, mp_partyID = party, mp_price = 0, mp_buySumProduct = 0,
      mp_sellSumProduct = 0, mp_distressed = False, mp_averageEntryPrice = 0\<rparr>"

definition Closed :: "MarketPosition \<Rightarrow> bool" where
  "Closed p \<longleftrightarrow> mp_size p = 0 \<and> i64 (mp_buy p + mp_sell p) = 0"

definition SetParty :: "string \<Rightarrow> MarketPosition \<Rightarrow> MarketPosition" where
  "SetParty party p = p\<lparr>mp_partyID := party\<rparr>"

section \<open>The volume-weighted entry price\<close>

text \<open>The absolute value as the code takes it: the sign of a negative number is flipped, and wraps.\<close>

definition abs64 :: "int64 \<Rightarrow> int64" where
  "abs64 x = (if x < 0 then i64 (- x) else x)"

definition uintOf :: "int64 \<Rightarrow> Uint" where
  "uintOf x = NewUint (uint64_of x)"

definition CalcVWAP :: "Uint \<Rightarrow> int64 \<Rightarrow> int64 \<Rightarrow> Uint option \<Rightarrow> Uint" where
  "CalcVWAP vwap pos addVolume addPrice =
     (case addPrice of
        None \<Rightarrow> 0
      | Some price \<Rightarrow>
          (let newPos = i64 (pos + addVolume) in
           if newPos = 0 then 0
           else if i64 (newPos * pos) < 0 then
             (let newAcquired = uintOf (abs64 newPos); posUint = uintOf (abs64 pos)
              in Uint_Div (posUint * vwap + newAcquired * price) (posUint + newAcquired))
           else if pos > 0 \<and> addVolume < 0 \<or> pos < 0 \<and> addVolume > 0 then vwap
           else Uint_Div (vwap * uintOf (abs64 pos) + price * uintOf (abs64 addVolume))
                  (uintOf (abs64 newPos))))"

section \<open>Orders\<close>

text \<open>
  \<^verbatim>\<open>UpdateOnOrderChange\<close> on one side: the potential volume and the sum of products of the side, with the
  word that the panics use for it.
\<close>

definition changeSide ::
  "string \<Rightarrow> int64 \<Rightarrow> Uint \<Rightarrow> Uint \<Rightarrow> uint64 \<Rightarrow> bool \<Rightarrow> (string, int64 \<times> Uint) go" where
  "changeSide word vol sp price sizeChange add =
     (let iSizeChange = int64_of sizeChange in
      if \<not> add \<and> vol < iSizeChange
      then Panic (''cannot unregister order with potential '' @ word @ '' + size change < 0'')
      else if add \<and> vol > i64 (MaxInt64 - iSizeChange)
      then Panic ''order too large to register, will overflow''
      else
        (let sp' = (if add then sp + price * NewUint sizeChange
                      else sp - price * NewUint sizeChange);
             vol' = (if add then i64 (vol + iSizeChange) else i64 (vol - iSizeChange))
         in if vol' = 0 \<and> sp' \<noteq> 0
            then Panic (''Non-zero '' @ word @ '' sum-product with no '' @ word @ '' orders'')
            else Ret (vol', sp')))"

definition UpdateOnOrderChange ::
  "Side \<Rightarrow> Uint \<Rightarrow> uint64 \<Rightarrow> bool \<Rightarrow> MarketPosition \<Rightarrow> (string, MarketPosition) go" where
  "UpdateOnOrderChange side price sizeChange add p =
     (if sizeChange = 0 then Ret p
      else if side = SideBuy then
        gbind (changeSide ''buy'' (mp_buy p) (mp_buySumProduct p) price sizeChange add)
          (\<lambda>(vol, sp). Ret (p\<lparr>mp_buy := vol, mp_buySumProduct := sp\<rparr>))
      else
        gbind (changeSide ''sell'' (mp_sell p) (mp_sellSumProduct p) price sizeChange add)
          (\<lambda>(vol, sp). Ret (p\<lparr>mp_sell := vol, mp_sellSumProduct := sp\<rparr>)))"

definition mp_RegisterOrder :: "Order \<Rightarrow> MarketPosition \<Rightarrow> (string, MarketPosition) go" where
  "mp_RegisterOrder ord p = UpdateOnOrderChange (o_Side ord) (o_Price ord) (TrueRemaining ord) True p"

definition mp_UnregisterOrder :: "Order \<Rightarrow> MarketPosition \<Rightarrow> (string, MarketPosition) go" where
  "mp_UnregisterOrder ord p = UpdateOnOrderChange (o_Side ord) (o_Price ord) (TrueRemaining ord) False p"

definition mp_AmendOrder :: "Order \<Rightarrow> Order \<Rightarrow> MarketPosition \<Rightarrow> (string, MarketPosition) go" where
  "mp_AmendOrder originalOrder newOrder p =
     (if o_Side originalOrder = SideBuy \<and> uint64_of (mp_buy p) < TrueRemaining originalOrder
      then Panic ''cannot amend order with remaining > potential buy''
      else if o_Side originalOrder = SideSell \<and> uint64_of (mp_sell p) < TrueRemaining originalOrder
      then Panic ''cannot amend order with remaining > potential sell''
      else gbind (mp_UnregisterOrder originalOrder p) (mp_RegisterOrder newOrder))"

section \<open>Trades\<close>

fun UpdateInPlaceOnTrades ::
  "Side \<Rightarrow> Trade list \<Rightarrow> Order \<Rightarrow> MarketPosition \<Rightarrow> (string, MarketPosition) go" where
  "UpdateInPlaceOnTrades traderSide [] ord pos = Ret pos"
| "UpdateInPlaceOnTrades traderSide (t # ts) ord pos =
     (let sz = int64_of (t_Size t);
          pos = (if o_Type ord = OrderTypeMarket
                 then pos\<lparr>mp_price := CalcVWAP (mp_price pos) (mp_size pos) sz (Some (t_Price t))\<rparr> else pos);
          pos = pos\<lparr>mp_averageEntryPrice :=
                      CalcVWAP (mp_averageEntryPrice pos) (mp_size pos) sz (Some (t_Price t)),
                    mp_size := (if traderSide = SideBuy then i64 (mp_size pos + sz)
                                else i64 (mp_size pos - sz))\<rparr>
      in gbind (UpdateOnOrderChange traderSide (o_Price ord) (t_Size t) False pos)
           (UpdateInPlaceOnTrades traderSide ts ord))"

section \<open>Queries\<close>

definition VWBuy :: "MarketPosition \<Rightarrow> Uint" where
  "VWBuy p = (if mp_buy p \<noteq> 0 then Uint_Div (mp_buySumProduct p) (uintOf (mp_buy p)) else 0)"

definition VWSell :: "MarketPosition \<Rightarrow> Uint" where
  "VWSell p = (if mp_sell p \<noteq> 0 then Uint_Div (mp_sellSumProduct p) (uintOf (mp_sell p)) else 0)"

datatype PositionError = ErrRegisterOverflow

definition ValidateOrderRegistration :: "uint64 \<Rightarrow> Side \<Rightarrow> MarketPosition \<Rightarrow> PositionError option" where
  "ValidateOrderRegistration s side p =
     (let sz = int64_of s; amt = (if side = SideSell then mp_sell p else mp_buy p) in
      if sz = 0 then None
      else if sz < 0 then Some ErrRegisterOverflow
      else if sz > i64 (MaxInt64 - amt) then Some ErrRegisterOverflow
      else None)"

definition OrderReducesExposure :: "Order option \<Rightarrow> MarketPosition \<Rightarrow> bool" where
  "OrderReducesExposure ordo p =
     (case ordo of
        None \<Rightarrow> False
      | Some ord \<Rightarrow>
          mp_size p \<noteq> 0 \<and> o_PeggedOrder ord = None \<and>
          (mp_size p > 0 \<and> o_Side ord = SideSell \<and>
             (i64 (mp_size p - int64_of (o_Remaining ord)) \<ge> 0 \<and> o_Type ord = OrderTypeMarket
              \<or> i64 (mp_size p - mp_sell p) \<ge> 0 \<and> o_Type ord = OrderTypeLimit)
           \<or> mp_size p < 0 \<and> o_Side ord = SideBuy \<and>
             (i64 (mp_size p + int64_of (o_Remaining ord)) \<le> 0 \<and> o_Type ord = OrderTypeMarket
              \<or> i64 (mp_size p + mp_buy p) \<le> 0 \<and> o_Type ord = OrderTypeLimit)))"

definition OrderReducesOnlyExposure :: "Order \<Rightarrow> MarketPosition \<Rightarrow> bool \<times> uint64" where
  "OrderReducesOnlyExposure ord p =
     (if mp_size p = 0 \<or> mp_size p < 0 \<and> o_Side ord = SideSell \<or> mp_size p > 0 \<and> o_Side ord = SideBuy
      then (False, 0)
      else
        (let extraSizeI = i64 (abs64 (mp_size p) - int64_of (o_Remaining ord)) in
         if extraSizeI < 0 then (True, uint64_of (i64 (- extraSizeI))) else (True, 0)))"

end
