(* ===== verification/Market_Position_Props.thy ===== *)
theory Market_Position_Props
  imports Market_Position "HOL-Library.Multiset"
begin

text \<open>
  Properties of the position of a party. The potential volumes and the sums of products refine the
  multiset of the live orders of the party, so that none of the panics of the bookkeeping is
  reached; the entry price lies between the prices it averages; and two places where it does not
  follow the trades.
\<close>

section \<open>Potential positions\<close>

type_synonym liveOrder = "Side \<times> Uint \<times> uint64"

definition sideVol :: "Side \<Rightarrow> liveOrder multiset \<Rightarrow> nat" where
  "sideVol sd M = (\<Sum>(s, _, n)\<in>#M. if s = sd then unat n else 0)"

definition sideProd :: "Side \<Rightarrow> liveOrder multiset \<Rightarrow> Uint" where
  "sideProd sd M = (\<Sum>(s, price, n)\<in>#M. if s = sd then price * NewUint n else 0)"

lemma sideVol_simps [simp]:
  "sideVol sd {#} = 0"
  "sideVol sd (add_mset (s, price, n) M) = (if s = sd then unat n else 0) + sideVol sd M"
  by (simp_all add: sideVol_def)

lemma sideProd_simps [simp]:
  "sideProd sd {#} = 0"
  "sideProd sd (add_mset (s, price, n) M) = (if s = sd then price * NewUint n else 0) + sideProd sd M"
  by (simp_all add: sideProd_def)

lemma NewUint_0 [simp]: "NewUint 0 = 0"
  by (simp add: NewUint_def)

lemma sideProd_no_volume: "sideVol sd M = 0 \<Longrightarrow> sideProd sd M = 0"
proof (induction M)
  case (add x M)
  then show ?case by (cases x) (auto simp: unat_eq_0 split: if_splits)
qed simp

definition tracks :: "liveOrder multiset \<Rightarrow> MarketPosition \<Rightarrow> bool" where
  "tracks M p \<longleftrightarrow>
     mp_buy p = int (sideVol SideBuy M) \<and> mp_buySumProduct p = sideProd SideBuy M
     \<and> mp_sell p = int (sideVol SideSell M) \<and> mp_sellSumProduct p = sideProd SideSell M
     \<and> sideVol SideBuy M < 2 ^ 63 \<and> sideVol SideSell M < 2 ^ 63"

lemma unat_NewUint: "unat (NewUint n) = unat n"
proof -
  have "unat n < 2 ^ 256" using unsigned_less [of n] by (rule order.strict_trans2) simp
  then show ?thesis by (simp add: NewUint_def unsigned_ucast_eq take_bit_nat_eq_self)
qed

lemma NewUint_split: "k \<le> n \<Longrightarrow> NewUint n = NewUint (n - k) + NewUint k"
proof -
  assume le: "k \<le> n"
  have "unat k \<le> unat n" using le by (simp add: word_le_nat_alt)
  moreover have "unat n < 2 ^ 256" using unsigned_less [of n] by (rule order.strict_trans2) simp
  ultimately have "unat (NewUint n) = unat (NewUint (n - k) + NewUint k)"
    using le by (simp add: unat_word_ariths unat_NewUint unat_sub)
  then show ?thesis by (simp only: word_unat_eq_iff)
qed

lemma changeSide_add:
  assumes "V + unat n < 2 ^ 63" and "n \<noteq> 0"
  shows "changeSide word (int V) sp price n True = Ret (int (V + unat n), sp + price * NewUint n)"
proof -
  define k where "k = unat n"
  have n: "int64_of n = int k" using assms(1) unfolding k_def by (intro int64_of_small) simp
  have pos: "0 < k" using assms(2) by (simp add: k_def unat_gt_0)
  have lt: "V + k < 2 ^ 63" using assms(1) by (simp add: k_def)
  have "i64 (MaxInt64 - int k) = MaxInt64 - int k"
    using lt by (intro i64_small) (simp_all add: MaxInt64_def)
  moreover have "i64 (int V + int k) = int V + int k" using lt by (intro i64_small) simp_all
  ultimately show ?thesis
    using lt pos by (simp add: changeSide_def Let_def n MaxInt64_def k_def [symmetric])
qed

lemma changeSide_sub:
  assumes "V + unat n < 2 ^ 63" and "V = 0 \<Longrightarrow> sp = 0"
  shows "changeSide word (int (V + unat n)) (sp + price * NewUint n) price n False = Ret (int V, sp)"
proof -
  have n: "int64_of n = int (unat n)" using assms(1) by (intro int64_of_small) simp
  have "i64 (int V) = int V" using assms(1) by (intro i64_small) simp_all
  then show ?thesis using assms(2) by (cases "V = 0") (simp_all add: changeSide_def Let_def n)
qed

lemma tracks_add:
  assumes "tracks M p" and "sd = SideBuy \<or> sd = SideSell" and "sideVol sd M + unat n < 2 ^ 63"
  shows "\<exists>p'. UpdateOnOrderChange sd price n True p = Ret p' \<and> tracks (add_mset (sd, price, n) M) p'"
proof (cases "n = 0")
  case True
  then show ?thesis using assms(1) by (simp add: UpdateOnOrderChange_def tracks_def)
next
  case False
  show ?thesis
    using assms(1,2) changeSide_add [OF assms(3) False] False
    by (auto simp: UpdateOnOrderChange_def tracks_def add.commute) (use assms(3) in \<open>simp_all add: add.commute\<close>)
qed

lemma tracks_sub:
  assumes "tracks (add_mset (sd, price, n) M) p" and "sd = SideBuy \<or> sd = SideSell" and "k \<le> n"
  shows "\<exists>p'. UpdateOnOrderChange sd price k False p = Ret p' \<and> tracks (add_mset (sd, price, n - k) M) p'"
proof (cases "k = 0")
  case True
  then show ?thesis using assms(1) by (simp add: UpdateOnOrderChange_def)
next
  case False
  let ?M = "add_mset (sd, price, n - k) M"
  have le: "unat k \<le> unat n" using assms(3) by (simp add: word_le_nat_alt)
  have vol: "sideVol sd (add_mset (sd, price, n) M) = sideVol sd ?M + unat k"
    using le assms(3) by (simp add: unat_sub)
  have sp: "sideProd sd (add_mset (sd, price, n) M) = sideProd sd ?M + price * NewUint k"
    by (simp add: NewUint_split [OF assms(3)] algebra_simps)
  have "sideVol sd ?M + unat k < 2 ^ 63" using assms(1,2) unfolding vol [symmetric] by (auto simp: tracks_def)
  from changeSide_sub [OF this sideProd_no_volume]
  have change: "changeSide word (int (sideVol sd ?M + unat k)) (sideProd sd ?M + price * NewUint k) price k False
    = Ret (int (sideVol sd ?M), sideProd sd ?M)" for word .
  have lt: "sideVol sd ?M < 2 ^ 63" using \<open>sideVol sd ?M + unat k < 2 ^ 63\<close> by simp
  from assms(2) show ?thesis
  proof
    assume sd: "sd = SideBuy"
    have "mp_buy p = int (sideVol sd ?M + unat k)" "mp_buySumProduct p = sideProd sd ?M + price * NewUint k"
      using assms(1) unfolding vol [symmetric] sp [symmetric] by (simp_all add: tracks_def sd)
    then show ?thesis using assms(1) change False lt by (simp add: UpdateOnOrderChange_def tracks_def sd)
  next
    assume sd: "sd = SideSell"
    have "mp_sell p = int (sideVol sd ?M + unat k)" "mp_sellSumProduct p = sideProd sd ?M + price * NewUint k"
      using assms(1) unfolding vol [symmetric] sp [symmetric] by (simp_all add: tracks_def sd)
    then show ?thesis using assms(1) change False lt by (simp add: UpdateOnOrderChange_def tracks_def sd)
  qed
qed

lemma tracks_zero: "tracks (add_mset (sd, price, 0) M) p = tracks M p"
  by (simp add: tracks_def)

lemma tracks_validated:
  assumes "tracks M p" and "sd = SideBuy \<or> sd = SideSell" and "ValidateOrderRegistration n sd p = None"
  shows "sideVol sd M + unat n < 2 ^ 63"
proof -
  have "int64_of n \<noteq> 0 \<Longrightarrow> 0 < int64_of n" using assms(3)
    by (auto simp: ValidateOrderRegistration_def Let_def split: if_splits)
  then have small: "int64_of n = int (unat n)"
    using int64_of_range [of n] uint64_of_int64_of [of n] unat_uint64_of [of "int64_of n"]
    by (cases "int64_of n = 0") auto
  have lt: "sideVol sd M < 2 ^ 63" using assms(1,2) by (auto simp: tracks_def)
  have amt: "(if sd = SideSell then mp_sell p else mp_buy p) = int (sideVol sd M)"
    using assms(1,2) by (auto simp: tracks_def)
  have "i64 (MaxInt64 - int (sideVol sd M)) = MaxInt64 - int (sideVol sd M)"
    using lt by (intro i64_small) (simp_all add: MaxInt64_def)
  then have "int (unat n) = 0 \<or> int (unat n) \<le> MaxInt64 - int (sideVol sd M)"
    using assms(3) unfolding ValidateOrderRegistration_def Let_def small amt by (auto split: if_splits)
  then have "unat n = 0 \<or> int (sideVol sd M) + int (unat n) \<le> MaxInt64"
    by (simp only: of_nat_eq_0_iff) (simp only: le_diff_eq add.commute)
  then show ?thesis using lt by (auto simp: MaxInt64_def simp del: of_nat_unat simp flip: of_nat_add)
qed

text \<open>
  The life of a position: orders are registered when they pass the validation, unregistered in full,
  and filled in part or in full.
\<close>

inductive lives :: "liveOrder multiset \<Rightarrow> MarketPosition \<Rightarrow> bool" where
  new: "lives {#} (NewMarketPosition party)"
| register: "lives M p \<Longrightarrow> o_Side ord = SideBuy \<or> o_Side ord = SideSell \<Longrightarrow>
    ValidateOrderRegistration (TrueRemaining ord) (o_Side ord) p = None \<Longrightarrow> mp_RegisterOrder ord p = Ret p' \<Longrightarrow>
    lives (add_mset (o_Side ord, o_Price ord, TrueRemaining ord) M) p'"
| unregister: "lives (add_mset (o_Side ord, o_Price ord, TrueRemaining ord) M) p \<Longrightarrow>
    mp_UnregisterOrder ord p = Ret p' \<Longrightarrow> lives M p'"
| fill: "lives (add_mset (sd, price, n) M) p \<Longrightarrow> k \<le> n \<Longrightarrow> UpdateOnOrderChange sd price k False p = Ret p' \<Longrightarrow>
    lives (add_mset (sd, price, n - k) M) p'"

definition two_sided :: "liveOrder multiset \<Rightarrow> bool" where
  "two_sided M \<longleftrightarrow> (\<forall>(sd, _, _) \<in># M. sd = SideBuy \<or> sd = SideSell)"

lemma lives_tracks: "lives M p \<Longrightarrow> tracks M p \<and> two_sided M"
proof (induction rule: lives.induct)
  case (new party)
  then show ?case by (simp add: tracks_def NewMarketPosition_def two_sided_def)
next
  case (register M p ord p')
  then show ?case
    using tracks_add [of M p "o_Side ord" "TrueRemaining ord" "o_Price ord"]
      tracks_validated [of M p "o_Side ord" "TrueRemaining ord"]
    by (auto simp: mp_RegisterOrder_def two_sided_def)
next
  case (unregister ord M p p')
  then show ?case
    using tracks_sub [of "o_Side ord" "o_Price ord" "TrueRemaining ord" M p "TrueRemaining ord"]
    by (auto simp: mp_UnregisterOrder_def two_sided_def tracks_zero)
next
  case (fill sd price n M p k p')
  then show ?case using tracks_sub [of sd price n M p k] by (auto simp: two_sided_def)
qed

text \<open>
  C33: the potential volumes of a position are exactly the sums over the live orders of the party, and
  so are the sums of products. Throughout, an order that passes the validation can be registered
  and a live order can be unregistered: none of the panics of the bookkeeping is reached.
\<close>

theorem potential_positions_exact:
  assumes "lives M p"
  shows "mp_buy p = int (sideVol SideBuy M) \<and> mp_sell p = int (sideVol SideSell M)
    \<and> mp_buySumProduct p = sideProd SideBuy M \<and> mp_sellSumProduct p = sideProd SideSell M
    \<and> (\<forall>(sd, price, n) \<in># M. \<exists>p'. UpdateOnOrderChange sd price n False p = Ret p')
    \<and> (\<forall>ord. (o_Side ord = SideBuy \<or> o_Side ord = SideSell)
         \<and> ValidateOrderRegistration (TrueRemaining ord) (o_Side ord) p = None \<longrightarrow>
         (\<exists>p'. mp_RegisterOrder ord p = Ret p'))"
proof -
  have t: "tracks M p" and two: "two_sided M" using lives_tracks [OF assms] by simp_all
  have "\<exists>p'. UpdateOnOrderChange sd price n False p = Ret p'" if "(sd, price, n) \<in># M" for sd price n
  proof -
    from that obtain M' where M: "M = add_mset (sd, price, n) M'" by (metis multi_member_split)
    then show ?thesis using tracks_sub [of sd price n M' p n] t two by (auto simp: two_sided_def)
  qed
  moreover have "\<exists>p'. mp_RegisterOrder ord p = Ret p'"
    if "o_Side ord = SideBuy \<or> o_Side ord = SideSell"
      "ValidateOrderRegistration (TrueRemaining ord) (o_Side ord) p = None" for ord
    using tracks_add [OF t that(1) tracks_validated [OF t that], of "o_Price ord"]
    by (auto simp: mp_RegisterOrder_def)
  ultimately show ?thesis using t by (auto simp: tracks_def)
qed

definition resting_order :: Order where
  "resting_order = zero_Order\<lparr>o_Side := SideBuy, o_Price := 7, o_Size := 5, o_Remaining := 5\<rparr>"

theorem potential_positions_exact_witness:
  "\<exists>p. mp_RegisterOrder resting_order (NewMarketPosition ''a'') = Ret p \<and> mp_buy p = 5
    \<and> (\<exists>p'. UpdateOnOrderChange SideBuy 7 5 False p = Ret p')"
proof -
  have "case mp_RegisterOrder resting_order (NewMarketPosition ''a'') of Ret p \<Rightarrow> mp_buy p = 5 | _ \<Rightarrow> False"
    by code_simp
  then obtain p where p: "mp_RegisterOrder resting_order (NewMarketPosition ''a'') = Ret p" "mp_buy p = 5"
    by (auto split: go.splits)
  have ord: "o_Side resting_order = SideBuy" "o_Price resting_order = 7" "TrueRemaining resting_order = 5"
    by (simp_all add: resting_order_def zero_Order_def TrueRemaining_def)
  have "ValidateOrderRegistration 5 SideBuy (NewMarketPosition ''a'') = None" by code_simp
  then have "lives {#(SideBuy, 7, 5)#} p"
    using lives.register [OF lives.new, of resting_order "''a''" p] p(1) by (simp add: ord)
  from potential_positions_exact [OF this] p show ?thesis by auto
qed

section \<open>Entry prices\<close>

lemma weighted_mean:
  fixes A B C v w :: Uint
  assumes "unat C = unat A + unat B" and "0 < unat C" and "unat A \<le> 2 ^ 63" and "unat B \<le> 2 ^ 63"
    and "v < 2 ^ 190" and "w < 2 ^ 190"
  shows "min v w \<le> Uint_Div (A * v + B * w) C \<and> Uint_Div (A * v + B * w) C \<le> max v w"
proof -
  have v: "unat v < 2 ^ 190" and w: "unat w < 2 ^ 190"
    using assms(5,6) by (simp_all add: word_less_nat_alt)
  have av: "unat A * unat v \<le> 2 ^ 63 * 2 ^ 190" using v assms(3) by (intro mult_le_mono) simp_all
  have bw: "unat B * unat w \<le> 2 ^ 63 * 2 ^ 190" using w assms(4) by (intro mult_le_mono) simp_all
  have av': "unat (A * v) = unat A * unat v" using av by (simp add: unat_word_ariths)
  have bw': "unat (B * w) = unat B * unat w" using bw by (simp add: unat_word_ariths)
  have num: "unat (A * v + B * w) = unat A * unat v + unat B * unat w"
    using av bw by (simp add: unat_word_ariths(1) av' bw')
  have "C \<noteq> 0" using assms(2) by auto
  then have div: "unat (Uint_Div (A * v + B * w) C) = (unat A * unat v + unat B * unat w) div unat C"
    by (simp add: Uint_Div_def unat_div num)
  let ?lo = "min (unat v) (unat w)" and ?hi = "max (unat v) (unat w)"
  have "?lo * unat C \<le> unat A * unat v + unat B * unat w"
    unfolding assms(1) distrib_left by (intro add_mono) (simp_all add: mult.commute [of "min _ _"])
  then have lo: "?lo \<le> unat (Uint_Div (A * v + B * w) C)"
    unfolding div using assms(2) by (simp add: less_eq_div_iff_mult_less_eq)
  have "unat A * unat v + unat B * unat w \<le> ?hi * unat C"
    unfolding assms(1) distrib_left by (intro add_mono) (simp_all add: mult.commute [of "max _ _"])
  then have hi: "unat (Uint_Div (A * v + B * w) C) \<le> ?hi"
    unfolding div using assms(2) by (metis div_le_mono nonzero_mult_div_cancel_right not_gr_zero)
  show ?thesis using lo hi by (auto simp: word_le_nat_alt min_def max_def)
qed

lemma unat_uintOf: "0 \<le> x \<Longrightarrow> x < 2 ^ 64 \<Longrightarrow> unat (uintOf x) = nat x"
  by (simp add: uintOf_def unat_NewUint unat_uint64_of)

lemma abs64_eq: "- (2 ^ 63) < x \<Longrightarrow> x < 2 ^ 63 \<Longrightarrow> abs64 x = \<bar>x\<bar>"
  by (auto simp: abs64_def intro: i64_small)

lemma unat_uintOf_abs: "- (2 ^ 63) < x \<Longrightarrow> x < 2 ^ 63 \<Longrightarrow> unat (uintOf (abs64 x)) = nat \<bar>x\<bar>"
  by (simp add: abs64_eq unat_uintOf)

lemma nat_abs_small: "- (2 ^ 63) < x \<Longrightarrow> x < 2 ^ 63 \<Longrightarrow> nat \<bar>x\<bar> \<le> 2 ^ 63" for x :: int
  by (simp add: nat_le_iff)

lemma mean_of_sizes:
  assumes "- (2 ^ 63) < a" "a < 2 ^ 63" "- (2 ^ 63) < b" "b < 2 ^ 63"
    and "unat C = nat \<bar>a\<bar> + nat \<bar>b\<bar>" and "C \<noteq> 0" and "v < 2 ^ 190" and "w < 2 ^ 190"
  shows "min v w \<le> Uint_Div (uintOf (abs64 a) * v + uintOf (abs64 b) * w) C
    \<and> Uint_Div (uintOf (abs64 a) * v + uintOf (abs64 b) * w) C \<le> max v w"
proof (rule weighted_mean [OF _ _ _ _ assms(7,8)])
  show "unat C = unat (uintOf (abs64 a)) + unat (uintOf (abs64 b))"
    unfolding unat_uintOf_abs [OF assms(1,2)] unat_uintOf_abs [OF assms(3,4)] by (rule assms(5))
  show "0 < unat C" using assms(6) by (simp add: unat_gt_0)
  show "unat (uintOf (abs64 a)) \<le> 2 ^ 63"
    unfolding unat_uintOf_abs [OF assms(1,2)] by (rule nat_abs_small [OF assms(1,2)])
  show "unat (uintOf (abs64 b)) \<le> 2 ^ 63"
    unfolding unat_uintOf_abs [OF assms(3,4)] by (rule nat_abs_small [OF assms(3,4)])
qed

lemma unat_uintOf_nonzero: "- (2 ^ 63) < x \<Longrightarrow> x < 2 ^ 63 \<Longrightarrow> x \<noteq> 0 \<Longrightarrow> uintOf (abs64 x) \<noteq> 0"
  using unat_uintOf_abs [of x] by (auto simp: unat_eq_0)

text \<open>
  C34: the entry price after a trade lies between the entry price before it and the price of the
  trade, whether the position grows, shrinks or changes sides, as long as the position is not
  closed, its size fits in 64 bits and the prices in 190.
\<close>

theorem CalcVWAP_between:
  assumes "- (2 ^ 63) < pos" and "pos < 2 ^ 63" and "- (2 ^ 63) < addVolume" and "addVolume < 2 ^ 63"
    and "- (2 ^ 63) < pos + addVolume" and "pos + addVolume < 2 ^ 63" and "pos + addVolume \<noteq> 0"
    and "vwap < 2 ^ 190" and "price < 2 ^ 190"
  shows "min vwap price \<le> CalcVWAP vwap pos addVolume (Some price)
    \<and> CalcVWAP vwap pos addVolume (Some price) \<le> max vwap price"
proof -
  define q where "q = pos + addVolume"
  have q: "- (2 ^ 63) < q" "q < 2 ^ 63" "q \<noteq> 0" using assms(5-7) by (simp_all add: q_def)
  have i64: "i64 (pos + addVolume) = q" using assms(5,6) by (simp add: i64_small q_def)
  have unat_q: "unat (uintOf (abs64 q)) = nat \<bar>q\<bar>" by (rule unat_uintOf_abs [OF q(1,2)])
  consider "i64 (q * pos) < 0" | "\<not> i64 (q * pos) < 0" "pos > 0 \<and> addVolume < 0 \<or> pos < 0 \<and> addVolume > 0"
    | "\<not> i64 (q * pos) < 0" "\<not> (pos > 0 \<and> addVolume < 0 \<or> pos < 0 \<and> addVolume > 0)" by blast
  then show ?thesis
  proof cases
    case 1
    have "nat \<bar>pos\<bar> + nat \<bar>q\<bar> \<le> 2 ^ 63 + 2 ^ 63"
      by (intro add_mono nat_abs_small assms(1,2) q(1,2))
    then have sum: "unat (uintOf (abs64 pos) + uintOf (abs64 q)) = nat \<bar>pos\<bar> + nat \<bar>q\<bar>"
      by (simp only: unat_word_ariths unat_q unat_uintOf_abs [OF assms(1,2)]) simp
    then have "uintOf (abs64 pos) + uintOf (abs64 q) \<noteq> 0"
    proof -
      have "0 < nat \<bar>q\<bar>" using q(3) by simp
      then show ?thesis using sum by (auto simp del: nat_abs_int_diff)
    qed
    from mean_of_sizes [OF assms(1,2) q(1,2) sum this assms(8,9)]
    show ?thesis using 1 q(3) by (simp only: CalcVWAP_def i64 Let_def option.case if_False if_True)
  next
    case 2
    then show ?thesis using q(3) by (simp add: CalcVWAP_def i64 Let_def)
  next
    case 3
    then have "\<bar>q\<bar> = \<bar>pos\<bar> + \<bar>addVolume\<bar>" by (auto simp: q_def)
    then have sum: "unat (uintOf (abs64 q)) = nat \<bar>pos\<bar> + nat \<bar>addVolume\<bar>"
      by (simp only: unat_q) (simp only: nat_add_distrib abs_ge_zero)
    from mean_of_sizes [OF assms(1-4) sum unat_uintOf_nonzero [OF q] assms(8,9)]
    show ?thesis using 3 q(3)
      by (simp only: CalcVWAP_def i64 Let_def option.case if_False mult.commute [of vwap] mult.commute [of price])
  qed
qed

theorem CalcVWAP_between_witness:
  "min 100 300 \<le> CalcVWAP 100 (-4) 8 (Some 300) \<and> CalcVWAP 100 (-4) 8 (Some 300) \<le> max 100 300"
  by (rule CalcVWAP_between) simp_all

lemma i64_negative: "i64 x < 0 \<longleftrightarrow> 0 < (- x) mod 2 ^ 64 \<and> (- x) mod 2 ^ 64 \<le> 2 ^ 63"
proof -
  define m where "m = (- x) mod 2 ^ 64"
  have "i64 x = (x + 2 ^ 63) mod 2 ^ 64 - 2 ^ 63"
    by (simp add: i64_def signed_take_bit_eq_take_bit_shift take_bit_eq_mod)
  also have "(x + 2 ^ 63) mod 2 ^ 64 = (2 ^ 63 - (- x) mod 2 ^ 64) mod 2 ^ 64"
    by (simp add: mod_diff_right_eq add.commute)
  finally have eq: "i64 x = (2 ^ 63 - m) mod 2 ^ 64 - 2 ^ 63" by (simp only: m_def)
  have m: "0 \<le> m" "m < 2 ^ 64" by (simp_all add: m_def)
  have "(2 ^ 63 - m) mod 2 ^ 64 = (if m \<le> 2 ^ 63 then 2 ^ 63 - m else 2 ^ 63 - m + 2 ^ 64)"
    using m mod_add_self2 [of "2 ^ 63 - m" "2 ^ 64 :: int"] mod_pos_pos_trivial [of "2 ^ 63 - m + 2 ^ 64" "2 ^ 64"]
    by (simp add: mod_pos_pos_trivial)
  thus ?thesis unfolding eq m_def [symmetric] using m by auto
qed

text \<open>
  C35: the test for a change of sides multiplies two 64-bit sizes, and the product wraps. When a
  trade turns a position of \<open>pos\<close> units into one of \<open>pos + addVolume\<close> units on the other side, the new
  entry price is the mean of the two prices weighted by the two sizes only if the product of the
  sizes, modulo \<open>2 ^ 64\<close>, lies between \<open>1\<close> and \<open>2 ^ 63\<close>. For all other sizes, such as a short of a
  multiple of \<open>2 ^ 32\<close> units that buys twice as many, the old entry price is kept, as if the
  position had only shrunk.
\<close>

theorem CalcVWAP_product_wraps:
  assumes "pos * (pos + addVolume) < 0" and "- (2 ^ 63) < pos" and "pos < 2 ^ 63"
    and "- (2 ^ 63) < pos + addVolume" and "pos + addVolume < 2 ^ 63"
  shows "CalcVWAP vwap pos addVolume (Some price) =
    (if 0 < \<bar>pos * (pos + addVolume)\<bar> mod 2 ^ 64 \<and> \<bar>pos * (pos + addVolume)\<bar> mod 2 ^ 64 \<le> 2 ^ 63
     then Uint_Div (uintOf \<bar>pos\<bar> * vwap + uintOf \<bar>pos + addVolume\<bar> * price) (uintOf \<bar>pos\<bar> + uintOf \<bar>pos + addVolume\<bar>)
     else vwap)"
proof -
  define q where "q = pos + addVolume"
  have sign: "pos * q < 0" and q: "i64 q = q" "q \<noteq> 0"
    using assms(1,4,5) by (auto simp: q_def i64_small)
  have crossed: "pos > 0 \<and> addVolume < 0 \<or> pos < 0 \<and> addVolume > 0"
    using sign by (auto simp: mult_less_0_iff q_def)
  have "- (q * pos) = \<bar>pos * q\<bar>" using sign by (simp add: mult.commute)
  hence "i64 (q * pos) < 0 \<longleftrightarrow> 0 < \<bar>pos * q\<bar> mod 2 ^ 64 \<and> \<bar>pos * q\<bar> mod 2 ^ 64 \<le> 2 ^ 63"
    by (simp only: i64_negative)
  moreover have "abs64 pos = \<bar>pos\<bar>" "abs64 q = \<bar>q\<bar>" using assms(2-5) by (simp_all only: abs64_eq q_def)
  ultimately show ?thesis
    unfolding q_def [symmetric] CalcVWAP_def option.case q(1) Let_def using q(2) crossed by (simp only: if_True if_False)
qed

theorem CalcVWAP_product_wraps_witness:
  "CalcVWAP 100 (-4294967296) 8589934592 (Some 300) = 100 \<and> CalcVWAP 100 (-4) 8 (Some 300) = 200"
  using CalcVWAP_product_wraps [of "-4294967296" 8589934592 100 300] CalcVWAP_product_wraps [of "-4" 8 100 300]
  by (simp add: Uint_Div_def uintOf_def NewUint_def uint64_of_def)

text \<open>
  C36: the preview of a position after trades averages a sale as if it were a purchase. A short of
  \<open>n\<close> units that sells another \<open>n\<close> doubles, but its entry price becomes zero.
\<close>

theorem preview_of_sale_loses_entry_price:
  assumes "mp_size p = - int64_of (t_Size t)" and "0 < int64_of (t_Size t)" and "int64_of (t_Size t) \<le> 2 ^ 62"
    and "UpdateInPlaceOnTrades SideSell [t] ord p = Ret p'"
  shows "mp_averageEntryPrice p' = 0 \<and> mp_size p' = 2 * mp_size p"
proof -
  have "mp_averageEntryPrice q' = mp_averageEntryPrice q \<and> mp_size q' = mp_size q"
    if "UpdateOnOrderChange sd price n add q = Ret q'" for sd price n add q q'
    using that by (auto simp: UpdateOnOrderChange_def gbind_Ret_iff split: if_splits)
  moreover have "i64 (- int64_of (t_Size t) - int64_of (t_Size t)) = - (2 * int64_of (t_Size t))"
    using assms(2,3) by (subst i64_small) simp_all
  moreover have "i64 (- int64_of (t_Size t) + int64_of (t_Size t)) = 0" by (simp add: i64_small)
  ultimately show ?thesis
    using assms(1,4) by (auto simp: gbind_Ret_iff Let_def CalcVWAP_def split: if_splits)
qed

definition short_position :: MarketPosition where
  "short_position = (NewMarketPosition ''a'')\<lparr>mp_size := -3, mp_sell := 3, mp_sellSumProduct := 300,
     mp_averageEntryPrice := 90\<rparr>"

definition sale :: Trade where
  "sale = \<lparr>t_ID = ''t'', t_MarketID = ''m'', t_Price = 110, t_MarketPrice = 110, t_Size = 3,
     t_Buyer = ''b'', t_Seller = ''a'', t_Aggressor = SideSell, t_BuyOrder = ''1'', t_SellOrder = ''2'',
     t_Timestamp = 0, t_Type = TradeTypeDefault, t_BuyerAuctionBatch = 0, t_SellerAuctionBatch = 0\<rparr>"

theorem preview_of_sale_loses_entry_price_witness:
  "\<exists>p'. UpdateInPlaceOnTrades SideSell [sale] (zero_Order\<lparr>o_Price := 100\<rparr>) short_position = Ret p'
    \<and> mp_averageEntryPrice p' = 0 \<and> mp_size p' = -6"
proof -
  have "case UpdateInPlaceOnTrades SideSell [sale] (zero_Order\<lparr>o_Price := 100\<rparr>) short_position of
    Ret p' \<Rightarrow> True | _ \<Rightarrow> False" by code_simp
  then obtain p' where p': "UpdateInPlaceOnTrades SideSell [sale] (zero_Order\<lparr>o_Price := 100\<rparr>) short_position = Ret p'"
    by (auto split: go.splits)
  have "int64_of (t_Size sale) = 3" "mp_size short_position = -3" by code_simp+
  from preview_of_sale_loses_entry_price [OF _ _ _ p'] this p' show ?thesis by auto
qed

end
