(* ===== verification/Positions_Engine.thy ===== *)
theory Positions_Engine
  imports Market_Position "HOL-Library.List_Lexorder" "HOL-Library.Char_ord"
begin

text \<open>
  The positions engine of a market (\<^verbatim>\<open>core/positions/engine.go\<close>). The map \<^verbatim>\<open>positions\<close> and the slice
  \<^verbatim>\<open>positionsCpy\<close> hold the same objects, so the slice is modelled by the parties of its entries and the
  map by their values; an update through either is a write to the map. The two sides of a trade may
  be the same party and then share one object: every read and write goes through the map. The
  broker is the list of the positions it was sent. The iteration order of the map does not affect
  any result; where entries are returned as a slice the code sorts them, or the order is that of the
  association list.
\<close>

section \<open>Data\<close>

record openVolumeRecord =
  ov_Latest :: uint64
  ov_Highest :: uint64

record PositionsEngine =
  e_marketID :: string
  e_positions :: "(string \<times> MarketPosition) list"
  e_positionsCpy :: "string list"
  e_updatedPositions :: "string list"
  e_streamVerbose :: bool
  e_sent :: "MarketPosition list"
  e_distressedPos :: "string list"
  e_partiesHighestVolume :: "(string \<times> openVolumeRecord) list"
  e_partiesTradedSize :: "(string \<times> uint64) list"

definition NetworkParty :: string where
  "NetworkParty = ''network''"

definition RecordLatest :: "int64 \<Rightarrow> openVolumeRecord \<Rightarrow> openVolumeRecord" where
  "RecordLatest sz ov =
     (let new = uint64_of (abs64 sz); ov = ov\<lparr>ov_Latest := new\<rparr>
      in if ov_Highest ov < new then ov\<lparr>ov_Highest := new\<rparr> else ov)"

definition Reset :: "openVolumeRecord \<Rightarrow> uint64 \<times> openVolumeRecord" where
  "Reset ov = (ov_Highest ov, ov\<lparr>ov_Highest := ov_Latest ov\<rparr>)"

definition NewPositions :: "string \<Rightarrow> bool \<Rightarrow> PositionsEngine" where
  "NewPositions marketID verbose =
     \<lparr>e_marketID = marketID, e_positions = [], e_positionsCpy = [], e_updatedPositions = [],
      e_streamVerbose = verbose, e_sent = [], e_distressedPos = [], e_partiesHighestVolume = [],
      e_partiesTradedSize = []\<rparr>"

section \<open>Events\<close>

definition bufferPosition :: "MarketPosition \<Rightarrow> PositionsEngine \<Rightarrow> PositionsEngine" where
  "bufferPosition pos e = e\<lparr>e_updatedPositions := List.insert (mp_partyID pos) (e_updatedPositions e)\<rparr>"

definition sendPosition :: "MarketPosition \<Rightarrow> PositionsEngine \<Rightarrow> PositionsEngine" where
  "sendPosition pos e = e\<lparr>e_sent := e_sent e @ [pos]\<rparr>"

definition positionUpdated :: "MarketPosition \<Rightarrow> PositionsEngine \<Rightarrow> PositionsEngine" where
  "positionUpdated pos e = (if e_streamVerbose e then sendPosition pos e else bufferPosition pos e)"

definition sendBufferedPosition :: "PositionsEngine \<Rightarrow> PositionsEngine" where
  "sendBufferedPosition e =
     e\<lparr>e_sent := e_sent e @ List.map_filter (map_of (e_positions e)) (sort (e_updatedPositions e)),
       e_updatedPositions := []\<rparr>"

definition FlushPositionEvents :: "PositionsEngine \<Rightarrow> PositionsEngine" where
  "FlushPositionEvents e =
     (if e_streamVerbose e \<or> e_updatedPositions e = [] then e else sendBufferedPosition e)"

section \<open>Orders\<close>

definition positionOf :: "string \<Rightarrow> PositionsEngine \<Rightarrow> MarketPosition" where
  "positionOf party e =
     (case map_of (e_positions e) party of None \<Rightarrow> NewMarketPosition party | Some pos \<Rightarrow> pos)"

definition putPosition :: "string \<Rightarrow> MarketPosition \<Rightarrow> PositionsEngine \<Rightarrow> PositionsEngine" where
  "putPosition party pos e = e\<lparr>e_positions := assoc_put party pos (e_positions e)\<rparr>"

definition e_ValidateOrder :: "Order \<Rightarrow> PositionsEngine \<Rightarrow> PositionError option" where
  "e_ValidateOrder ord e =
     ValidateOrderRegistration (TrueRemaining ord) (o_Side ord) (positionOf (o_Party ord) e)"

definition ValidateAmendOrder :: "Order \<Rightarrow> Order \<Rightarrow> PositionsEngine \<Rightarrow> PositionError option" where
  "ValidateAmendOrder ord newOrder e =
     (if TrueRemaining ord \<ge> TrueRemaining newOrder then None
      else ValidateOrderRegistration (TrueRemaining newOrder - TrueRemaining ord) (o_Side ord)
             (positionOf (o_Party ord) e))"

definition ensurePosition :: "string \<Rightarrow> PositionsEngine \<Rightarrow> PositionsEngine" where
  "ensurePosition party e =
     (case map_of (e_positions e) party of
        Some _ \<Rightarrow> e
      | None \<Rightarrow>
          (putPosition party (NewMarketPosition party) e)
            \<lparr>e_positionsCpy := e_positionsCpy e @ [party],
             e_partiesHighestVolume :=
               assoc_put party \<lparr>ov_Latest = 0, ov_Highest = 0\<rparr> (e_partiesHighestVolume e)\<rparr>)"

definition e_RegisterOrder ::
  "Order \<Rightarrow> PositionsEngine \<Rightarrow> (string, MarketPosition \<times> PositionsEngine) go" where
  "e_RegisterOrder ord e =
     (let e = ensurePosition (o_Party ord) e in
      gbind (mp_RegisterOrder ord (positionOf (o_Party ord) e)) (\<lambda>pos.
        Ret (pos, positionUpdated pos (putPosition (o_Party ord) pos e))))"

definition e_UnregisterOrder ::
  "Order \<Rightarrow> PositionsEngine \<Rightarrow> (string, MarketPosition \<times> PositionsEngine) go" where
  "e_UnregisterOrder ord e =
     (case map_of (e_positions e) (o_Party ord) of
        None \<Rightarrow> Panic ''could not find position in engine when unregistering order''
      | Some pos \<Rightarrow>
          gbind (mp_UnregisterOrder ord pos) (\<lambda>pos.
            Ret (pos, positionUpdated pos (putPosition (o_Party ord) pos e))))"

definition e_AmendOrder ::
  "Order \<Rightarrow> Order \<Rightarrow> PositionsEngine \<Rightarrow> (string, MarketPosition \<times> PositionsEngine) go" where
  "e_AmendOrder originalOrder newOrder e =
     (case map_of (e_positions e) (o_Party originalOrder) of
        None \<Rightarrow> Panic ''could not find position in engine when amending order''
      | Some pos \<Rightarrow>
          gbind (mp_AmendOrder originalOrder newOrder pos) (\<lambda>pos.
            Ret (pos, positionUpdated pos (putPosition (o_Party originalOrder) pos e))))"

section \<open>Trades\<close>

definition updatePartiesTradedSize :: "string \<Rightarrow> uint64 \<Rightarrow> PositionsEngine \<Rightarrow> PositionsEngine" where
  "updatePartiesTradedSize party sz e =
     e\<lparr>e_partiesTradedSize := assoc_put party
         ((case map_of (e_partiesTradedSize e) party of None \<Rightarrow> 0 | Some n \<Rightarrow> n) + sz)
         (e_partiesTradedSize e)\<rparr>"

definition recordVolume :: "string \<Rightarrow> int64 \<Rightarrow> PositionsEngine \<Rightarrow> (string, PositionsEngine) go" where
  "recordVolume party sz e =
     (case map_of (e_partiesHighestVolume e) party of
        None \<Rightarrow> Panic ''invalid memory address or nil pointer dereference''
      | Some ov \<Rightarrow>
          Ret (e\<lparr>e_partiesHighestVolume :=
                   assoc_put party (RecordLatest sz ov) (e_partiesHighestVolume e)\<rparr>))"

definition changePosition ::
  "string \<Rightarrow> (MarketPosition \<Rightarrow> (string, MarketPosition) go) \<Rightarrow> PositionsEngine
    \<Rightarrow> (string, PositionsEngine) go" where
  "changePosition party f e =
     gbind (f (positionOf party e)) (\<lambda>pos. Ret (putPosition party pos e))"

definition openLong :: "Trade \<Rightarrow> MarketPosition \<Rightarrow> MarketPosition" where
  "openLong trade p =
     (let sz = int64_of (t_Size trade) in
      p\<lparr>mp_averageEntryPrice := CalcVWAP (mp_averageEntryPrice p) (mp_size p) sz (Some (t_Price trade)),
        mp_size := i64 (mp_size p + sz)\<rparr>)"

definition openShort :: "Trade \<Rightarrow> MarketPosition \<Rightarrow> MarketPosition" where
  "openShort trade p =
     (let sz = int64_of (t_Size trade) in
      p\<lparr>mp_averageEntryPrice :=
          CalcVWAP (mp_averageEntryPrice p) (i64 (- mp_size p)) sz (Some (t_Price trade)),
        mp_size := i64 (mp_size p - sz)\<rparr>)"

definition priceNetwork :: "Trade \<Rightarrow> MarketPosition \<Rightarrow> MarketPosition" where
  "priceNetwork trade p =
     (if mp_partyID p = NetworkParty \<and> mp_price p = 0 then p\<lparr>mp_price := t_Price trade\<rparr> else p)"

definition tradePositions ::
  "Trade \<Rightarrow> Order \<Rightarrow> Order \<Rightarrow> PositionsEngine \<Rightarrow> (string, PositionsEngine) go" where
  "tradePositions trade passiveOrder aggressiveOrder e =
     (let (aggressive, passive) = (if o_Side aggressiveOrder = SideSell
                                   then (t_Seller trade, t_Buyer trade)
                                   else (t_Buyer trade, t_Seller trade))
      in gbind (changePosition (t_Buyer trade) (\<lambda>p. Ret (openLong trade p)) e) (\<lambda>e.
         gbind (changePosition (t_Seller trade) (\<lambda>p. Ret (openShort trade p)) e) (\<lambda>e.
         gbind (changePosition aggressive
                  (UpdateOnOrderChange (o_Side aggressiveOrder) (o_Price aggressiveOrder) (t_Size trade) False) e) (\<lambda>e.
         gbind (changePosition passive
                  (UpdateOnOrderChange (o_Side passiveOrder) (o_Price passiveOrder) (t_Size trade) False) e) (\<lambda>e.
         changePosition aggressive (\<lambda>p. Ret (priceNetwork trade p)) e)))))"

definition Update ::
  "Trade \<Rightarrow> Order \<Rightarrow> Order \<Rightarrow> PositionsEngine \<Rightarrow> (string, MarketPosition list \<times> PositionsEngine) go" where
  "Update trade passiveOrder aggressiveOrder e =
     (case (map_of (e_positions e) (t_Buyer trade), map_of (e_positions e) (t_Seller trade)) of
        (None, _) \<Rightarrow> Panic ''could not find buyer position''
      | (Some buyer, None) \<Rightarrow> Panic ''could not find seller position''
      | (Some buyer, Some seller) \<Rightarrow>
          if mp_buy buyer < int64_of (t_Size trade)
          then Panic ''trade with a potential buy position < to the trade size''
          else if mp_sell seller < int64_of (t_Size trade)
          then Panic ''trade with a potential sell position < to the trade size''
          else
            gbind (tradePositions trade passiveOrder aggressiveOrder e) (\<lambda>e.
              let buyer = positionOf (t_Buyer trade) e; seller = positionOf (t_Seller trade) e;
                  e = positionUpdated seller (positionUpdated buyer e)
              in gbind (recordVolume (mp_partyID buyer) (mp_size buyer) e) (\<lambda>e.
                 gbind (recordVolume (mp_partyID seller) (mp_size seller)
                          (updatePartiesTradedSize (mp_partyID buyer) (t_Size trade) e)) (\<lambda>e.
                   Ret ([buyer, seller],
                        updatePartiesTradedSize (mp_partyID seller) (t_Size trade) e)))))"

section \<open>Removing and marking\<close>

text \<open>Both ways to remove a party drop it from the maps and its first entry from the slice.\<close>

definition e_remove :: "string \<Rightarrow> PositionsEngine \<Rightarrow> PositionsEngine" where
  "e_remove party e =
     e\<lparr>e_positions := assoc_del party (e_positions e),
       e_partiesHighestVolume := assoc_del party (e_partiesHighestVolume e),
       e_distressedPos := filter (\<lambda>x. x \<noteq> party) (e_distressedPos e),
       e_positionsCpy := remove1 party (e_positionsCpy e)\<rparr>"

fun RemoveDistressed :: "string list \<Rightarrow> PositionsEngine \<Rightarrow> MarketPosition list \<times> PositionsEngine" where
  "RemoveDistressed [] e = ([], e)"
| "RemoveDistressed (party # parties) e =
     (let (ret, e') = RemoveDistressed parties (e_remove party e)
      in (case map_of (e_positions e) party of None \<Rightarrow> ret | Some pos \<Rightarrow> pos # ret, e'))"

definition UpdateMarkPrice :: "Uint \<Rightarrow> PositionsEngine \<Rightarrow> string list \<times> PositionsEngine" where
  "UpdateMarkPrice markPrice e =
     (e_positionsCpy e,
      e\<lparr>e_positions := map (\<lambda>(party, p). (party, p\<lparr>mp_price := markPrice\<rparr>)) (e_positions e)\<rparr>)"

definition setDistressed :: "bool \<Rightarrow> string \<Rightarrow> PositionsEngine \<Rightarrow> (string, PositionsEngine) go" where
  "setDistressed flag party e =
     (case map_of (e_positions e) party of
        None \<Rightarrow> Panic ''invalid memory address or nil pointer dereference''
      | Some pos \<Rightarrow> Ret (putPosition party (pos\<lparr>mp_distressed := flag\<rparr>) e))"

fun markEach ::
  "string list \<Rightarrow> string list \<Rightarrow> PositionsEngine \<Rightarrow> (string, string list \<times> string list \<times> PositionsEngine) go" where
  "markEach [] prev e = Ret ([], prev, e)"
| "markEach (c # closed) prev e =
     (if c \<in> set prev then markEach closed (filter (\<lambda>x. x \<noteq> c) prev) e
      else
        gbind (setDistressed True c e) (\<lambda>e.
        gbind (markEach closed prev (e\<lparr>e_distressedPos := List.insert c (e_distressedPos e)\<rparr>))
          (\<lambda>(nIDs, prev, e). Ret (c # nIDs, prev, e))))"

fun unmarkEach :: "string list \<Rightarrow> PositionsEngine \<Rightarrow> (string, PositionsEngine) go" where
  "unmarkEach [] e = Ret e"
| "unmarkEach (k # ks) e =
     gbind (setDistressed False k e) (\<lambda>e.
       unmarkEach ks (e\<lparr>e_distressedPos := filter (\<lambda>x. x \<noteq> k) (e_distressedPos e)\<rparr>))"

definition MarkDistressed ::
  "string list \<Rightarrow> PositionsEngine \<Rightarrow> (string, (string list \<times> string list) \<times> PositionsEngine) go" where
  "MarkDistressed closed e =
     gbind (markEach closed (e_distressedPos e) e) (\<lambda>(nIDs, prev, e).
       if prev = [] then Ret ((nIDs, []), e)
       else gbind (unmarkEach prev e) (\<lambda>e. Ret ((sort nIDs, sort prev), e)))"

definition GetClosedPositions :: "PositionsEngine \<Rightarrow> MarketPosition list \<times> PositionsEngine" where
  "GetClosedPositions e =
     (let out = filter Closed (map snd (e_positions e))
      in (sort_key mp_partyID out, fold e_remove (map mp_partyID out) e))"

section \<open>Queries\<close>

definition GetOpenInterest :: "PositionsEngine \<Rightarrow> uint64" where
  "GetOpenInterest e =
     sum_list (map (\<lambda>(_, p). if mp_size p > 0 then uint64_of (mp_size p) else 0) (e_positions e))"

text \<open>
  The loop of \<^verbatim>\<open>GetOpenInterestGivenTrades\<close> over the trades: the sizes changed so far and the change of
  the open interest.
\<close>

definition localSize :: "PositionsEngine \<Rightarrow> (string \<times> int64) list \<Rightarrow> string \<Rightarrow> int64" where
  "localSize e posLocal party =
     (case map_of posLocal party of
        Some n \<Rightarrow> n
      | None \<Rightarrow> (case map_of (e_positions e) party of None \<Rightarrow> 0 | Some p \<Rightarrow> mp_size p))"

fun interestChange ::
  "PositionsEngine \<Rightarrow> Trade list \<Rightarrow> (string \<times> int64) list \<Rightarrow> int64 \<Rightarrow> int64" where
  "interestChange e [] posLocal d = d"
| "interestChange e (t # ts) posLocal d =
     (if t_Seller t = t_Buyer t then interestChange e ts posLocal d
      else
        (let bPos = localSize e posLocal (t_Buyer t); sPos = localSize e posLocal (t_Seller t);
             bPosNew = i64 (bPos + int64_of (t_Size t)); sPosNew = i64 (sPos - int64_of (t_Size t));
             posLocal = assoc_put (t_Seller t) sPosNew (assoc_put (t_Buyer t) bPosNew posLocal)
         in interestChange e ts posLocal
              (i64 (d + (max 0 bPosNew - max 0 bPos + max 0 sPosNew - max 0 sPos)))))"

definition GetOpenInterestGivenTrades :: "Trade list \<Rightarrow> PositionsEngine \<Rightarrow> uint64" where
  "GetOpenInterestGivenTrades trades e =
     (let oi = GetOpenInterest e; d = interestChange e trades [] 0
      in if d < 0 then oi - uint64_of (i64 (- d)) else oi + uint64_of d)"

definition GetPositionByPartyID :: "string \<Rightarrow> PositionsEngine \<Rightarrow> MarketPosition option" where
  "GetPositionByPartyID party e = map_of (e_positions e) party"

definition GetPositionsByParty :: "string list \<Rightarrow> PositionsEngine \<Rightarrow> MarketPosition list" where
  "GetPositionsByParty ids e = List.map_filter (map_of (e_positions e)) ids"

definition Parties :: "PositionsEngine \<Rightarrow> string list" where
  "Parties e = map (mp_partyID \<circ> snd) (e_positions e)"

definition GetOpenPositionCount :: "PositionsEngine \<Rightarrow> uint64" where
  "GetOpenPositionCount e =
     of_nat (length (filter (\<lambda>party. mp_size (positionOf party e) \<noteq> 0) (e_positionsCpy e)))"

section \<open>Epochs\<close>

definition GetPartiesLowestOpenInterestForEpoch ::
  "PositionsEngine \<Rightarrow> (string \<times> uint64) list \<times> PositionsEngine" where
  "GetPartiesLowestOpenInterestForEpoch e =
     (map (\<lambda>(party, ov). (party, fst (Reset ov))) (e_partiesHighestVolume e),
      e\<lparr>e_partiesHighestVolume := map (\<lambda>(party, ov). (party, snd (Reset ov))) (e_partiesHighestVolume e)\<rparr>)"

definition GetPartiesTradedVolumeForEpoch ::
  "PositionsEngine \<Rightarrow> (string \<times> uint64) list \<times> PositionsEngine" where
  "GetPartiesTradedVolumeForEpoch e = (e_partiesTradedSize e, e\<lparr>e_partiesTradedSize := []\<rparr>)"

end
