(* ===== verification/Positions_Props.thy ===== *)
theory Positions_Props
  imports Positions_Engine "HOL-Library.Multiset"
begin

text \<open>
  Properties of the positions engine: over any sequence of calls the sizes of the positions and of
  those that were removed add up to zero, and the open interest predicted for a list of trades is
  the one after they happened. The sums are taken in 64-bit arithmetic, as the engine takes them,
  and need no bound on the sizes.
\<close>

section \<open>64-bit arithmetic\<close>

lemma uint64_of_0 [simp]: "uint64_of 0 = 0"
  by (simp add: uint64_of_def)

lemma uint64_of_add: "uint64_of (x + y) = uint64_of x + uint64_of y"
  by (simp add: uint64_of_def)

lemma uint64_of_diff: "uint64_of (x - y) = uint64_of x - uint64_of y"
  by (simp add: uint64_of_def)

lemma uint64_of_uminus: "uint64_of (- x) = - uint64_of x"
  by (simp add: uint64_of_def)

lemmas uint64_of_arith = uint64_of_add uint64_of_diff uint64_of_uminus

lemma i64_cong: "uint64_of x = uint64_of y \<Longrightarrow> i64 x = i64 y"
  by (simp add: uint64_of_def i64_def word_of_int_eq_iff signed_take_bit_eq_iff_take_bit_eq)

definition in64 :: "int \<Rightarrow> bool" where
  "in64 x \<longleftrightarrow> - (2 ^ 63) \<le> x \<and> x < 2 ^ 63"

lemma in64_i64 [simp]: "in64 (i64 x)"
  using i64_range [of x] by (simp add: in64_def)

lemma i64_in64: "in64 x \<Longrightarrow> i64 x = x"
  by (simp add: in64_def i64_small)

section \<open>The sizes of the positions\<close>

definition sizes :: "PositionsEngine \<Rightarrow> (string \<times> int64) list" where
  "sizes e = map (\<lambda>(party, p). (party, mp_size p)) (e_positions e)"

lemma map_of_sizes: "map_of (sizes e) party = map_option mp_size (map_of (e_positions e) party)"
  by (simp add: sizes_def map_of_map)

lemma assoc_put_same: "map_of kvs k = Some v \<Longrightarrow> assoc_put k v kvs = kvs"
  by (induction kvs) (auto split: if_splits)

lemma map_assoc_put: "map (\<lambda>(k, v). (k, f v)) (assoc_put k v kvs) = assoc_put k (f v) (map (\<lambda>(k, v). (k, f v)) kvs)"
  by (induction kvs) auto

lemma sizes_put: "sizes (putPosition party p e) = assoc_put party (mp_size p) (sizes e)"
  by (simp add: sizes_def putPosition_def map_assoc_put)

lemma sizes_put_same:
  assumes "map_of (e_positions e) party \<noteq> None" and "mp_size p = mp_size (positionOf party e)"
  shows "sizes (putPosition party p e) = sizes e"
  using assms by (auto simp: sizes_put positionOf_def map_of_sizes intro!: assoc_put_same)

lemma sizes_frame [simp]:
  "sizes (positionUpdated p e) = sizes e" "sizes (updatePartiesTradedSize party n e) = sizes e"
  by (simp_all add: sizes_def positionUpdated_def sendPosition_def bufferPosition_def updatePartiesTradedSize_def)

lemma sizes_recordVolume: "recordVolume party n e = Ret e' \<Longrightarrow> sizes e' = sizes e"
  by (auto simp: recordVolume_def sizes_def split: option.splits)

lemma changeSide_frame:
  "UpdateOnOrderChange sd price n add p = Ret p' \<Longrightarrow>
     mp_size p' = mp_size p \<and> mp_partyID p' = mp_partyID p"
  by (auto simp: UpdateOnOrderChange_def gbind_Ret_iff split: if_splits)

lemma positions_put [simp]: "e_positions (putPosition party p e) = assoc_put party p (e_positions e)"
  by (simp add: putPosition_def)

lemma changePosition_sizes:
  assumes "changePosition party f e = Ret e'" and "map_of (sizes e) party \<noteq> None"
    and "\<And>p p'. f p = Ret p' \<Longrightarrow> mp_size p' = g (mp_size p)"
  shows "sizes e' = assoc_put party (g (the (map_of (sizes e) party))) (sizes e)"
  using assms by (auto simp: changePosition_def gbind_Ret_iff sizes_put positionOf_def map_of_sizes)

lemma changePosition_keeps:
  assumes "changePosition party f e = Ret e'" and "map_of (sizes e) party \<noteq> None"
    and "\<And>p p'. f p = Ret p' \<Longrightarrow> mp_size p' = mp_size p"
  shows "sizes e' = sizes e"
  using changePosition_sizes [OF assms(1,2), of "\<lambda>n. n"] assms(2,3)
  by (auto simp: map_of_sizes intro!: assoc_put_same)

definition afterTrade :: "Trade \<Rightarrow> (string \<times> int64) list \<Rightarrow> (string \<times> int64) list" where
  "afterTrade t ss =
     (let ss = assoc_put (t_Buyer t) (i64 (the (map_of ss (t_Buyer t)) + int64_of (t_Size t))) ss
      in assoc_put (t_Seller t) (i64 (the (map_of ss (t_Seller t)) - int64_of (t_Size t))) ss)"

lemma tradePositions_steps:
  assumes "tradePositions t passive aggressive e = Ret e'"
  obtains a p e1 e2 e3 e4 where "{a, p} = {t_Buyer t, t_Seller t}" and
    "changePosition (t_Buyer t) (\<lambda>p. Ret (openLong t p)) e = Ret e1" and
    "changePosition (t_Seller t) (\<lambda>p. Ret (openShort t p)) e1 = Ret e2" and
    "changePosition a (UpdateOnOrderChange (o_Side aggressive) (o_Price aggressive) (t_Size t) False) e2 = Ret e3" and
    "changePosition p (UpdateOnOrderChange (o_Side passive) (o_Price passive) (t_Size t) False) e3 = Ret e4" and
    "changePosition a (\<lambda>p. Ret (priceNetwork t p)) e4 = Ret e'"
proof -
  obtain a p where ap: "(a, p) = (if o_Side aggressive = SideSell then (t_Seller t, t_Buyer t)
      else (t_Buyer t, t_Seller t))" by (metis surj_pair)
  then have "{a, p} = {t_Buyer t, t_Seller t}" by (auto split: if_splits)
  then show thesis
    using assms that unfolding tradePositions_def ap [symmetric] by (auto simp: gbind_Ret_iff)
qed

lemma tradePositions_sizes:
  assumes "tradePositions t passive aggressive e = Ret e'"
    and "map_of (sizes e) (t_Buyer t) \<noteq> None" and "map_of (sizes e) (t_Seller t) \<noteq> None"
  shows "sizes e' = afterTrade t (sizes e)"
proof -
  obtain a p e1 e2 e3 e4 where ap: "{a, p} = {t_Buyer t, t_Seller t}" and
    e1: "changePosition (t_Buyer t) (\<lambda>p. Ret (openLong t p)) e = Ret e1" and
    e2: "changePosition (t_Seller t) (\<lambda>p. Ret (openShort t p)) e1 = Ret e2" and
    e3: "changePosition a (UpdateOnOrderChange (o_Side aggressive) (o_Price aggressive) (t_Size t) False) e2 = Ret e3" and
    e4: "changePosition p (UpdateOnOrderChange (o_Side passive) (o_Price passive) (t_Size t) False) e3 = Ret e4" and
    e5: "changePosition a (\<lambda>p. Ret (priceNetwork t p)) e4 = Ret e'"
    by (rule tradePositions_steps [OF assms(1)])
  have s1: "sizes e1 = assoc_put (t_Buyer t) (i64 (the (map_of (sizes e) (t_Buyer t)) + int64_of (t_Size t))) (sizes e)"
    by (rule changePosition_sizes [OF e1]) (use assms(2) in \<open>auto simp: map_of_sizes openLong_def Let_def\<close>)
  have s2: "sizes e2 = assoc_put (t_Seller t) (i64 (the (map_of (sizes e1) (t_Seller t)) - int64_of (t_Size t))) (sizes e1)"
    by (rule changePosition_sizes [OF e2])
      (use assms(3) s1 in \<open>auto simp: openShort_def Let_def\<close>)
  have in2: "map_of (sizes e2) a \<noteq> None" "map_of (sizes e2) p \<noteq> None"
    using ap assms(2,3) s1 s2 by (auto simp: doubleton_eq_iff)
  have s3: "sizes e3 = sizes e2"
    by (rule changePosition_keeps [OF e3]) (use in2 in \<open>auto simp: changeSide_frame\<close>)
  have s4: "sizes e4 = sizes e3"
    by (rule changePosition_keeps [OF e4]) (use in2 s3 in \<open>auto simp: changeSide_frame\<close>)
  have s5: "sizes e' = sizes e4"
    by (rule changePosition_keeps [OF e5])
      (use in2 s3 s4 in \<open>auto simp: priceNetwork_def\<close>)
  show ?thesis by (simp add: s5 s4 s3 s2 s1 afterTrade_def Let_def)
qed

lemma Update_sizes:
  assumes "Update t passive aggressive e = Ret (ps, e')"
  shows "map_of (sizes e) (t_Buyer t) \<noteq> None \<and> map_of (sizes e) (t_Seller t) \<noteq> None
    \<and> sizes e' = afterTrade t (sizes e)"
proof -
  have in_e: "map_of (sizes e) (t_Buyer t) \<noteq> None" "map_of (sizes e) (t_Seller t) \<noteq> None"
    using assms by (auto simp: Update_def map_of_sizes split: option.splits)
  obtain e1 where e1: "tradePositions t passive aggressive e = Ret e1" and "sizes e' = sizes e1"
    using assms unfolding Update_def
    by (auto simp: Let_def gbind_Ret_iff split: option.splits if_splits dest!: sizes_recordVolume)
  with tradePositions_sizes [OF e1 in_e] in_e show ?thesis by simp
qed

section \<open>The invariant of the engine\<close>

text \<open>
  \<open>shape_ok\<close>: the keys of the maps and the entries of the slice are the same parties, each once, every
  position carries its party, and sizes fit in 64 bits. \<open>net\<close> is the 64-bit sum of all sizes.
\<close>

definition position_ok :: "string \<Rightarrow> MarketPosition \<Rightarrow> bool" where
  "position_ok party p \<longleftrightarrow> mp_partyID p = party \<and> in64 (mp_size p)"

definition shape_ok :: "PositionsEngine \<Rightarrow> bool" where
  "shape_ok e \<longleftrightarrow> distinct (map fst (e_positions e))
     \<and> (\<forall>(party, p) \<in> set (e_positions e). position_ok party p)
     \<and> fst ` set (e_partiesHighestVolume e) = fst ` set (e_positions e)
     \<and> distinct (e_positionsCpy e) \<and> set (e_positionsCpy e) = fst ` set (e_positions e)"

definition net :: "PositionsEngine \<Rightarrow> uint64" where
  "net e = sum_list (map (uint64_of \<circ> snd) (sizes e))"

lemma keys_sizes [simp]: "map fst (sizes e) = map fst (e_positions e)"
  by (simp add: sizes_def comp_def case_prod_beta)

lemma shape_ok_look: "shape_ok e \<Longrightarrow> map_of (e_positions e) party = Some p \<Longrightarrow> position_ok party p"
  by (auto simp: shape_ok_def dest: map_of_SomeD)

lemma shape_ok_positionOf:
  "shape_ok e \<Longrightarrow> position_ok party (positionOf party e)"
  by (auto simp: positionOf_def position_ok_def NewMarketPosition_def in64_def split: option.split
      dest: shape_ok_look)

lemma shape_ok_put:
  assumes "shape_ok e" and "map_of (e_positions e) party \<noteq> None" and "position_ok party p"
  shows "shape_ok (putPosition party p e)"
proof -
  have "party \<in> fst ` set (e_positions e)" using assms(2) by (auto simp: map_of_eq_None_iff)
  then have "insert party (fst ` set (e_positions e)) = fst ` set (e_positions e)" by (rule insert_absorb)
  then show ?thesis
    using assms(1,3) set_assoc_put [of party p "e_positions e"]
    by (auto simp: shape_ok_def putPosition_def distinct_assoc_put)
qed

lemma shape_ok_frame [simp]:
  "shape_ok (positionUpdated p e) = shape_ok e" "shape_ok (updatePartiesTradedSize party n e) = shape_ok e"
  by (simp_all add: shape_ok_def positionUpdated_def sendPosition_def bufferPosition_def updatePartiesTradedSize_def)

lemma shape_ok_recordVolume:
  assumes "recordVolume party n e = Ret e'" and "shape_ok e"
  shows "shape_ok e'"
proof -
  obtain ov where ov: "map_of (e_partiesHighestVolume e) party = Some ov"
    and e': "e' = e\<lparr>e_partiesHighestVolume := assoc_put party (RecordLatest n ov) (e_partiesHighestVolume e)\<rparr>"
    using assms(1) by (auto simp: recordVolume_def split: option.splits)
  have "party \<in> fst ` set (e_partiesHighestVolume e)" using map_of_SomeD [OF ov] by force
  then show ?thesis using assms(2) by (simp add: e' shape_ok_def insert_absorb)
qed

lemma shape_ok_change:
  assumes "changePosition party f e = Ret e'" and "shape_ok e" and "map_of (sizes e) party \<noteq> None"
    and "\<And>p p'. f p = Ret p' \<Longrightarrow> position_ok party p \<Longrightarrow> position_ok party p'"
  shows "shape_ok e'"
proof -
  obtain p where "f (positionOf party e) = Ret p" "e' = putPosition party p e"
    using assms(1) by (auto simp: changePosition_def gbind_Ret_iff)
  then show ?thesis
    using shape_ok_put [OF assms(2), of party p] assms(3) assms(4) shape_ok_positionOf [OF assms(2)]
    by (simp add: map_of_sizes)
qed

lemma position_ok_change:
  "UpdateOnOrderChange sd price n add p = Ret p' \<Longrightarrow> position_ok party p \<Longrightarrow> position_ok party p'"
  by (auto simp: position_ok_def dest: changeSide_frame)

lemma change_present:
  "changePosition party f e = Ret e' \<Longrightarrow> map_of (sizes e) q \<noteq> None \<Longrightarrow> map_of (sizes e') q \<noteq> None"
  by (auto simp: changePosition_def gbind_Ret_iff sizes_put)

lemma shape_ok_tradePositions:
  assumes "tradePositions t passive aggressive e = Ret e'" and "shape_ok e"
    and "map_of (sizes e) (t_Buyer t) \<noteq> None" and "map_of (sizes e) (t_Seller t) \<noteq> None"
  shows "shape_ok e'"
proof -
  obtain a p e1 e2 e3 e4 where ap: "{a, p} = {t_Buyer t, t_Seller t}" and
    e1: "changePosition (t_Buyer t) (\<lambda>p. Ret (openLong t p)) e = Ret e1" and
    e2: "changePosition (t_Seller t) (\<lambda>p. Ret (openShort t p)) e1 = Ret e2" and
    e3: "changePosition a (UpdateOnOrderChange (o_Side aggressive) (o_Price aggressive) (t_Size t) False) e2 = Ret e3" and
    e4: "changePosition p (UpdateOnOrderChange (o_Side passive) (o_Price passive) (t_Size t) False) e3 = Ret e4" and
    e5: "changePosition a (\<lambda>p. Ret (priceNetwork t p)) e4 = Ret e'"
    by (rule tradePositions_steps [OF assms(1)])
  have ok1: "shape_ok e1"
    by (rule shape_ok_change [OF e1 assms(2,3)]) (auto simp: position_ok_def openLong_def Let_def)
  have ok2: "shape_ok e2"
    by (rule shape_ok_change [OF e2 ok1 change_present [OF e1 assms(4)]])
      (auto simp: position_ok_def openShort_def Let_def)
  have in2: "map_of (sizes e2) a \<noteq> None" "map_of (sizes e2) p \<noteq> None"
    using ap change_present [OF e2 change_present [OF e1]] assms(3,4) by (auto simp: doubleton_eq_iff)
  have ok3: "shape_ok e3" by (rule shape_ok_change [OF e3 ok2 in2(1)]) (rule position_ok_change)
  have ok4: "shape_ok e4"
    by (rule shape_ok_change [OF e4 ok3 change_present [OF e3 in2(2)]]) (rule position_ok_change)
  show ?thesis
    by (rule shape_ok_change [OF e5 ok4 change_present [OF e4 change_present [OF e3 in2(1)]]])
      (auto simp: position_ok_def priceNetwork_def)
qed

lemma shape_ok_Update:
  assumes "Update t passive aggressive e = Ret (ps, e')" and "shape_ok e"
  shows "shape_ok e'"
proof -
  note in_e = Update_sizes [OF assms(1)]
  obtain e1 e2 e3 where e1: "tradePositions t passive aggressive e = Ret e1"
    and e2: "recordVolume (mp_partyID (positionOf (t_Buyer t) e1)) (mp_size (positionOf (t_Buyer t) e1))
      (positionUpdated (positionOf (t_Seller t) e1) (positionUpdated (positionOf (t_Buyer t) e1) e1)) = Ret e2"
    and e3: "recordVolume (mp_partyID (positionOf (t_Seller t) e1)) (mp_size (positionOf (t_Seller t) e1))
      (updatePartiesTradedSize (mp_partyID (positionOf (t_Buyer t) e1)) (t_Size t) e2) = Ret e3"
    and e': "e' = updatePartiesTradedSize (mp_partyID (positionOf (t_Seller t) e1)) (t_Size t) e3"
    using assms(1) unfolding Update_def
    by (auto simp: Let_def gbind_Ret_iff split: option.splits if_splits)
  have "shape_ok e1" using shape_ok_tradePositions [OF e1 assms(2)] in_e by simp
  then have "shape_ok e2" using shape_ok_recordVolume [OF e2] by simp
  then have "shape_ok e3" using shape_ok_recordVolume [OF e3] by simp
  then show ?thesis by (simp add: e')
qed

text \<open>The sum of any function of the sizes changes by what the two sides of the trade change.\<close>

lemma sum_afterTrade:
  fixes f :: "int64 \<Rightarrow> 'b::ab_group_add"
  assumes "distinct (map fst ss)" and "map_of ss (t_Buyer t) = Some b"
    and "map_of ss (t_Seller t) = Some s"
    and "b' = i64 (b + int64_of (t_Size t))" and "q = (if t_Seller t = t_Buyer t then b' else s)"
  shows "sum_list (map (f \<circ> snd) (afterTrade t ss))
    = sum_list (map (f \<circ> snd) ss) + (f b' - f b) + (f (i64 (q - int64_of (t_Size t))) - f q)"
proof -
  define ss1 where "ss1 = assoc_put (t_Buyer t) b' ss"
  have d1: "distinct (map fst ss1)" using assms(1) by (simp add: ss1_def distinct_assoc_put)
  have q: "map_of ss1 (t_Seller t) = Some q" using assms(3,5) by (simp add: ss1_def)
  have "afterTrade t ss = assoc_put (t_Seller t) (i64 (q - int64_of (t_Size t))) ss1"
    using q assms(2,4) by (simp add: afterTrade_def ss1_def)
  moreover have "sum_list (map (f \<circ> snd) ss1) = sum_list (map (f \<circ> snd) ss) - f b + f b'"
    unfolding ss1_def by (rule sum_assoc_put_Some [OF assms(1,2)])
  ultimately show ?thesis
    by (simp only: sum_assoc_put_Some [OF d1 q]) (simp add: algebra_simps)
qed

lemma net_Update:
  assumes "Update t passive aggressive e = Ret (ps, e')" and "shape_ok e"
  shows "net e' = net e"
proof -
  note u = Update_sizes [OF assms(1)]
  then obtain b s where bs: "map_of (sizes e) (t_Buyer t) = Some b" "map_of (sizes e) (t_Seller t) = Some s"
    by blast
  have d: "distinct (map fst (sizes e))" using assms(2) by (simp add: shape_ok_def)
  show ?thesis
    using u sum_afterTrade [OF d bs refl refl, of uint64_of] by (simp add: net_def uint64_of_arith)
qed

section \<open>Every call keeps the invariant\<close>

definition engine_ok :: "uint64 \<Rightarrow> PositionsEngine \<Rightarrow> bool" where
  "engine_ok n e \<longleftrightarrow> shape_ok e \<and> net e = n"

lemma engine_ok_frame [simp]: "engine_ok n (positionUpdated p e) = engine_ok n e"
  by (simp add: engine_ok_def net_def)

lemma engine_ok_put:
  assumes "engine_ok n e" and "map_of (e_positions e) party = Some p" and "position_ok party p'"
    and "mp_size p' = mp_size p"
  shows "engine_ok n (putPosition party p' e)"
  using assms shape_ok_put [of e party p'] sizes_put_same [of e party p']
  by (simp add: engine_ok_def net_def positionOf_def)

lemma engine_ok_ensure:
  assumes "engine_ok n e"
  shows "engine_ok n (ensurePosition party e)"
    and "map_of (e_positions (ensurePosition party e)) party \<noteq> None"
proof -
  show "map_of (e_positions (ensurePosition party e)) party \<noteq> None"
    by (auto simp: ensurePosition_def split: option.splits)
  show "engine_ok n (ensurePosition party e)"
  proof (cases "map_of (e_positions e) party")
    case None
    let ?e = "ensurePosition party e"
    have new: "?e = (putPosition party (NewMarketPosition party) e)
        \<lparr>e_positionsCpy := e_positionsCpy e @ [party],
         e_partiesHighestVolume := assoc_put party \<lparr>ov_Latest = 0, ov_Highest = 0\<rparr> (e_partiesHighestVolume e)\<rparr>"
      using None by (simp add: ensurePosition_def)
    have "sizes ?e = assoc_put party 0 (sizes e)"
      by (simp add: new sizes_def putPosition_def map_assoc_put NewMarketPosition_def)
    then have "net ?e = net e"
      using None sum_assoc_put_None [of "sizes e" party uint64_of 0] by (simp add: net_def map_of_sizes)
    moreover have "shape_ok ?e"
      using assms None set_assoc_put [of party "NewMarketPosition party" "e_positions e"]
      by (auto simp: new engine_ok_def shape_ok_def putPosition_def distinct_assoc_put map_of_eq_None_iff
          position_ok_def NewMarketPosition_def in64_def)
    ultimately show ?thesis using assms by (simp add: engine_ok_def)
  qed (simp add: ensurePosition_def assms)
qed

lemma engine_ok_RegisterOrder:
  assumes "e_RegisterOrder ord e = Ret (p, e')" and "engine_ok n e"
  shows "engine_ok n e'"
proof -
  let ?e = "ensurePosition (o_Party ord) e"
  note ens = engine_ok_ensure [OF assms(2), of "o_Party ord"]
  from ens(2) obtain p0 where p0: "map_of (e_positions ?e) (o_Party ord) = Some p0" by blast
  then have reg: "mp_RegisterOrder ord p0 = Ret p" "e' = positionUpdated p (putPosition (o_Party ord) p ?e)"
    using assms(1) by (auto simp: e_RegisterOrder_def gbind_Ret_iff positionOf_def Let_def)
  have "position_ok (o_Party ord) p0" using ens(1) p0 by (auto simp: engine_ok_def intro: shape_ok_look)
  then show ?thesis
    using reg engine_ok_put [OF ens(1) p0, of p]
    by (auto simp: mp_RegisterOrder_def dest: changeSide_frame position_ok_change)
qed

lemma engine_ok_change:
  assumes "map_of (e_positions e) party = Some p0" and "engine_ok n e"
    and "mp_size p = mp_size p0" and "mp_partyID p = mp_partyID p0"
  shows "engine_ok n (positionUpdated p (putPosition party p e))"
proof -
  have "position_ok party p0" using assms(1,2) by (auto simp: engine_ok_def intro: shape_ok_look)
  then show ?thesis using engine_ok_put [OF assms(2,1), of p] assms(3,4) by (simp add: position_ok_def)
qed

lemma engine_ok_UnregisterOrder:
  assumes "e_UnregisterOrder ord e = Ret (p, e')" and "engine_ok n e"
  shows "engine_ok n e'"
  using assms by (auto simp: e_UnregisterOrder_def gbind_Ret_iff mp_UnregisterOrder_def split: option.splits
      dest!: changeSide_frame intro!: engine_ok_change)

lemma engine_ok_AmendOrder:
  assumes "e_AmendOrder old new e = Ret (p, e')" and "engine_ok n e"
  shows "engine_ok n e'"
  using assms by (auto simp: e_AmendOrder_def gbind_Ret_iff mp_AmendOrder_def mp_UnregisterOrder_def
      mp_RegisterOrder_def split: option.splits if_splits dest!: changeSide_frame intro!: engine_ok_change)

lemma engine_ok_Update:
  "Update t passive aggressive e = Ret (ps, e') \<Longrightarrow> engine_ok n e \<Longrightarrow> engine_ok n e'"
  by (simp add: engine_ok_def shape_ok_Update net_Update)

lemma engine_ok_UpdateMarkPrice:
  assumes "engine_ok n e"
  shows "engine_ok n (snd (UpdateMarkPrice price e))"
proof -
  define ps where "ps = map (\<lambda>(party, p). (party, p\<lparr>mp_price := price\<rparr>)) (e_positions e)"
  have e': "snd (UpdateMarkPrice price e) = e\<lparr>e_positions := ps\<rparr>"
    by (simp add: UpdateMarkPrice_def ps_def)
  have keys: "map fst ps = map fst (e_positions e)"
    by (simp add: ps_def comp_def case_prod_beta)
  then have "fst ` set ps = fst ` set (e_positions e)" by (simp only: flip: set_map)
  moreover have "\<forall>(party, p) \<in> set ps. position_ok party p"
    using assms by (auto simp: ps_def engine_ok_def shape_ok_def position_ok_def)
  moreover have "sizes (e\<lparr>e_positions := ps\<rparr>) = sizes e"
    by (simp add: ps_def sizes_def case_prod_beta)
  ultimately show ?thesis using assms keys by (simp add: e' engine_ok_def shape_ok_def net_def)
qed

lemma engine_ok_setDistressed:
  assumes "setDistressed flag party e = Ret e'" and "engine_ok n e"
  shows "engine_ok n e'"
proof -
  obtain p where p: "map_of (e_positions e) party = Some p" "e' = putPosition party (p\<lparr>mp_distressed := flag\<rparr>) e"
    using assms(1) by (auto simp: setDistressed_def split: option.splits)
  have "position_ok party p" using assms(2) p(1) by (auto simp: engine_ok_def intro: shape_ok_look)
  then show ?thesis using engine_ok_put [OF assms(2) p(1)] p(2) by (simp add: position_ok_def)
qed

lemma engine_ok_distressedPos [simp]: "engine_ok n (e\<lparr>e_distressedPos := ds\<rparr>) = engine_ok n e"
  by (simp add: engine_ok_def shape_ok_def net_def sizes_def)

lemma engine_ok_markEach:
  "markEach closed prev e = Ret (nIDs, prev', e') \<Longrightarrow> engine_ok n e \<Longrightarrow> engine_ok n e'"
  by (induction closed prev e arbitrary: nIDs rule: markEach.induct)
    (fastforce simp: gbind_Ret_iff dest: engine_ok_setDistressed split: if_splits)+

lemma engine_ok_unmarkEach: "unmarkEach ks e = Ret e' \<Longrightarrow> engine_ok n e \<Longrightarrow> engine_ok n e'"
  by (induction ks e rule: unmarkEach.induct) (auto simp: gbind_Ret_iff dest: engine_ok_setDistressed)

lemma engine_ok_MarkDistressed:
  "MarkDistressed closed e = Ret (ids, e') \<Longrightarrow> engine_ok n e \<Longrightarrow> engine_ok n e'"
  by (auto simp: MarkDistressed_def gbind_Ret_iff split: if_splits
      dest!: engine_ok_markEach engine_ok_unmarkEach)

lemma assoc_del_absent: "map_of kvs k = None \<Longrightarrow> assoc_del k kvs = kvs"
  by (induction kvs) (auto simp: assoc_del_def split: if_splits)

lemma map_assoc_del: "map (\<lambda>(k, v). (k, f v)) (assoc_del k kvs) = assoc_del k (map (\<lambda>(k, v). (k, f v)) kvs)"
  by (induction kvs) (auto simp: assoc_del_def)

lemma sizes_remove: "sizes (e_remove party e) = assoc_del party (sizes e)"
  by (simp add: sizes_def e_remove_def map_assoc_del)

text \<open>Removing a party takes its size out of the sum; a party without a position counts as zero.\<close>

definition sizeOf :: "string \<Rightarrow> PositionsEngine \<Rightarrow> uint64" where
  "sizeOf party e = (case map_of (e_positions e) party of None \<Rightarrow> 0 | Some p \<Rightarrow> uint64_of (mp_size p))"

lemma engine_ok_removed:
  assumes "engine_ok n e"
  shows "engine_ok (n - sizeOf party e) (e_remove party e)"
proof -
  have d: "distinct (map fst (sizes e))" using assms(1) by (simp add: engine_ok_def shape_ok_def)
  have "sum_list (map (uint64_of \<circ> snd) (assoc_del party (sizes e))) = net e - sizeOf party e"
  proof (cases "map_of (e_positions e) party")
    case None
    then show ?thesis by (simp add: assoc_del_absent map_of_sizes net_def sizeOf_def)
  next
    case (Some p)
    then show ?thesis
      using sum_assoc_del [OF d, of party "mp_size p" uint64_of]
      by (simp add: map_of_sizes net_def sizeOf_def algebra_simps)
  qed
  then have "net (e_remove party e) = net e - sizeOf party e" by (simp add: net_def sizes_remove)
  moreover have "shape_ok (e_remove party e)"
    using assms(1) by (auto simp: engine_ok_def shape_ok_def e_remove_def distinct_assoc_del)
      (auto simp: assoc_del_def)
  ultimately show ?thesis using assms(1) by (simp add: engine_ok_def)
qed

lemma engine_ok_remove:
  assumes "engine_ok n e" and "\<And>p. map_of (e_positions e) party = Some p \<Longrightarrow> mp_size p = 0"
  shows "engine_ok n (e_remove party e)"
  using engine_ok_removed [OF assms(1), of party] assms(2)
  by (simp add: sizeOf_def split: option.splits)

lemma engine_ok_RemoveDistressed:
  "engine_ok n e \<Longrightarrow> engine_ok (n - sum_list (map (uint64_of \<circ> mp_size) (fst (RemoveDistressed ids e))))
     (snd (RemoveDistressed ids e))"
proof (induction ids e arbitrary: n rule: RemoveDistressed.induct)
  case (2 party parties e)
  obtain ret e' where r: "RemoveDistressed parties (e_remove party e) = (ret, e')" by fastforce
  from "2.IH" [OF engine_ok_removed [OF "2.prems"]] r
  show ?case by (auto simp: sizeOf_def algebra_simps split: option.split)
qed simp

lemma engine_ok_fold_remove:
  "engine_ok n e \<Longrightarrow> (\<And>party p. party \<in> set ps \<Longrightarrow> map_of (e_positions e) party = Some p \<Longrightarrow> mp_size p = 0)
    \<Longrightarrow> engine_ok n (fold e_remove ps e)"
proof (induction ps arbitrary: e)
  case (Cons party ps)
  have "mp_size p = 0" if "q \<in> set ps" "map_of (e_positions (e_remove party e)) q = Some p" for q p
    using that Cons.prems(2) [of q p] by (simp add: e_remove_def split: if_splits)
  moreover have "engine_ok n (e_remove party e)"
    by (rule engine_ok_remove [OF Cons.prems(1)]) (use Cons.prems(2) in auto)
  ultimately show ?case using Cons.IH [of "e_remove party e"] by simp
qed simp

lemma engine_ok_GetClosedPositions: "engine_ok n e \<Longrightarrow> engine_ok n (snd (GetClosedPositions e))"
proof -
  assume ok: "engine_ok n e"
  have "mp_size p = 0" if mem: "party \<in> set (map mp_partyID (filter Closed (map snd (e_positions e))))"
    and look: "map_of (e_positions e) party = Some p" for party p
  proof -
    obtain k q where q: "(k, q) \<in> set (e_positions e)" "Closed q" "mp_partyID q = party" using mem by auto
    then have "k = party" using ok by (auto simp: engine_ok_def shape_ok_def position_ok_def)
    with q(1) have "map_of (e_positions e) party = Some q"
      using ok by (simp add: engine_ok_def shape_ok_def)
    with q(2) look show ?thesis by (simp add: Closed_def)
  qed
  then show ?thesis unfolding GetClosedPositions_def Let_def snd_conv by (rule engine_ok_fold_remove [OF ok])
qed

section \<open>Sequences of calls\<close>

datatype PositionOp =
    OpRegister Order
  | OpUnregister Order
  | OpAmend Order Order
  | OpTrade Trade Order Order
  | OpMarkPrice Uint
  | OpMarkDistressed "string list"
  | OpRemoveDistressed "string list"
  | OpClosed
  | OpFlush
  | OpEpochInterest
  | OpEpochVolume

fun callPosition :: "PositionOp \<Rightarrow> PositionsEngine \<Rightarrow> (string, PositionsEngine) go" where
  "callPosition (OpRegister ord) e = gbind (e_RegisterOrder ord e) (\<lambda>(_, e). Ret e)"
| "callPosition (OpUnregister ord) e = gbind (e_UnregisterOrder ord e) (\<lambda>(_, e). Ret e)"
| "callPosition (OpAmend old new) e = gbind (e_AmendOrder old new e) (\<lambda>(_, e). Ret e)"
| "callPosition (OpTrade t passive aggressive) e = gbind (Update t passive aggressive e) (\<lambda>(_, e). Ret e)"
| "callPosition (OpMarkPrice price) e = Ret (snd (UpdateMarkPrice price e))"
| "callPosition (OpMarkDistressed ids) e = gbind (MarkDistressed ids e) (\<lambda>(_, e). Ret e)"
| "callPosition (OpRemoveDistressed ids) e = Ret (snd (RemoveDistressed ids e))"
| "callPosition OpClosed e = Ret (snd (GetClosedPositions e))"
| "callPosition OpFlush e = Ret (FlushPositionEvents e)"
| "callPosition OpEpochInterest e = Ret (snd (GetPartiesLowestOpenInterestForEpoch e))"
| "callPosition OpEpochVolume e = Ret (snd (GetPartiesTradedVolumeForEpoch e))"

fun callPositions :: "PositionOp list \<Rightarrow> PositionsEngine \<Rightarrow> (string, PositionsEngine) go" where
  "callPositions [] e = Ret e"
| "callPositions (op # ops) e = gbind (callPosition op e) (callPositions ops)"

lemma engine_ok_quiet:
  assumes "engine_ok n e"
  shows "engine_ok n (FlushPositionEvents e)" and "engine_ok n (snd (GetPartiesLowestOpenInterestForEpoch e))"
    and "engine_ok n (snd (GetPartiesTradedVolumeForEpoch e))"
proof -
  have keys: "fst ` (\<lambda>(party, ov). (party, snd (Reset ov))) ` A = fst ` A" for A
    by (force simp: image_iff case_prod_beta)
  show "engine_ok n (FlushPositionEvents e)" "engine_ok n (snd (GetPartiesLowestOpenInterestForEpoch e))"
    "engine_ok n (snd (GetPartiesTradedVolumeForEpoch e))"
    using assms by (simp_all add: keys engine_ok_def shape_ok_def net_def sizes_def FlushPositionEvents_def
        sendBufferedPosition_def GetPartiesLowestOpenInterestForEpoch_def GetPartiesTradedVolumeForEpoch_def)
qed

text \<open>The sizes of the positions that \<open>RemoveDistressed\<close> returns, over a sequence of calls.\<close>

fun removedSize :: "PositionOp \<Rightarrow> PositionsEngine \<Rightarrow> uint64" where
  "removedSize (OpRemoveDistressed ids) e = sum_list (map (uint64_of \<circ> mp_size) (fst (RemoveDistressed ids e)))"
| "removedSize _ e = 0"

fun removedSizes :: "PositionOp list \<Rightarrow> PositionsEngine \<Rightarrow> uint64" where
  "removedSizes [] e = 0"
| "removedSizes (op # ops) e =
     removedSize op e + (case callPosition op e of Ret e' \<Rightarrow> removedSizes ops e' | _ \<Rightarrow> 0)"

lemma engine_ok_callPosition:
  "callPosition op e = Ret e' \<Longrightarrow> engine_ok n e \<Longrightarrow> engine_ok (n - removedSize op e) e'"
  by (cases op) (auto simp: gbind_Ret_iff engine_ok_UpdateMarkPrice engine_ok_GetClosedPositions engine_ok_quiet
      engine_ok_RemoveDistressed
      dest: engine_ok_RegisterOrder engine_ok_UnregisterOrder engine_ok_AmendOrder engine_ok_Update
        engine_ok_MarkDistressed)

lemma engine_ok_callPositions:
  "callPositions ops e = Ret e' \<Longrightarrow> engine_ok n e \<Longrightarrow> engine_ok (n - removedSizes ops e) e'"
proof (induction ops arbitrary: n e)
  case (Cons op ops)
  then obtain e1 where e1: "callPosition op e = Ret e1" "callPositions ops e1 = Ret e'"
    by (auto simp: gbind_Ret_iff)
  with Cons.IH [OF e1(2) engine_ok_callPosition [OF e1(1) Cons.prems(2)]] show ?case
    by (simp add: algebra_simps)
qed simp

lemma engine_ok_new: "engine_ok 0 (NewPositions marketID verbose)"
  by (simp add: engine_ok_def shape_ok_def net_def sizes_def NewPositions_def)

section \<open>An example\<close>

definition example_order :: "Side \<Rightarrow> string \<Rightarrow> Order" where
  "example_order sd party = zero_Order\<lparr>o_Side := sd, o_Party := party, o_Price := 100, o_Size := 5, o_Remaining := 5\<rparr>"

definition example_trade :: Trade where
  "example_trade = \<lparr>t_ID = ''t'', t_MarketID = ''m'', t_Price = 100, t_MarketPrice = 100, t_Size = 3,
     t_Buyer = ''a'', t_Seller = ''b'', t_Aggressor = SideBuy, t_BuyOrder = ''1'', t_SellOrder = ''2'',
     t_Timestamp = 0, t_Type = TradeTypeDefault, t_BuyerAuctionBatch = 0, t_SellerAuctionBatch = 0\<rparr>"

definition example_ops :: "PositionOp list" where
  "example_ops = [OpRegister (example_order SideBuy ''a''), OpRegister (example_order SideSell ''b''),
     OpTrade example_trade (example_order SideSell ''b'') (example_order SideBuy ''a'')]"

section \<open>Longs and shorts\<close>

lemma GetOpenInterest_sizes:
  "GetOpenInterest e = sum_list (map ((\<lambda>n. uint64_of (max 0 n)) \<circ> snd) (sizes e))"
  unfolding GetOpenInterest_def sizes_def
  by (induction "e_positions e" arbitrary: e rule: list.induct)
    (auto simp: max_def comp_def case_prod_beta intro!: arg_cong [where f = sum_list])

lemma sum_longs_shorts:
  "sum_list (map (uint64_of \<circ> f) xs) = sum_list (map (\<lambda>x. uint64_of (max 0 (f x))) xs)
     - sum_list (map (\<lambda>x. uint64_of (max 0 (- f x))) xs)"
proof (induction xs)
  case (Cons x xs)
  have "f x = max 0 (f x) - max 0 (- f x)" by (simp add: max_def)
  then have "uint64_of (f x) = uint64_of (max 0 (f x)) - uint64_of (max 0 (- f x))"
    by (metis uint64_of_diff)
  with Cons.IH show ?case by (simp add: algebra_simps)
qed simp

text \<open>
  C31: whatever orders are registered, whatever trades happen and whichever parties are removed, the
  longs and the shorts differ by exactly the positions that were removed. After any sequence of calls
  on a new engine that returns, the open interest, which the engine computes from the long positions,
  plus the signed sizes of the positions that \<open>RemoveDistressed\<close> has returned equals the sum of the
  short ones, in the engine's 64-bit arithmetic. So longs match shorts as long as only parties
  without an open position, or with positions that cancel, were removed, and a distressed long that
  is dropped without a trade against the network leaves its counterparties' shorts unmatched.
\<close>

theorem longs_match_shorts:
  assumes "callPositions ops (NewPositions marketID verbose) = Ret e"
  shows "GetOpenInterest e + removedSizes ops (NewPositions marketID verbose)
    = sum_list (map (\<lambda>(_, p). uint64_of (max 0 (- mp_size p))) (e_positions e))"
proof -
  have "net e = - removedSizes ops (NewPositions marketID verbose)"
    using engine_ok_callPositions [OF assms engine_ok_new] by (simp add: engine_ok_def)
  then have "GetOpenInterest e + removedSizes ops (NewPositions marketID verbose)
      = sum_list (map ((\<lambda>n. uint64_of (max 0 (- n))) \<circ> snd) (sizes e))"
    using sum_longs_shorts [of snd "sizes e"] by (simp add: net_def GetOpenInterest_sizes comp_def algebra_simps)
  then show ?thesis by (simp add: sizes_def comp_def case_prod_unfold)
qed

theorem longs_match_shorts_witness:
  "\<exists>e. callPositions (example_ops @ [OpRemoveDistressed [''a'', ''c'']]) (NewPositions ''m'' False) = Ret e
    \<and> GetOpenInterest e = 0 \<and> removedSizes (example_ops @ [OpRemoveDistressed [''a'', ''c'']]) (NewPositions ''m'' False) = 3
    \<and> sum_list (map (\<lambda>(_, p). uint64_of (max 0 (- mp_size p))) (e_positions e)) = 3"
proof -
  let ?ops = "example_ops @ [OpRemoveDistressed [''a'', ''c'']]"
  have "case callPositions ?ops (NewPositions ''m'' False) of Ret e \<Rightarrow> GetOpenInterest e = 0 | _ \<Rightarrow> False"
    and removed: "removedSizes ?ops (NewPositions ''m'' False) = 3"
    by code_simp+
  then obtain e where e: "callPositions ?ops (NewPositions ''m'' False) = Ret e" "GetOpenInterest e = 0"
    by (auto split: go.splits)
  from longs_match_shorts [OF e(1)] e removed show ?thesis by (intro exI [of _ e]) simp
qed

section \<open>The open interest that trades would lead to\<close>

fun callTrades :: "(Trade \<times> Order \<times> Order) list \<Rightarrow> PositionsEngine \<Rightarrow> (string, PositionsEngine) go" where
  "callTrades [] e = Ret e"
| "callTrades ((t, passive, aggressive) # ts) e =
     gbind (Update t passive aggressive e) (\<lambda>(_, e). callTrades ts e)"

lemma interestChange_i64: "uint64_of (i64 (d + x)) = uint64_of d + uint64_of x"
  by (simp add: uint64_of_add)

definition predicts :: "PositionsEngine \<Rightarrow> (string \<times> int64) list \<Rightarrow> PositionsEngine \<Rightarrow> bool" where
  "predicts e0 posLocal e \<longleftrightarrow>
     (\<forall>party n. map_of (sizes e) party = Some n \<longrightarrow> localSize e0 posLocal party = n)"

lemma predicts_trade:
  assumes "predicts e0 posLocal e" and "Update t passive aggressive e = Ret (ps, e')"
    and "t_Seller t \<noteq> t_Buyer t"
  shows "predicts e0
    (assoc_put (t_Seller t) (i64 (localSize e0 posLocal (t_Seller t) - int64_of (t_Size t)))
      (assoc_put (t_Buyer t) (i64 (localSize e0 posLocal (t_Buyer t) + int64_of (t_Size t))) posLocal)) e'"
  using assms(1,3) Update_sizes [OF assms(2)]
  by (auto simp: predicts_def afterTrade_def Let_def localSize_def)

lemma in64_sizes: "shape_ok e \<Longrightarrow> map_of (sizes e) party = Some n \<Longrightarrow> in64 n"
  by (auto simp: map_of_sizes position_ok_def dest: shape_ok_look)

lemma wash_sizes:
  assumes "Update t passive aggressive e = Ret (ps, e')" and "shape_ok e" and "t_Seller t = t_Buyer t"
  shows "sizes e' = sizes e"
proof -
  note u = Update_sizes [OF assms(1)]
  then obtain b where b: "map_of (sizes e) (t_Buyer t) = Some b" by blast
  have "i64 (i64 (b + int64_of (t_Size t)) - int64_of (t_Size t)) = i64 b"
    by (rule i64_cong) (simp add: uint64_of_arith)
  also have "\<dots> = b" using in64_sizes [OF assms(2) b] by (rule i64_in64)
  finally have undone: "i64 (i64 (b + int64_of (t_Size t)) - int64_of (t_Size t)) = b" .
  have "assoc_put k v (assoc_put k w kvs) = assoc_put k v kvs" for k :: string and v w :: int and kvs
    by (induction kvs) auto
  then show ?thesis
    using u assms(3) undone b by (simp add: afterTrade_def Let_def assoc_put_same)
qed

lemma interestChange_exact:
  assumes "callTrades ts e = Ret e'" and "shape_ok e" and "predicts e0 posLocal e"
    and "GetOpenInterest e = GetOpenInterest e0 + uint64_of d"
  shows "GetOpenInterest e' = GetOpenInterest e0 + uint64_of (interestChange e0 (map fst ts) posLocal d)"
  using assms
proof (induction ts arbitrary: e posLocal d)
  case (Cons tr ts)
  obtain t pasv aggr where tr: "tr = (t, pasv, aggr)" by (cases tr)
  with Cons.prems(1) obtain ps e1 where e1: "Update t pasv aggr e = Ret (ps, e1)" "callTrades ts e1 = Ret e'"
    by (auto simp: gbind_Ret_iff)
  have ok1: "shape_ok e1" using shape_ok_Update [OF e1(1) Cons.prems(2)] .
  show ?case
  proof (cases "t_Seller t = t_Buyer t")
    case True
    then have same: "sizes e1 = sizes e" using wash_sizes [OF e1(1) Cons.prems(2)] by simp
    then have "predicts e0 posLocal e1" "GetOpenInterest e1 = GetOpenInterest e"
      using Cons.prems(3) by (simp_all add: predicts_def GetOpenInterest_sizes)
    then show ?thesis using Cons.IH [OF e1(2) ok1] Cons.prems(4) True tr by simp
  next
    case False
    let ?b = "localSize e0 posLocal (t_Buyer t)" and ?s = "localSize e0 posLocal (t_Seller t)"
    let ?b' = "i64 (?b + int64_of (t_Size t))" and ?s' = "i64 (?s - int64_of (t_Size t))"
    note u = Update_sizes [OF e1(1)]
    have look: "map_of (sizes e) (t_Buyer t) = Some ?b" "map_of (sizes e) (t_Seller t) = Some ?s"
      using u Cons.prems(3) by (auto simp: predicts_def)
    have "distinct (map fst (sizes e))" using Cons.prems(2) by (simp add: shape_ok_def)
    from sum_afterTrade [OF this look refl refl, of "\<lambda>n. uint64_of (max 0 n)"]
    have "GetOpenInterest e1 = GetOpenInterest e0 +
      uint64_of (i64 (d + (max 0 ?b' - max 0 ?b + max 0 ?s' - max 0 ?s)))"
      using u False Cons.prems(4) by (simp add: GetOpenInterest_sizes uint64_of_arith)
    from Cons.IH [OF e1(2) ok1 predicts_trade [OF Cons.prems(3) e1(1) False] this]
    show ?thesis using False tr by (simp add: Let_def)
  qed
qed simp

text \<open>
  C32: the open interest predicted for a list of trades is the open interest after they happened,
  wash trades included, whatever the sizes.
\<close>

theorem GetOpenInterestGivenTrades_exact:
  assumes "callPositions ops (NewPositions marketID verbose) = Ret e" and "callTrades ts e = Ret e'"
  shows "GetOpenInterestGivenTrades (map fst ts) e = GetOpenInterest e'"
proof -
  have ok: "shape_ok e" using engine_ok_callPositions [OF assms(1) engine_ok_new] by (simp add: engine_ok_def)
  have "predicts e [] e" by (auto simp: predicts_def localSize_def map_of_sizes)
  from interestChange_exact [OF assms(2) ok this, of 0]
  have "GetOpenInterest e' = GetOpenInterest e + uint64_of (interestChange e (map fst ts) [] 0)" by simp
  then show ?thesis by (simp add: GetOpenInterestGivenTrades_def Let_def uint64_of_uminus)
qed

theorem GetOpenInterestGivenTrades_exact_witness:
  "\<exists>e e'. callTrades [(example_trade, example_order SideSell ''b'', example_order SideBuy ''a'')] e = Ret e'
    \<and> GetOpenInterestGivenTrades [example_trade] e = GetOpenInterest e' \<and> GetOpenInterest e' = 3"
proof -
  let ?ts = "[(example_trade, example_order SideSell ''b'', example_order SideBuy ''a'')]"
  let ?run = "callPositions (take 2 example_ops) (NewPositions ''m'' False)"
  have "case ?run of Ret e \<Rightarrow> (case callTrades ?ts e of Ret e' \<Rightarrow> GetOpenInterest e' = 3 | _ \<Rightarrow> False) | _ \<Rightarrow> False"
    by code_simp
  then obtain e e' where e: "?run = Ret e" "callTrades ?ts e = Ret e'" "GetOpenInterest e' = 3"
    by (auto split: go.splits)
  from GetOpenInterestGivenTrades_exact [OF e(1,2)] e show ?thesis by (intro exI [of _ e] exI [of _ e']) simp
qed

end
