(* ===== verification/Epoch_Time.thy ===== *)
theory Epoch_Time
  imports Vega_Prelude
begin

text \<open>
  The epochs of the network (\<^verbatim>\<open>core/epochtime/service.go\<close>) and their continuity. A notification goes to
  the broker and to every listener with the same value, so it is one entry of a list. After a
  checkpoint was loaded the service catches up with the time of the first block in a loop that
  plays the missed blocks; \<open>OnTick\<close> calls it with its flag cleared, so the ticks inside the loop are
  plain ones, and the loop has fuel.
\<close>

section \<open>Data\<close>

datatype EpochAction = EpochActionUnspecified | EpochActionStart | EpochActionEnd

record Epoch =
  ep_Seq :: uint64
  ep_StartTime :: time
  ep_ExpireTime :: time
  ep_EndTime :: time
  ep_Action :: EpochAction

record EpochSvc =
  sv_length :: int64
  sv_epoch :: Epoch
  sv_notified :: "Epoch list"
  sv_readyToStartNewEpoch :: bool
  sv_readyToEndEpoch :: bool
  sv_currentTime :: time
  sv_needsFastForward :: bool

definition NewService :: EpochSvc where
  "NewService =
     \<lparr>sv_length = 0,
      sv_epoch = \<lparr>ep_Seq = 0, ep_StartTime = zeroTime, ep_ExpireTime = zeroTime, ep_EndTime = zeroTime,
                  ep_Action = EpochActionUnspecified\<rparr>,
      sv_notified = [], sv_readyToStartNewEpoch = False, sv_readyToEndEpoch = False,
      sv_currentTime = zeroTime, sv_needsFastForward = False\<rparr>"

section \<open>Blocks\<close>

definition notify :: "EpochSvc \<Rightarrow> EpochSvc" where
  "notify s = s\<lparr>sv_notified := sv_notified s @ [sv_epoch s]\<rparr>"

definition OnBlockEnd :: "EpochSvc \<Rightarrow> EpochSvc" where
  "OnBlockEnd s =
     (if sv_readyToEndEpoch s
      then s\<lparr>sv_readyToStartNewEpoch := True, sv_readyToEndEpoch := False\<rparr> else s)"

text \<open>The part of \<^verbatim>\<open>OnTick\<close> after the fast forward.\<close>

definition tickEpoch :: "time \<Rightarrow> EpochSvc \<Rightarrow> EpochSvc" where
  "tickEpoch t s =
     (if ep_StartTime (sv_epoch s) = zeroTime then
        notify (s\<lparr>sv_epoch := (sv_epoch s)\<lparr>ep_Seq := 0, ep_StartTime := t, ep_ExpireTime := t + sv_length s,
                                          ep_Action := EpochActionStart\<rparr>\<rparr>)
      else if sv_readyToStartNewEpoch s then
        (let s = notify (s\<lparr>sv_epoch := (sv_epoch s)\<lparr>ep_EndTime := t, ep_Action := EpochActionEnd\<rparr>\<rparr>);
             s = s\<lparr>sv_readyToStartNewEpoch := False,
                   sv_epoch := (sv_epoch s)\<lparr>ep_Seq := ep_Seq (sv_epoch s) + 1, ep_StartTime := t,
                                            ep_ExpireTime := t + sv_length s, ep_EndTime := zeroTime,
                                            ep_Action := EpochActionStart\<rparr>\<rparr>
         in notify s)
      else if ep_ExpireTime (sv_epoch s) < t then s\<lparr>sv_readyToEndEpoch := True\<rparr>
      else s)"

definition plainTick :: "time \<Rightarrow> EpochSvc \<Rightarrow> EpochSvc" where
  "plainTick t s = (if t = zeroTime then s else tickEpoch t (s\<lparr>sv_currentTime := t\<rparr>))"

fun fastForwardLoop :: "nat \<Rightarrow> time \<Rightarrow> EpochSvc \<Rightarrow> (string, EpochSvc) go" where
  "fastForwardLoop 0 tt s = Diverge"
| "fastForwardLoop (Suc fuel) tt s =
     (if ep_ExpireTime (sv_epoch s) < tt then
        (let s = OnBlockEnd s
         in fastForwardLoop fuel tt (plainTick (ep_ExpireTime (sv_epoch s) + seconds 1) s))
      else Ret s)"

definition fastForward :: "nat \<Rightarrow> EpochSvc \<Rightarrow> (string, EpochSvc) go" where
  "fastForward fuel s =
     (let tt = sv_currentTime s
      in gbind (fastForwardLoop fuel tt s) (\<lambda>s. Ret (plainTick tt s)))"

definition OnTick :: "nat \<Rightarrow> time \<Rightarrow> EpochSvc \<Rightarrow> (string, EpochSvc) go" where
  "OnTick fuel t s =
     (if t = zeroTime then Ret s
      else if sv_needsFastForward s \<and> t = sv_currentTime s then Ret s
      else
        (let s = s\<lparr>sv_currentTime := t\<rparr> in
         if sv_needsFastForward s then
           gbind (fastForward fuel (s\<lparr>sv_needsFastForward := False\<rparr>)) (\<lambda>s.
             Ret (tickEpoch t (s\<lparr>sv_currentTime := t\<rparr>)))
         else Ret (tickEpoch t s)))"

definition OnEpochLengthUpdate :: "int64 \<Rightarrow> EpochSvc \<Rightarrow> EpochSvc" where
  "OnEpochLengthUpdate l s = s\<lparr>sv_length := l\<rparr>"

text \<open>Loading a checkpoint that was decoded to the epoch \<open>e\<close>.\<close>

definition Load :: "Epoch \<Rightarrow> EpochSvc \<Rightarrow> EpochSvc" where
  "Load e s =
     (notify (s\<lparr>sv_epoch := e, sv_readyToStartNewEpoch := False, sv_readyToEndEpoch := False\<rparr>))
       \<lparr>sv_needsFastForward := True\<rparr>"

section \<open>Catching up\<close>

text \<open>One epoch that the loop plays, in two rounds: its end is noticed, then the next one starts.\<close>

definition missedEpoch :: "EpochSvc \<Rightarrow> EpochSvc" where
  "missedEpoch s =
     (let t = ep_ExpireTime (sv_epoch s) + 1000000000;
          ended = (sv_epoch s)\<lparr>ep_EndTime := t, ep_Action := EpochActionEnd\<rparr>;
          started = ended\<lparr>ep_Seq := ep_Seq ended + 1, ep_StartTime := t, ep_ExpireTime := t + sv_length s,
                          ep_EndTime := zeroTime, ep_Action := EpochActionStart\<rparr>
      in s\<lparr>sv_currentTime := t, sv_epoch := started, sv_notified := sv_notified s @ [ended, started]\<rparr>)"

definition running :: "EpochSvc \<Rightarrow> bool" where
  "running s \<longleftrightarrow> ep_StartTime (sv_epoch s) \<noteq> zeroTime \<and> \<not> sv_readyToStartNewEpoch s
     \<and> \<not> sv_readyToEndEpoch s"

lemma seconds_1: "seconds 1 = 1000000000"
  by (simp add: seconds_small)

lemma two_rounds:
  assumes "running s" and "ep_ExpireTime (sv_epoch s) < tt" and "0 \<le> ep_ExpireTime (sv_epoch s)"
  shows "fastForwardLoop (Suc (Suc fuel)) tt s = fastForwardLoop fuel tt (missedEpoch s)"
  using assms by (cases s) (simp add: running_def OnBlockEnd_def plainTick_def tickEpoch_def seconds_1
      missedEpoch_def notify_def Let_def zeroTime_def)

lemma missedEpoch_simps:
  "ep_ExpireTime (sv_epoch (missedEpoch s)) = ep_ExpireTime (sv_epoch s) + (sv_length s + 1000000000)"
  "ep_Seq (sv_epoch (missedEpoch s)) = ep_Seq (sv_epoch s) + 1"
  "ep_StartTime (sv_epoch (missedEpoch s)) = ep_ExpireTime (sv_epoch s) + 1000000000"
  "sv_length (missedEpoch s) = sv_length s"
  by (simp_all add: missedEpoch_def Let_def)

lemma running_missedEpoch: "running s \<Longrightarrow> 0 \<le> ep_ExpireTime (sv_epoch s) \<Longrightarrow> running (missedEpoch s)"
  by (simp add: running_def missedEpoch_def Let_def zeroTime_def)

lemma fastForwardLoop_plays:
  assumes "running s" and "0 \<le> sv_length s" and "0 \<le> ep_ExpireTime (sv_epoch s)"
    and "\<And>i. i < k \<Longrightarrow> ep_ExpireTime (sv_epoch s) + int i * (sv_length s + 1000000000) < tt"
    and "tt \<le> ep_ExpireTime (sv_epoch s) + int k * (sv_length s + 1000000000)"
    and "2 * k < fuel"
  shows "fastForwardLoop fuel tt s = Ret ((missedEpoch ^^ k) s)"
  using assms
proof (induction k arbitrary: s fuel)
  case 0
  then show ?case by (cases fuel) simp_all
next
  case (Suc k)
  obtain fuel' where fuel: "fuel = Suc (Suc fuel')" using Suc.prems(6) by (cases fuel; cases "fuel - 1") auto
  have now: "ep_ExpireTime (sv_epoch s) < tt" using Suc.prems(4) [of 0] by simp
  have later: "ep_ExpireTime (sv_epoch (missedEpoch s)) + int i * (sv_length (missedEpoch s) + 1000000000) < tt"
    if "i < k" for i
    using Suc.prems(4) [of "Suc i"] that by (simp add: missedEpoch_simps algebra_simps)
  have "fastForwardLoop fuel' tt (missedEpoch s) = Ret ((missedEpoch ^^ k) (missedEpoch s))"
    by (rule Suc.IH [OF running_missedEpoch _ _ later])
      (use Suc.prems fuel in \<open>simp_all add: missedEpoch_simps algebra_simps\<close>)
  then show ?case
    using two_rounds [OF Suc.prems(1) now Suc.prems(3), of fuel'] fuel by (simp add: funpow_swap1)
qed

lemma missedEpochs:
  assumes "running s" and "0 \<le> sv_length s" and "0 \<le> ep_ExpireTime (sv_epoch s)"
  shows "running ((missedEpoch ^^ k) s)
    \<and> ep_ExpireTime (sv_epoch ((missedEpoch ^^ k) s)) = ep_ExpireTime (sv_epoch s) + int k * (sv_length s + 1000000000)
    \<and> ep_Seq (sv_epoch ((missedEpoch ^^ k) s)) = ep_Seq (sv_epoch s) + of_nat k
    \<and> sv_length ((missedEpoch ^^ k) s) = sv_length s
    \<and> length (sv_notified ((missedEpoch ^^ k) s)) = length (sv_notified s) + 2 * k
    \<and> sv_needsFastForward ((missedEpoch ^^ k) s) = sv_needsFastForward s"
proof (induction k)
  case (Suc k)
  have "length (sv_notified (missedEpoch x)) = length (sv_notified x) + 2"
    "sv_needsFastForward (missedEpoch x) = sv_needsFastForward x" for x
    by (simp_all add: missedEpoch_def Let_def)
  then show ?case using Suc assms by (simp add: missedEpoch_simps running_missedEpoch algebra_simps)
qed (use assms in simp)

lemma settled_tick:
  assumes "running s" and "t \<le> ep_ExpireTime (sv_epoch s)"
  shows "tickEpoch t s = s"
  using assms by (simp add: running_def tickEpoch_def)

definition missed :: "time \<Rightarrow> EpochSvc \<Rightarrow> nat" where
  "missed t s = nat ((t - ep_ExpireTime (sv_epoch s) + sv_length s + 999999999) div (sv_length s + 1000000000))"

lemma missed_bounds:
  assumes "0 \<le> sv_length s" and "ep_ExpireTime (sv_epoch s) < t"
  shows "t \<le> ep_ExpireTime (sv_epoch s) + int (missed t s) * (sv_length s + 1000000000)"
    and "i < missed t s \<Longrightarrow> ep_ExpireTime (sv_epoch s) + int i * (sv_length s + 1000000000) < t"
proof -
  define L where "L = sv_length s + 1000000000"
  define d where "d = t - ep_ExpireTime (sv_epoch s)"
  have L: "0 < L" and d: "0 < d" using assms by (simp_all add: L_def d_def)
  have m: "int (missed t s) = (d + (L - 1)) div L"
    using L d by (simp add: missed_def L_def d_def pos_imp_zdiv_nonneg_iff algebra_simps)
  have split: "(d + (L - 1)) div L * L + (d + (L - 1)) mod L = d + (L - 1)" by simp
  have "(d + (L - 1)) mod L \<le> L - 1" using L pos_mod_bound [of L "d + (L - 1)"] by simp
  then have "d \<le> int (missed t s) * L" unfolding m using split by linarith
  then show "t \<le> ep_ExpireTime (sv_epoch s) + int (missed t s) * (sv_length s + 1000000000)"
    by (simp add: d_def L_def)
  show "ep_ExpireTime (sv_epoch s) + int i * (sv_length s + 1000000000) < t" if "i < missed t s"
  proof -
    have "int i + 1 \<le> (d + (L - 1)) div L" using that m by simp
    then have "(int i + 1) * L \<le> (d + (L - 1)) div L * L" using L by (intro mult_right_mono) simp_all
    also have "\<dots> \<le> d + (L - 1)" using split L pos_mod_sign [of L "d + (L - 1)"] by linarith
    finally have "int i * L < d" by (simp add: algebra_simps)
    then show ?thesis by (simp add: d_def L_def)
  qed
qed

text \<open>
  C39: catching up ends. On the first block after a checkpoint was loaded, the loop that plays the
  missed epochs stops after two rounds for each of them. It plays exactly as many as fit, each
  lasting a second more than the length of an epoch, announces the end and the start of every one,
  and leaves an epoch that has not expired.
\<close>

theorem catching_up_ends:
  assumes "running s" and "sv_needsFastForward s" and "t \<noteq> sv_currentTime s" and "0 \<le> sv_length s"
    and "0 \<le> ep_ExpireTime (sv_epoch s)" and "ep_ExpireTime (sv_epoch s) < t" and "2 * missed t s < fuel"
  shows "\<exists>s'. OnTick fuel t s = Ret s' \<and> \<not> sv_needsFastForward s'
    \<and> ep_Seq (sv_epoch s') = ep_Seq (sv_epoch s) + of_nat (missed t s)
    \<and> ep_ExpireTime (sv_epoch s') = ep_ExpireTime (sv_epoch s) + int (missed t s) * (sv_length s + 1000000000)
    \<and> t \<le> ep_ExpireTime (sv_epoch s')
    \<and> length (sv_notified s') = length (sv_notified s) + 2 * missed t s"
proof -
  define s0 where "s0 = s\<lparr>sv_currentTime := t, sv_needsFastForward := False\<rparr>"
  define s1 where "s1 = (missedEpoch ^^ missed t s) s0"
  have s0: "running s0" "0 \<le> sv_length s0" "0 \<le> ep_ExpireTime (sv_epoch s0)"
    using assms by (simp_all add: s0_def running_def)
  have same: "sv_epoch s0 = sv_epoch s" "sv_length s0 = sv_length s" "sv_notified s0 = sv_notified s"
    by (simp_all add: s0_def)
  note b = missed_bounds [OF assms(4,6)]
  have loop: "fastForwardLoop fuel t s0 = Ret s1"
    unfolding s1_def by (rule fastForwardLoop_plays [OF s0]) (use b same assms(7) in simp_all)
  note s1 = missedEpochs [OF s0, of "missed t s", folded s1_def, unfolded same]
  have exp: "t \<le> ep_ExpireTime (sv_epoch s1)" using s1 b(1) by simp
  have run': "running (s1\<lparr>sv_currentTime := t\<rparr>)" using s1 by (simp add: running_def)
  have t: "t \<noteq> zeroTime" using assms(5,6) by (simp add: zeroTime_def)
  have tick: "tickEpoch t (s1\<lparr>sv_currentTime := t\<rparr>) = s1\<lparr>sv_currentTime := t\<rparr>"
    using settled_tick [OF run'] exp by simp
  have "sv_currentTime s0 = t" by (simp add: s0_def)
  then have "fastForward fuel s0 = Ret (s1\<lparr>sv_currentTime := t\<rparr>)"
    by (simp add: fastForward_def Let_def loop plainTick_def t tick)
  then have "OnTick fuel t s = Ret (s1\<lparr>sv_currentTime := t\<rparr>)"
    using assms(2,3) t tick by (simp add: OnTick_def Let_def s0_def)
  then show ?thesis using s1 exp by (simp add: s0_def)
qed

definition loaded_service :: EpochSvc where
  "loaded_service =
     Load \<lparr>ep_Seq = 7, ep_StartTime = 1000000000, ep_ExpireTime = 11000000000, ep_EndTime = zeroTime,
           ep_Action = EpochActionStart\<rparr> (OnEpochLengthUpdate 10000000000 NewService)"

theorem catching_up_ends_witness:
  "\<exists>s'. OnTick 10 40000000000 loaded_service = Ret s' \<and> ep_Seq (sv_epoch s') = 10"
  using catching_up_ends [of loaded_service 40000000000 10]
  by (auto simp: loaded_service_def Load_def OnEpochLengthUpdate_def NewService_def notify_def running_def
      missed_def zeroTime_def)

section \<open>The sequence of epochs\<close>

text \<open>
  The calls a running node makes, and what two consecutive notifications must look like: an epoch
  ends after it expired, with the number and the start it was announced with, and the next one
  starts at that moment with the next number.
\<close>

datatype EpochOp = Tick time | BlockEnd | SetLength int64

fun epochOp :: "EpochOp \<Rightarrow> EpochSvc \<Rightarrow> EpochSvc" where
  "epochOp (Tick t) s = plainTick t s"
| "epochOp BlockEnd s = OnBlockEnd s"
| "epochOp (SetLength l) s = OnEpochLengthUpdate l s"

fun ticks :: "EpochOp list \<Rightarrow> time list" where
  "ticks [] = []"
| "ticks (Tick t # ops) = t # ticks ops"
| "ticks (_ # ops) = ticks ops"

definition follows :: "Epoch \<Rightarrow> Epoch \<Rightarrow> bool" where
  "follows e f \<longleftrightarrow>
     (if ep_Action e = EpochActionStart
      then ep_Action f = EpochActionEnd \<and> ep_Seq f = ep_Seq e \<and> ep_StartTime f = ep_StartTime e
        \<and> ep_ExpireTime f = ep_ExpireTime e \<and> ep_ExpireTime e < ep_EndTime f
      else ep_Action f = EpochActionStart \<and> ep_Seq f = ep_Seq e + 1 \<and> ep_StartTime f = ep_EndTime e)"

definition chained :: "Epoch list \<Rightarrow> bool" where
  "chained es \<longleftrightarrow> successively follows es \<and>
     (es \<noteq> [] \<longrightarrow> ep_Action (hd es) = EpochActionStart \<and> ep_Seq (hd es) = 0)"

lemma chained_snoc:
  "chained es \<Longrightarrow> es \<noteq> [] \<Longrightarrow> follows (last es) e \<Longrightarrow> chained (es @ [e])"
  by (simp add: chained_def successively_append_iff)

definition epochs_ok :: "time \<Rightarrow> EpochSvc \<Rightarrow> bool" where
  "epochs_ok now s \<longleftrightarrow> chained (sv_notified s) \<and> zeroTime \<le> now
     \<and> \<not> (sv_readyToEndEpoch s \<and> sv_readyToStartNewEpoch s) \<and>
     (if ep_StartTime (sv_epoch s) = zeroTime
      then sv_notified s = [] \<and> \<not> sv_readyToEndEpoch s \<and> \<not> sv_readyToStartNewEpoch s
      else sv_notified s \<noteq> [] \<and> last (sv_notified s) = sv_epoch s \<and> ep_Action (sv_epoch s) = EpochActionStart
        \<and> (sv_readyToEndEpoch s \<or> sv_readyToStartNewEpoch s \<longrightarrow> ep_ExpireTime (sv_epoch s) < now))"

lemma epochs_ok_tick:
  assumes "epochs_ok now s" and "now \<le> t" and "zeroTime < t"
  shows "epochs_ok t (plainTick t s)"
proof -
  let ?e = "sv_epoch s"
  consider "ep_StartTime ?e = zeroTime"
    | "ep_StartTime ?e \<noteq> zeroTime" "sv_readyToStartNewEpoch s"
    | "ep_StartTime ?e \<noteq> zeroTime" "\<not> sv_readyToStartNewEpoch s" by blast
  then show ?thesis
  proof cases
    case 1
    then show ?thesis using assms
      by (simp add: epochs_ok_def plainTick_def tickEpoch_def notify_def chained_def)
  next
    case 2
    define e1 where "e1 = ?e\<lparr>ep_EndTime := t, ep_Action := EpochActionEnd\<rparr>"
    define e2 where "e2 = ?e\<lparr>ep_Seq := ep_Seq ?e + 1, ep_StartTime := t, ep_ExpireTime := t + sv_length s,
      ep_EndTime := zeroTime, ep_Action := EpochActionStart\<rparr>"
    have ok: "chained (sv_notified s)" "sv_notified s \<noteq> []" "last (sv_notified s) = ?e"
      "ep_Action ?e = EpochActionStart" "ep_ExpireTime ?e < t"
      using assms 2 by (auto simp: epochs_ok_def)
    have "chained (sv_notified s @ [e1])"
      by (rule chained_snoc [OF ok(1,2)]) (use ok(3-5) in \<open>simp add: follows_def e1_def\<close>)
    from chained_snoc [OF this, of e2] have "chained (sv_notified s @ [e1, e2])"
      by (simp add: follows_def e1_def e2_def)
    moreover have "plainTick t s = s\<lparr>sv_currentTime := t, sv_readyToStartNewEpoch := False, sv_epoch := e2,
      sv_notified := sv_notified s @ [e1, e2]\<rparr>"
      using 2 assms(3) by (simp add: plainTick_def tickEpoch_def notify_def Let_def e1_def e2_def)
    ultimately show ?thesis using assms 2 by (auto simp: epochs_ok_def e2_def)
  next
    case 3
    then show ?thesis using assms by (auto simp: epochs_ok_def plainTick_def tickEpoch_def)
  qed
qed

lemma epochs_ok_run:
  assumes "epochs_ok now s" and "sorted (now # ticks ops)" and "\<forall>t \<in> set (ticks ops). zeroTime < t"
  shows "\<exists>now'. epochs_ok now' (fold epochOp ops s)"
  using assms
proof (induction ops arbitrary: now s)
  case (Cons op ops)
  show ?case
  proof (cases op)
    case (Tick t)
    then show ?thesis using Cons.IH [of t "plainTick t s"] epochs_ok_tick [of now s t] Cons.prems by simp
  next
    case BlockEnd
    have "epochs_ok now (OnBlockEnd s)" using Cons.prems(1) by (auto simp: epochs_ok_def OnBlockEnd_def)
    then show ?thesis using Cons.IH [of now "OnBlockEnd s"] Cons.prems BlockEnd by simp
  next
    case (SetLength l)
    have "epochs_ok now (OnEpochLengthUpdate l s)"
      using Cons.prems(1) by (auto simp: epochs_ok_def OnEpochLengthUpdate_def)
    then show ?thesis using Cons.IH [of now "OnEpochLengthUpdate l s"] Cons.prems SetLength by simp
  qed
qed auto

text \<open>
  C38: epochs follow each other without gaps. However ticks, ends of blocks and changes of the length
  interleave, as long as time does not run backwards, the listeners are told of epoch zero first and
  then of ends and starts in turn: every epoch ends after it expired and the next one, with the next
  number, starts at that very moment.
\<close>

theorem epochs_follow_each_other:
  assumes "sorted (ticks ops)" and "\<forall>t \<in> set (ticks ops). zeroTime < t"
  shows "chained (sv_notified (fold epochOp ops NewService))"
proof -
  have "epochs_ok zeroTime NewService" by (simp add: epochs_ok_def NewService_def chained_def)
  moreover have "sorted (zeroTime # ticks ops)" using assms by (simp add: less_imp_le)
  ultimately obtain now where "epochs_ok now (fold epochOp ops NewService)"
    using epochs_ok_run [OF _ _ assms(2)] by blast
  then show ?thesis by (simp add: epochs_ok_def)
qed

theorem epochs_follow_each_other_witness:
  "length (sv_notified (fold epochOp [SetLength 5, Tick 10, BlockEnd, Tick 20, BlockEnd, Tick 30] NewService)) = 3
    \<and> chained (sv_notified (fold epochOp [SetLength 5, Tick 10, BlockEnd, Tick 20, BlockEnd, Tick 30] NewService))"
proof
  show "chained (sv_notified (fold epochOp [SetLength 5, Tick 10, BlockEnd, Tick 20, BlockEnd, Tick 30] NewService))"
    by (rule epochs_follow_each_other) (simp_all add: zeroTime_def)
qed code_simp

end
