(* ===== verification/Loss_Distribution.thy ===== *)
theory Loss_Distribution
  imports Price_Level_Props Positions_Engine
begin

text \<open>
  Loss socialisation (\<^verbatim>\<open>core/collateral/simple_distributor.go\<close>): when less was collected from the
  losing parties than the winning ones are due, every win is cut in proportion and the rounding
  remainder goes to the network's win or else to the last one. Decimals are rationals and their
  division is the parameter \<open>ddiv\<close>, as in the split of iceberg volumes. The transfers are distinct
  objects, so a write to one is a write to its request. A transfer is modelled by its owner and
  amount.
\<close>

section \<open>Data\<close>

datatype LossType = LossTypeUnspecified | LossTypeSettlement | LossTypeFunding

record Transfer =
  tr_Owner :: string
  tr_Amount :: Uint

record request =
  rq_amount :: rat
  rq_amt :: Uint
  rq_request :: Transfer

record simpleDistributor =
  sd_marketID :: string
  sd_expectCollected :: Uint
  sd_collected :: Uint
  sd_requests :: "request list"
  sd_ts :: int64
  sd_lType :: LossType

record LossSoc =
  ls_partyID :: string
  ls_marketID :: string
  ls_amount :: num_Int
  ls_ts :: int64
  ls_lType :: LossType

definition NewLossSocializationEvent ::
  "string \<Rightarrow> string \<Rightarrow> Uint \<Rightarrow> bool \<Rightarrow> int64 \<Rightarrow> LossType \<Rightarrow> LossSoc" where
  "NewLossSocializationEvent partyID marketID amount neg ts lType =
     \<lparr>ls_partyID = partyID, ls_marketID = marketID,
      ls_amount = (if neg then Int_FlipSign (NewIntFromUint amount) else NewIntFromUint amount),
      ls_ts = ts, ls_lType = lType\<rparr>"

section \<open>Operations\<close>

definition LossSocializationEnabled :: "simpleDistributor \<Rightarrow> bool" where
  "LossSocializationEnabled s \<longleftrightarrow> sd_collected s < sd_expectCollected s"

text \<open>\<^verbatim>\<open>num.UintFromBig\<close> of a whole decimal: zero when it does not fit in 256 bits.\<close>

definition UintFromBig :: "int \<Rightarrow> Uint" where
  "UintFromBig n = (if \<bar>n\<bar> < 2 ^ 256 then word_of_int n else 0)"

definition decimalFromUint :: "Uint \<Rightarrow> rat" where
  "decimalFromUint u = of_int (uint u)"

definition sd_Add ::
  "(rat \<Rightarrow> rat \<Rightarrow> rat) \<Rightarrow> Transfer \<Rightarrow> simpleDistributor \<Rightarrow> (string, simpleDistributor) go" where
  "sd_Add ddiv req s =
     (if sd_expectCollected s = 0 then Panic ''decimal division by 0''
      else
        (let ratio = ddiv (decimalFromUint (sd_collected s)) (decimalFromUint (sd_expectCollected s));
             amount = \<lfloor>decimalFromUint (tr_Amount req) * ratio\<rfloor>
         in Ret (s\<lparr>sd_requests := sd_requests s @
                    [\<lparr>rq_amount = of_int amount, rq_amt = UintFromBig amount, rq_request = req\<rparr>]\<rparr>)))"

fun sd_AddAll ::
  "(rat \<Rightarrow> rat \<Rightarrow> rat) \<Rightarrow> Transfer list \<Rightarrow> simpleDistributor \<Rightarrow> (string, simpleDistributor) go" where
  "sd_AddAll ddiv [] s = Ret s"
| "sd_AddAll ddiv (req # reqs) s = gbind (sd_Add ddiv req s) (sd_AddAll ddiv reqs)"

text \<open>
  The loop of \<^verbatim>\<open>Run\<close> over the requests: each transfer gets its cut amount and an event with what it
  lost. The total is a wrapping sum.
\<close>

definition cutRequest :: "request \<Rightarrow> request" where
  "cutRequest v = v\<lparr>rq_request := (rq_request v)\<lparr>tr_Amount := rq_amt v\<rparr>\<rparr>"

definition lossEvent :: "simpleDistributor \<Rightarrow> request \<Rightarrow> LossSoc" where
  "lossEvent s v =
     NewLossSocializationEvent (tr_Owner (rq_request v)) (sd_marketID s)
       (fst (Uint_Delta (rq_amt v) (tr_Amount (rq_request v)))) True (sd_ts s) (sd_lType s)"

definition addAmount :: "Uint \<Rightarrow> request \<Rightarrow> request" where
  "addAmount n v = v\<lparr>rq_request := (rq_request v)\<lparr>tr_Amount := tr_Amount (rq_request v) + n\<rparr>\<rparr>"

text \<open>The index of the last request of the network, which \<^verbatim>\<open>netReq\<close> points to after the loop.\<close>

fun networkRequest :: "nat \<Rightarrow> nat option \<Rightarrow> request list \<Rightarrow> nat option" where
  "networkRequest i netReq [] = netReq"
| "networkRequest i netReq (v # vs) =
     networkRequest (Suc i) (if tr_Owner (rq_request v) = NetworkParty then Some i else netReq) vs"

definition sd_Run :: "simpleDistributor \<Rightarrow> (string, LossSoc list \<times> simpleDistributor) go" where
  "sd_Run s =
     (if sd_expectCollected s = sd_collected s then Ret ([], s)
      else
        (let evts = map (lossEvent s) (sd_requests s);
             total = sum_list (map rq_amt (sd_requests s));
             reqs = map cutRequest (sd_requests s)
         in if total = sd_collected s then Ret (evts, s\<lparr>sd_requests := reqs\<rparr>)
            else
              (let mismatch = fst (Uint_Delta (sd_collected s) total) in
               case networkRequest 0 None reqs of
                 Some i \<Rightarrow> Ret (evts, s\<lparr>sd_requests := reqs[i := addAmount mismatch (reqs ! i)]\<rparr>)
               | None \<Rightarrow>
                   if reqs = [] then Panic ''index out of range [-1]''
                   else
                     (let k = length reqs - 1; evt = evts ! k;
                          (loss, profit) = Uint_Delta (intU (ls_amount evt)) mismatch
                      in Ret (evts[k := NewLossSocializationEvent (ls_partyID evt) (ls_marketID evt) loss
                                          (\<not> profit) (sd_ts s) (sd_lType s)],
                              s\<lparr>sd_requests := reqs[k := addAmount mismatch (reqs ! k)]\<rparr>)))))"

section \<open>What is handed out\<close>

definition paid :: "simpleDistributor \<Rightarrow> nat list" where
  "paid s = map (unat \<circ> tr_Amount \<circ> rq_request) (sd_requests s)"

definition cuts :: "simpleDistributor \<Rightarrow> nat list" where
  "cuts s = map (unat \<circ> rq_amt) (sd_requests s)"

lemma networkRequest_bounds:
  "networkRequest i netReq vs = Some j \<Longrightarrow> netReq = Some j \<or> j < i + length vs"
  by (induction vs arbitrary: i netReq) (fastforce split: if_splits)+

lemma networkRequest_less: "networkRequest 0 None reqs = Some i \<Longrightarrow> i < length reqs"
  using networkRequest_bounds [of 0 None reqs i] by simp

text \<open>The remainder goes to one request, whichever it is.\<close>

lemma Run_shape:
  assumes "sd_expectCollected s \<noteq> sd_collected s" and "sd_requests s \<noteq> []"
  shows "\<exists>evts s' i. sd_Run s = Ret (evts, s') \<and> i < length (sd_requests s)
    \<and> length evts = length (sd_requests s)
    \<and> sd_requests s' = (map cutRequest (sd_requests s))
         [i := addAmount (fst (Uint_Delta (sd_collected s) (sum_list (map rq_amt (sd_requests s)))))
                 (cutRequest (sd_requests s ! i))]"
proof (cases "sum_list (map rq_amt (sd_requests s)) = sd_collected s")
  case True
  have "addAmount 0 v = v" for v by (simp add: addAmount_def)
  then show ?thesis using True assms
    by (intro exI [of _ "map (lossEvent s) (sd_requests s)"]
        exI [of _ "s\<lparr>sd_requests := map cutRequest (sd_requests s)\<rparr>"] exI [of _ 0])
      (simp add: sd_Run_def Let_def Uint_Delta_def flip: map_update)
next
  case False
  let ?m = "fst (Uint_Delta (sd_collected s) (sum_list (map rq_amt (sd_requests s))))"
  let ?to = "\<lambda>i. s\<lparr>sd_requests := (map cutRequest (sd_requests s))[i := addAmount ?m (cutRequest (sd_requests s ! i))]\<rparr>"
  have "\<exists>evts i. sd_Run s = Ret (evts, ?to i) \<and> i < length (sd_requests s) \<and> length evts = length (sd_requests s)"
  proof (cases "networkRequest 0 None (map cutRequest (sd_requests s))")
    case None
    have "\<exists>evts. sd_Run s = Ret (evts, ?to (length (sd_requests s) - 1)) \<and> length evts = length (sd_requests s)"
      using None False assms by (simp add: sd_Run_def Let_def case_prod_beta)
    then show ?thesis using assms(2) by (meson diff_less length_greater_0_conv zero_less_one)
  next
    case (Some i)
    have less: "i < length (sd_requests s)" using networkRequest_less [OF Some] by simp
    then have "\<exists>evts. sd_Run s = Ret (evts, ?to i) \<and> length evts = length (sd_requests s)"
      using Some False assms by (simp add: sd_Run_def Let_def)
    then show ?thesis using less by blast
  qed
  then show ?thesis by auto
qed

lemma Run_pays:
  assumes "sd_expectCollected s \<noteq> sd_collected s" and "sd_requests s \<noteq> []"
    and "sum_list (cuts s) \<le> unat (sd_collected s)"
  shows "\<exists>evts s' i. sd_Run s = Ret (evts, s') \<and> length evts = length (sd_requests s) \<and> i < length (cuts s)
    \<and> paid s' = (cuts s)[i := cuts s ! i + (unat (sd_collected s) - sum_list (cuts s))]
    \<and> sum_list (paid s') = unat (sd_collected s)"
proof -
  let ?rs = "sd_requests s" and ?m = "unat (sd_collected s) - sum_list (cuts s)"
  let ?total = "sum_list (map rq_amt ?rs)"
  obtain evts s' i where run: "sd_Run s = Ret (evts, s')" "i < length ?rs" "length evts = length ?rs"
    and reqs: "sd_requests s' = (map cutRequest ?rs)
       [i := addAmount (fst (Uint_Delta (sd_collected s) ?total)) (cutRequest (?rs ! i))]"
    using Run_shape [OF assms(1,2)] by blast
  have lt: "unat (sd_collected s) < 2 ^ 256" using unsigned_less [of "sd_collected s"] by simp
  have total: "unat ?total = sum_list (cuts s)"
    using unat_sum_list [of "map rq_amt ?rs"] assms(3) lt by (simp add: cuts_def comp_def)
  then have "\<not> sd_collected s < ?total" using assms(3) by (simp add: word_less_nat_alt)
  then have m: "unat (fst (Uint_Delta (sd_collected s) ?total)) = ?m"
    using assms(3) total by (simp add: Uint_Delta_def unat_sub word_le_nat_alt)
  have i: "i < length (cuts s)" using run(2) by (simp add: cuts_def)
  have "cuts s ! i \<le> sum_list (cuts s)" using i by (simp add: elem_le_sum_list)
  then have "cuts s ! i + ?m < 2 ^ 256" using assms(3) lt by linarith
  then have ith: "unat (tr_Amount (rq_request (addAmount (fst (Uint_Delta (sd_collected s) ?total)) (cutRequest (?rs ! i)))))
    = cuts s ! i + ?m"
    using run(2) by (simp add: addAmount_def cutRequest_def unat_word_ariths m cuts_def)
  have paid: "paid s' = (cuts s)[i := cuts s ! i + ?m]"
    using ith by (simp add: paid_def reqs map_update) (simp add: cuts_def comp_def cutRequest_def)
  have "sum_list (paid s') = sum_list (cuts s) + (cuts s ! i + ?m) - cuts s ! i"
    unfolding paid using i by (simp add: sum_list_update)
  then show ?thesis using run i paid assms(3) by auto
qed

definition ratioOf :: "(rat \<Rightarrow> rat \<Rightarrow> rat) \<Rightarrow> simpleDistributor \<Rightarrow> rat" where
  "ratioOf ddiv s = ddiv (decimalFromUint (sd_collected s)) (decimalFromUint (sd_expectCollected s))"

definition cutTo :: "rat \<Rightarrow> Transfer \<Rightarrow> int" where
  "cutTo r req = \<lfloor>decimalFromUint (tr_Amount req) * r\<rfloor>"

lemma AddAll_requests:
  assumes "sd_expectCollected s \<noteq> 0"
  shows "sd_AddAll ddiv reqs s = Ret (s\<lparr>sd_requests := sd_requests s @
    map (\<lambda>req. \<lparr>rq_amount = of_int (cutTo (ratioOf ddiv s) req),
                rq_amt = UintFromBig (cutTo (ratioOf ddiv s) req), rq_request = req\<rparr>) reqs\<rparr>)"
  using assms
proof (induction reqs arbitrary: s)
  case (Cons req reqs)
  then show ?case by (simp add: sd_Add_def Let_def ratioOf_def cutTo_def)
qed simp

lemma decimalFromUint_nat: "decimalFromUint u = of_nat (unat u)"
  by (simp add: decimalFromUint_def)

lemma ratio_bounds:
  assumes "decimal_div ddiv" and "sd_collected s < sd_expectCollected s"
  shows "0 \<le> ratioOf ddiv s" and "ratioOf ddiv s \<le> 1"
    and "\<bar>ratioOf ddiv s - of_nat (unat (sd_collected s)) / of_nat (unat (sd_expectCollected s))\<bar> \<le> 1 / (2 * 10 ^ 16)"
proof -
  let ?c = "of_nat (unat (sd_collected s)) :: rat" and ?e = "of_nat (unat (sd_expectCollected s)) :: rat"
  have lt: "?c < ?e" using assms(2) by (simp only: word_less_nat_alt of_nat_less_iff)
  have pos: "0 < ?e" using lt of_nat_0_le_iff [of "unat (sd_collected s)", where 'a = rat] by linarith
  have r: "ratioOf ddiv s = ddiv ?c ?e" by (simp only: ratioOf_def decimalFromUint_nat)
  have d: "\<bar>ddiv ?c ?e - ?c / ?e\<bar> \<le> 1 / (2 * 10 ^ 16)"
    using assms(1) pos unfolding decimal_div_def by blast
  show "\<bar>ratioOf ddiv s - ?c / ?e\<bar> \<le> 1 / (2 * 10 ^ 16)" using d by (simp only: r)
  have "of_int 0 \<le> ?c / ?e" using pos
    by (simp only: of_int_0) (intro divide_nonneg_pos, simp_all only: of_nat_0_le_iff)
  from decimal_div_ge [OF assms(1) pos this] show "0 \<le> ratioOf ddiv s" by (simp only: r of_int_0)
  have "?c / ?e \<le> of_int 1" using lt pos by (simp add: divide_le_eq)
  from decimal_div_le [OF assms(1) pos this] show "ratioOf ddiv s \<le> 1" by (simp only: r of_int_1)
qed

lemma cutTo_bounds:
  assumes "0 \<le> r"
  shows "0 \<le> cutTo r req" and "of_int (cutTo r req) \<le> of_nat (unat (tr_Amount req)) * r"
    and "of_nat (unat (tr_Amount req)) * r < of_int (cutTo r req) + 1"
  using assms by (simp_all only: cutTo_def decimalFromUint_nat zero_le_floor mult_nonneg_nonneg of_nat_0_le_iff
      of_int_floor_le) (rule floor_correct [THEN conjunct2, THEN order.strict_trans2], simp)

lemma unat_cutTo:
  assumes "0 \<le> r" and "r \<le> 1"
  shows "of_nat (unat (UintFromBig (cutTo r req))) = (of_int (cutTo r req) :: rat)"
proof -
  have "of_int (cutTo r req) \<le> of_nat (unat (tr_Amount req)) * r" by (rule cutTo_bounds(2) [OF assms(1)])
  also have "\<dots> \<le> of_nat (unat (tr_Amount req))" using assms by (intro mult_left_le) (simp_all only: of_nat_0_le_iff)
  finally have "cutTo r req \<le> int (unat (tr_Amount req))"
    by (metis of_int_le_iff of_int_of_nat_eq)
  also have "\<dots> < 2 ^ 256" using uint_lt2p [of "tr_Amount req"] by simp
  finally have lt: "cutTo r req < 2 ^ 256" .
  have "unat (UintFromBig (cutTo r req)) = nat (cutTo r req)"
    using cutTo_bounds(1) [OF assms(1)] lt
    by (simp add: UintFromBig_def unsigned_of_int take_bit_int_eq_self flip: nat_uint_eq)
  then show ?thesis using cutTo_bounds(1) [OF assms(1)] by (simp only: of_nat_nat)
qed

lemma sum_cuts:
  assumes "0 \<le> r"
  shows "sum_list (map (\<lambda>req. of_int (cutTo r req)) reqs) \<le> of_nat (sum_list (map (unat \<circ> tr_Amount) reqs)) * r"
    and "of_nat (sum_list (map (unat \<circ> tr_Amount) reqs)) * r
      \<le> sum_list (map (\<lambda>req. of_int (cutTo r req)) reqs) + of_nat (length reqs)"
proof -
  show "sum_list (map (\<lambda>req. of_int (cutTo r req)) reqs) \<le> of_nat (sum_list (map (unat \<circ> tr_Amount) reqs)) * r"
  proof (induction reqs)
    case (Cons req reqs)
    then show ?case using cutTo_bounds(2) [OF assms, of req]
      by (simp only: list.map sum_list.Cons of_nat_add distrib_right comp_apply add_mono)
  qed simp
  show "of_nat (sum_list (map (unat \<circ> tr_Amount) reqs)) * r
      \<le> sum_list (map (\<lambda>req. of_int (cutTo r req)) reqs) + of_nat (length reqs)"
  proof (induction reqs)
    case (Cons req reqs)
    have "of_nat (unat (tr_Amount req)) * r + of_nat (sum_list (map (unat \<circ> tr_Amount) reqs)) * r
      \<le> (of_int (cutTo r req) + 1) + (sum_list (map (\<lambda>req. of_int (cutTo r req)) reqs) + of_nat (length reqs))"
      by (rule add_mono [OF less_imp_le [OF cutTo_bounds(3) [OF assms]] Cons])
    then show ?case
      by (simp add: algebra_simps comp_def del: of_nat_unat)
  qed simp
qed

lemma of_nat_sum_list: "of_nat (sum_list xs) = (sum_list (map of_nat xs) :: rat)"
  by (induction xs) simp_all

lemma near_share:
  fixes r q a e :: rat
  assumes "\<bar>r - q\<bar> \<le> 1 / (2 * 10 ^ 16)" and "0 \<le> a" and "a \<le> e" and "e < 2 * 10 ^ 16"
  shows "\<bar>a * r - a * q\<bar> < 1"
proof -
  have "\<bar>a * r - a * q\<bar> = a * \<bar>r - q\<bar>" using assms(2) by (simp add: abs_mult flip: right_diff_distrib)
  also have "\<dots> \<le> e * (1 / (2 * 10 ^ 16))" using assms(1-3) by (intro mult_mono) simp_all
  also have "\<dots> < 1" using assms(4) by simp
  finally show ?thesis .
qed

text \<open>The requests after the wins were added, the sum of the cuts and the remainder.\<close>

lemma cuts_sum:
  assumes "decimal_div ddiv" and "sd_requests s = []" and "sd_collected s < sd_expectCollected s"
    and "sum_list (map (unat \<circ> tr_Amount) reqs) = unat (sd_expectCollected s)"
    and "unat (sd_expectCollected s) < 2 * 10 ^ 16"
  obtains s1 where "sd_AddAll ddiv reqs s = Ret s1" and "sd_collected s1 = sd_collected s"
    and "sd_expectCollected s1 = sd_expectCollected s" and "length (sd_requests s1) = length reqs"
    and "map of_nat (cuts s1) = map (\<lambda>req. of_int (cutTo (ratioOf ddiv s) req) :: rat) reqs"
    and "sum_list (cuts s1) \<le> unat (sd_collected s)"
    and "unat (sd_collected s) \<le> sum_list (cuts s1) + length reqs"
proof -
  define C where "C = unat (sd_collected s)"
  define E where "E = unat (sd_expectCollected s)"
  note r = ratio_bounds [OF assms(1,3), folded C_def E_def]
  let ?r = "ratioOf ddiv s"
  define s1 where "s1 = s\<lparr>sd_requests := map (\<lambda>req. \<lparr>rq_amount = of_int (cutTo ?r req),
    rq_amt = UintFromBig (cutTo ?r req), rq_request = req\<rparr>) reqs\<rparr>"
  have ne: "sd_expectCollected s \<noteq> 0" using assms(3) by auto
  have add: "sd_AddAll ddiv reqs s = Ret s1" using AddAll_requests [OF ne] assms(2) by (simp add: s1_def)
  have cuts: "map of_nat (cuts s1) = map (\<lambda>req. of_int (cutTo ?r req) :: rat) reqs"
    unfolding cuts_def s1_def using unat_cutTo [OF r(1,2)] by (simp del: of_nat_unat)
  have S: "of_nat (sum_list (cuts s1)) = sum_list (map (\<lambda>req. of_int (cutTo ?r req) :: rat) reqs)"
    unfolding cuts [symmetric] by (rule of_nat_sum_list)
  have "0 < E" using ne by (simp add: E_def unat_gt_0)
  then have "of_nat E * (of_nat C / of_nat E) = (of_nat C :: rat)" by simp
  moreover have "(of_nat E :: rat) < 2 * 10 ^ 16" using assms(5) by (simp flip: E_def)
  ultimately have "\<bar>of_nat E * ?r - of_nat C\<bar> < 1" using near_share [OF r(3), of "of_nat E" "of_nat E"] by simp
  then have "(of_nat (sum_list (cuts s1)) :: rat) < of_nat (Suc C)"
    "(of_nat C :: rat) < of_nat (Suc (sum_list (cuts s1) + length reqs))"
    using sum_cuts [OF r(1), of reqs, unfolded assms(4), folded E_def S] by simp_all
  then have "sum_list (cuts s1) \<le> C" "C \<le> sum_list (cuts s1) + length reqs"
    by (simp_all only: of_nat_less_iff less_Suc_eq_le)
  then show thesis using that [OF add _ _ _ cuts] by (simp add: s1_def C_def)
qed

lemma share_bound:
  assumes "decimal_div ddiv" and "sd_collected s < sd_expectCollected s"
    and "sum_list (map (unat \<circ> tr_Amount) reqs) = unat (sd_expectCollected s)"
    and "unat (sd_expectCollected s) < 2 * 10 ^ 16" and "i < length reqs"
    and "map of_nat cs = map (\<lambda>req. of_int (cutTo (ratioOf ddiv s) req) :: rat) reqs"
    and "length cs = length reqs" and "cs ! i \<le> p" and "p \<le> cs ! i + length reqs"
  shows "\<bar>of_nat p - of_nat (unat (tr_Amount (reqs ! i)))
    * (of_nat (unat (sd_collected s)) / of_nat (unat (sd_expectCollected s)))\<bar> \<le> (of_nat (length reqs) + 1 :: rat)"
proof -
  define C where "C = unat (sd_collected s)"
  define E where "E = unat (sd_expectCollected s)"
  define A where "A = unat (tr_Amount (reqs ! i))"
  note r = ratio_bounds [OF assms(1,2), folded C_def E_def]
  have "A \<le> sum_list (map (unat \<circ> tr_Amount) reqs)"
    using member_le_sum_list [of A "map (unat \<circ> tr_Amount) reqs"] assms(5) by (force simp: A_def)
  then have "(of_nat A :: rat) \<le> of_nat E" by (simp add: assms(3) E_def del: of_nat_unat)
  moreover have "(of_nat E :: rat) < 2 * 10 ^ 16" using assms(4) by (simp flip: E_def)
  ultimately have near: "\<bar>of_nat A * ratioOf ddiv s - of_nat A * (of_nat C / of_nat E)\<bar> < 1"
    using near_share [OF r(3), of "of_nat A" "of_nat E"] by simp
  have "of_nat (cs ! i) = (of_int (cutTo (ratioOf ddiv s) (reqs ! i)) :: rat)"
    using arg_cong [OF assms(6), of "\<lambda>xs. xs ! i"] assms(5,7) by simp
  then have cut: "of_nat (cs ! i) \<le> of_nat A * ratioOf ddiv s" "of_nat A * ratioOf ddiv s < of_nat (cs ! i) + 1"
    using cutTo_bounds(2,3) [OF r(1), of "reqs ! i", folded A_def] by simp_all
  have p: "of_nat (cs ! i) \<le> (of_nat p :: rat)" "of_nat p \<le> (of_nat (cs ! i) + of_nat (length reqs) :: rat)"
    using assms(8,9) by (simp_all flip: of_nat_add)
  have n: "(1 :: rat) \<le> of_nat (length reqs)" using assms(5) by (cases reqs) simp_all
  show ?thesis unfolding A_def [symmetric] C_def [symmetric] E_def [symmetric]
    using near cut p n by (simp only: abs_le_iff abs_less_iff) linarith
qed

text \<open>
  C37: what was collected is handed out, all of it and nothing else. The winning transfers add up to
  what should have been collected; after the cut they add up to what was collected, there is one
  event for each, and no transfer is further from its exact share than their number plus one. The
  sum that should have been collected is below \<open>2 * 10 ^ 16\<close>, so that the rounding of the ratio to
  sixteen decimal places cannot add up to a unit.
\<close>

theorem losses_shared_exactly:
  assumes "decimal_div ddiv" and "sd_requests s = []" and "reqs \<noteq> []"
    and "sd_collected s < sd_expectCollected s"
    and "sum_list (map (unat \<circ> tr_Amount) reqs) = unat (sd_expectCollected s)"
    and "unat (sd_expectCollected s) < 2 * 10 ^ 16"
  shows "\<exists>s1 evts s2. sd_AddAll ddiv reqs s = Ret s1 \<and> sd_Run s1 = Ret (evts, s2)
    \<and> sum_list (paid s2) = unat (sd_collected s) \<and> length evts = length reqs
    \<and> (\<forall>i < length reqs. \<bar>of_nat (paid s2 ! i) - of_nat (unat (tr_Amount (reqs ! i)))
          * (of_nat (unat (sd_collected s)) / of_nat (unat (sd_expectCollected s)))\<bar>
          \<le> (of_nat (length reqs) + 1 :: rat))"
proof -
  obtain s1 where s1: "sd_AddAll ddiv reqs s = Ret s1" "sd_collected s1 = sd_collected s"
    "sd_expectCollected s1 = sd_expectCollected s" "length (sd_requests s1) = length reqs"
    and cuts: "map of_nat (cuts s1) = map (\<lambda>req. of_int (cutTo (ratioOf ddiv s) req) :: rat) reqs"
    and le: "sum_list (cuts s1) \<le> unat (sd_collected s)"
    and rem: "unat (sd_collected s) \<le> sum_list (cuts s1) + length reqs"
    by (rule cuts_sum [OF assms(1,2,4-6)])
  have "sd_expectCollected s1 \<noteq> sd_collected s1" "sd_requests s1 \<noteq> []" using s1 assms(3,4) by auto
  from Run_pays [OF this] obtain evts s2 k where run: "sd_Run s1 = Ret (evts, s2)" "length evts = length reqs"
    "sum_list (paid s2) = unat (sd_collected s)"
    and k: "k < length (cuts s1)"
    and paid: "paid s2 = (cuts s1)[k := cuts s1 ! k + (unat (sd_collected s) - sum_list (cuts s1))]"
    using s1 le by auto
  have len: "length (cuts s1) = length reqs" using s1(4) by (simp add: cuts_def)
  have "\<bar>of_nat (paid s2 ! i) - of_nat (unat (tr_Amount (reqs ! i)))
      * (of_nat (unat (sd_collected s)) / of_nat (unat (sd_expectCollected s)))\<bar>
      \<le> (of_nat (length reqs) + 1 :: rat)" if "i < length reqs" for i
    by (rule share_bound [OF assms(1,4-6) that cuts len]) (use rem k in \<open>auto simp: paid nth_list_update\<close>)
  then show ?thesis using s1(1) run by auto
qed

definition shortfall :: "Uint \<Rightarrow> Uint \<Rightarrow> simpleDistributor" where
  "shortfall collected expected = \<lparr>sd_marketID = ''m'', sd_expectCollected = expected, sd_collected = collected,
     sd_requests = [], sd_ts = 0, sd_lType = LossTypeSettlement\<rparr>"

theorem losses_shared_exactly_witness:
  "\<exists>s1 evts s2. sd_AddAll dec_round [\<lparr>tr_Owner = ''a'', tr_Amount = 4\<rparr>, \<lparr>tr_Owner = ''b'', tr_Amount = 5\<rparr>]
      (shortfall 5 9) = Ret s1 \<and> sd_Run s1 = Ret (evts, s2) \<and> sum_list (paid s2) = 5"
proof -
  let ?reqs = "[\<lparr>tr_Owner = ''a'', tr_Amount = 4\<rparr>, \<lparr>tr_Owner = ''b'', tr_Amount = 5\<rparr>]"
  have "sum_list (map (unat \<circ> tr_Amount) ?reqs) = unat (sd_expectCollected (shortfall 5 9))"
    by (simp add: shortfall_def)
  from losses_shared_exactly [OF decimal_div_dec_round _ _ _ this] show ?thesis
    by (auto simp: shortfall_def)
qed

text \<open>When the cuts add up to more than was collected, the difference is added once more.\<close>

lemma Run_overpays:
  assumes "sd_expectCollected s \<noteq> sd_collected s" and "sd_requests s \<noteq> []"
    and "unat (sd_collected s) < sum_list (cuts s)" and "2 * sum_list (cuts s) < 2 ^ 256"
  shows "\<exists>evts s'. sd_Run s = Ret (evts, s')
    \<and> sum_list (paid s') = sum_list (cuts s) + (sum_list (cuts s) - unat (sd_collected s))"
proof -
  let ?rs = "sd_requests s" and ?m = "sum_list (cuts s) - unat (sd_collected s)"
  let ?total = "sum_list (map rq_amt ?rs)"
  obtain evts s' i where run: "sd_Run s = Ret (evts, s')" "i < length ?rs"
    and reqs: "sd_requests s' = (map cutRequest ?rs)
       [i := addAmount (fst (Uint_Delta (sd_collected s) ?total)) (cutRequest (?rs ! i))]"
    using Run_shape [OF assms(1,2)] by blast
  have total: "unat ?total = sum_list (cuts s)"
    using unat_sum_list [of "map rq_amt ?rs"] assms(4) by (simp add: cuts_def comp_def)
  then have "sd_collected s < ?total" using assms(3) by (simp add: word_less_nat_alt)
  then have m: "unat (fst (Uint_Delta (sd_collected s) ?total)) = ?m"
    using total by (simp add: Uint_Delta_def unat_sub)
  have i: "i < length (cuts s)" using run(2) by (simp add: cuts_def)
  have "cuts s ! i \<le> sum_list (cuts s)" using i by (simp add: elem_le_sum_list)
  then have "cuts s ! i + ?m < 2 ^ 256" using assms(4) by linarith
  then have ith: "unat (tr_Amount (rq_request (addAmount (fst (Uint_Delta (sd_collected s) ?total)) (cutRequest (?rs ! i)))))
    = cuts s ! i + ?m"
    using run(2) by (simp add: addAmount_def cutRequest_def unat_word_ariths m cuts_def)
  have "paid s' = (cuts s)[i := cuts s ! i + ?m]"
    using ith by (simp add: paid_def reqs map_update) (simp add: cuts_def comp_def cutRequest_def)
  then have "sum_list (paid s') = sum_list (cuts s) + (cuts s ! i + ?m) - cuts s ! i"
    using i by (simp add: sum_list_update)
  then show ?thesis using run(1) by auto
qed

text \<open>
  C40: without that bound the distributor can hand out more than was collected. Whenever the rounded
  ratio, applied to the whole sum due, exceeds what was collected by more than the number of winning
  transfers, the cuts add up to more than was collected; the distributor then takes the difference
  without its sign and adds it once more instead of taking it away, so that the transfers exceed what
  was collected by twice the excess of the cuts. Two thirds of \<open>3 * 10 ^ 17\<close> units are an example: the
  ratio is rounded up in its sixteenth decimal place.
\<close>

theorem losses_overpaid:
  assumes "decimal_div ddiv" and "sd_requests s = []" and "reqs \<noteq> []"
    and "sd_collected s < sd_expectCollected s"
    and "sum_list (map (unat \<circ> tr_Amount) reqs) = unat (sd_expectCollected s)"
    and "2 * unat (sd_expectCollected s) < 2 ^ 256"
    and "of_nat (unat (sd_collected s)) + of_nat (length reqs)
      < of_nat (unat (sd_expectCollected s))
        * ddiv (decimalFromUint (sd_collected s)) (decimalFromUint (sd_expectCollected s))"
  shows "\<exists>s1 evts s2. sd_AddAll ddiv reqs s = Ret s1 \<and> sd_Run s1 = Ret (evts, s2)
    \<and> unat (sd_collected s) < sum_list (cuts s1)
    \<and> sum_list (paid s2) = unat (sd_collected s) + 2 * (sum_list (cuts s1) - unat (sd_collected s))"
proof -
  let ?r = "ratioOf ddiv s"
  define E where "E = unat (sd_expectCollected s)"
  note r = ratio_bounds [OF assms(1,4)]
  define s1 where "s1 = s\<lparr>sd_requests := map (\<lambda>req. \<lparr>rq_amount = of_int (cutTo ?r req),
    rq_amt = UintFromBig (cutTo ?r req), rq_request = req\<rparr>) reqs\<rparr>"
  have ne: "sd_expectCollected s \<noteq> 0" using assms(4) by auto
  have add: "sd_AddAll ddiv reqs s = Ret s1" using AddAll_requests [OF ne] assms(2) by (simp add: s1_def)
  have cuts: "map of_nat (cuts s1) = map (\<lambda>req. of_int (cutTo ?r req) :: rat) reqs"
    unfolding cuts_def s1_def using unat_cutTo [OF r(1,2)] by (simp del: of_nat_unat)
  have S: "of_nat (sum_list (cuts s1)) = sum_list (map (\<lambda>req. of_int (cutTo ?r req) :: rat) reqs)"
    unfolding cuts [symmetric] by (rule of_nat_sum_list)
  note sums = sum_cuts [OF r(1), of reqs, unfolded assms(5), folded E_def S]
  have "of_nat (unat (sd_collected s)) + of_nat (length reqs) < of_nat E * ?r"
    using assms(7) by (simp only: ratioOf_def E_def)
  with sums(2) have "(of_nat (unat (sd_collected s)) :: rat) < of_nat (sum_list (cuts s1))" by linarith
  then have gt: "unat (sd_collected s) < sum_list (cuts s1)" by (simp only: of_nat_less_iff)
  have "of_nat E * ?r \<le> of_nat E" using r(1,2) by (intro mult_left_le) (simp_all only: of_nat_0_le_iff)
  with sums(1) have "(of_nat (sum_list (cuts s1)) :: rat) \<le> of_nat E" by linarith
  then have "2 * sum_list (cuts s1) < 2 ^ 256" using assms(6) unfolding E_def of_nat_le_iff by linarith
  moreover have col: "sd_collected s1 = sd_collected s"
    and "sd_expectCollected s1 \<noteq> sd_collected s1" and "sd_requests s1 \<noteq> []"
    using assms(3,4) by (auto simp: s1_def)
  ultimately obtain evts s2 where "sd_Run s1 = Ret (evts, s2)"
    "sum_list (paid s2) = sum_list (cuts s1) + (sum_list (cuts s1) - unat (sd_collected s))"
    using Run_overpays [of s1] gt unfolding col by blast
  then show ?thesis using add gt by (intro exI [of _ s1] exI [of _ evts] exI [of _ s2]) simp
qed

theorem losses_overpaid_witness:
  "\<exists>s1 evts s2. sd_AddAll dec_round [\<lparr>tr_Owner = ''a'', tr_Amount = 300000000000000000\<rparr>]
      (shortfall 200000000000000000 300000000000000000) = Ret s1 \<and> sd_Run s1 = Ret (evts, s2)
    \<and> 200000000000000000 < sum_list (paid s2)"
proof -
  let ?s = "shortfall 200000000000000000 300000000000000000"
  have "200000000000000001 < 300000000000000000 * dec_round 200000000000000000 300000000000000000"
    by code_simp
  hence "of_nat (unat (sd_collected ?s)) + of_nat (length [\<lparr>tr_Owner = ''a'', tr_Amount = 300000000000000000\<rparr>])
      < of_nat (unat (sd_expectCollected ?s))
        * dec_round (decimalFromUint (sd_collected ?s)) (decimalFromUint (sd_expectCollected ?s))"
    by (simp add: shortfall_def decimalFromUint_def)
  from losses_overpaid [OF decimal_div_dec_round _ _ _ _ _ this] show ?thesis
    by (force simp: shortfall_def)
qed

end
