(* ===== verification/Spec2Isabelle.thy ===== *)
theory Spec2Isabelle
  imports Book_Auction Indicative_Cache Book_Runs Auction_State_Props Market_Position_Props
    Positions_Props Epoch_Time Loss_Distribution
begin

text \<open>
  Verification of the trading core of the Vega protocol node.

  \<^bold>\<open>The program.\<close> A market of the node keeps a limit order book (\<^verbatim>\<open>core/matching\<close>). Orders are submitted
  to it in continuous trading or collected in an auction; a book has two sides, each a sorted list of
  price levels, each level a queue of orders. The auction state (\<^verbatim>\<open>core/monitor\<close>) says which of the two
  modes the market is in. Every order and every trade is reported to the positions engine
  (\<^verbatim>\<open>core/positions\<close>), which keeps the size, the entry price and the potential positions of each party.
  When wins and losses are settled and the losers cannot pay, the wins are cut by the distributor of
  \<^verbatim>\<open>core/collateral\<close>. The network counts its time in epochs (\<^verbatim>\<open>core/epochtime\<close>). Prices are unsigned
  256-bit integers and volumes unsigned 64-bit integers (\<^verbatim>\<open>libs/num\<close>); orders and trades are in
  \<^verbatim>\<open>core/types\<close>.

  \<^bold>\<open>The theories of the model.\<close>
  \<^item> \<open>Vega_Prelude\<close>: results of Go functions that may panic or not return (\<open>go\<close>), machine integers,
    generic lemmas on lists, maps and words, decimal division as a parameter.
  \<^item> \<open>Vega_Num\<close>: \<^verbatim>\<open>libs/num/uint.go\<close> and \<^verbatim>\<open>libs/num/int.go\<close>.
  \<^item> \<open>Orders\<close>: \<^verbatim>\<open>core/types/matching.go\<close> and \<^verbatim>\<open>core/types/orders.go\<close>.
  \<^item> \<open>Price_Level\<close>: \<^verbatim>\<open>core/matching/pricelevel.go\<close>; \<open>Book_Side\<close>: \<^verbatim>\<open>core/matching/side.go\<close>.
  \<^item> \<open>Indicative\<close>: \<^verbatim>\<open>core/matching/indicative_price_and_volume.go\<close>.
  \<^item> \<open>Order_Book\<close>, \<open>Book_Trading\<close>, \<open>Book_Auction\<close>: \<^verbatim>\<open>core/matching/orderbook.go\<close>,
    \<^verbatim>\<open>pegged_orders.go\<close> and \<^verbatim>\<open>validation.go\<close>.
  \<^item> \<open>Auction_State\<close>: \<^verbatim>\<open>core/monitor/auction.go\<close>, \<^verbatim>\<open>core/monitor/snapshot.go\<close> and the conversion of the
    snapshot to the fields of its message in \<^verbatim>\<open>core/types/snapshot_nodes.go\<close>.
  \<^item> \<open>Market_Position\<close>: \<^verbatim>\<open>core/positions/market_position.go\<close>; \<open>Positions_Engine\<close>:
    \<^verbatim>\<open>core/positions/engine.go\<close>.
  \<^item> \<open>Epoch_Time\<close>: \<^verbatim>\<open>core/epochtime/service.go\<close>, with its properties.
  \<^item> \<open>Loss_Distribution\<close>: \<^verbatim>\<open>core/collateral/simple_distributor.go\<close>, with its properties.

  \<^bold>\<open>State.\<close> Structs are records and every method is a function on them. A Go pointer to an order that
  several containers share is modelled by its value in each of them; where the code writes through
  such a pointer the model writes to every holder, found by the identifier of the order (\<open>latest\<close>,
  \<open>storeTable\<close>, \<open>storeSide\<close>, \<open>storeOrders\<close>). A Go map is an association list; its iteration order is a
  parameter where it can be observed. Panics are the value \<open>Panic\<close> and a loop that runs out of fuel is
  \<open>Diverge\<close>. A caller that makes many calls is a list of operations and a function that runs it
  (\<open>bookRun\<close>, \<open>callPositions\<close>), so that invariants are over all sequences of calls.

  \<^bold>\<open>Parameters.\<close> The division of decimals is \<open>ddiv\<close>, with the hypothesis \<open>decimal_div\<close>: the result is a
  multiple of \<open>10 ^ -16\<close> that differs from the quotient by at most half of that unit; \<open>dec_round\<close> is a
  function of this kind. The automated market makers are \<open>OffbookSource\<close>; the theorems on uncrossing
  are for a market without them.

  \<^bold>\<open>What is shown.\<close>
  \<^item> Levels (\<open>Price_Level_Lemmas\<close>, \<open>Price_Level_Props\<close>): uncrossing conserves volume and keeps the
    invariant and the queue; against plain orders it is a first-in first-out reference, with and
    without the wash-trade check; the hidden volume of iceberg orders is split exactly. The preview
    agrees with the uncrossing unless it meets an order of the same party behind hidden volume.
  \<^item> Sides (\<open>Priced_Store\<close>, \<open>Book_Side_Store\<close>, \<open>Book_Side_Uncross\<close>, \<open>Book_Effects\<close>): a side refines a map
    from prices to queues, through the locales \<open>priced\<close> and \<open>keyed_store\<close> that the volumes of an auction
    also interpret; uncrossing trades in price order within the limit and stops only for the reasons
    the code gives; fill-or-kill orders are filled completely or not at all; the preview of a side
    returns the real trades for orders that are not fill-or-kill, not of the network and meet no wash
    trade, and \<open>preview_misses_hidden_volume\<close> shows what happens when one does.
  \<^item> The book (\<open>Side_Orders\<close>, \<open>Book_Tables\<close>, \<open>Book_Coherence\<close>, \<open>Book_Matching\<close>, \<open>Book_Submission\<close>,
    \<open>Book_Runs\<close>): under any sequence of submissions and cancellations in continuous trading no call
    panics, the two sides and the lookup tables hold the same orders, and the book is never crossed.
  \<^item> The volumes of an auction (\<open>Indicative_Props\<close>, \<open>Indicative_Cache\<close>): the cached two-ended computation
    returns what a computation from scratch returns.
  \<^item> Auctions (\<open>Auction_State_Props\<close>): the state is well formed after any sequence of calls, a
    suspension by governance holds, every auction can be left, extensions add up, and a snapshot
    restores all but the maximal duration and an unset begin.
  \<^item> Positions (\<open>Market_Position_Props\<close>, \<open>Positions_Props\<close>): the potential positions refine the multiset of
    live orders; the longs, the removed positions and the shorts balance; predicted open interest is
    the later one; the entry price lies between the prices averaged, and the sizes for which the
    64-bit test for a change of sides fails are characterised.
  \<^item> Epochs: they follow each other without gaps, and catching up ends.
  \<^item> Losses: below a total of \<open>2 * 10 ^ 16\<close> the cut wins add up to what was collected; above it, a ratio
    that was rounded up makes the distributor pay out more, by a stated amount.

  \<^bold>\<open>Fuel and bounds.\<close> Uncrossing a side recurses once per price level and needs more fuel than there are
  levels, hence more than there are orders in the book; a run of calls needs more than the number of
  calls, since each adds at most one order. Catching up with missed epochs takes two rounds for each
  and needs more than twice their number. The theorems show that the functions then return. The
  volumes on a side are bounded by \<open>2 ^ 63\<close> and the number of orders by \<open>2 * 10 ^ 16\<close>, where the shares of
  hidden volume, computed as decimals, would become inexact.

  \<^bold>\<open>Not modelled.\<close> Hashing, logging, configuration, metrics and the wire encoding of snapshots
  (generated protobuf code); the ledger of accounts, the risk, settlement, fee and liquidity engines
  and the automated market makers, which rest on decimal powers and roots and on external models;
  stop orders, kept in trees of a third-party package; governance, the connections to other chains,
  the servers, wallets and the data node.
\<close>

end
